(* ===== verification/Prelude.thy ===== *)
theory Prelude
  imports Main "HOL-Library.Word" "HOL-Library.AList"
begin

text \<open>
  Shared vocabulary of the development: the machine integers of the C++ sources, the errors a
  C++ function can end with, and the list and map updates the components share.

  A \<^verbatim>\<open>uint64_t\<close> or \<^verbatim>\<open>size_t\<close> is a 64-bit word.  A C++ \<^verbatim>\<open>int\<close> is an \<^typ>\<open>int\<close>; wherever
  the source converts between widths the conversion is written out (\<open>size_to_int\<close>,
  \<open>int_to_size\<close>), so truncation and wrap-around are part of the model.
\<close>

section \<open>Machine integers\<close>

type_synonym u8 = "8 word"
type_synonym u16 = "16 word"
type_synonym u32 = "32 word"
type_synonym u64 = "64 word"

text \<open>\<^verbatim>\<open>numeric_limits<uint64_t>::max()\<close>, the "no such procedure / object" marker.\<close>

definition no_id :: u64 where
  "no_id = - 1"

text \<open>Implicit conversions \<^verbatim>\<open>size_t \<rightarrow> int\<close> (truncation to 32 bits, two's complement)
  and \<^verbatim>\<open>int \<rightarrow> size_t\<close> (sign extension).\<close>

definition size_to_int :: "u64 \<Rightarrow> int" where
  "size_to_int w = signed_take_bit 31 (uint w)"

definition int_to_size :: "int \<Rightarrow> u64" where
  "int_to_size i = word_of_int i"

lemma unat_word_nat: "n < 2 ^ 64 \<Longrightarrow> unat (word_of_nat n :: u64) = n"
  by (simp add: unsigned_of_nat take_bit_nat_eq_self)

lemma unat_int_to_size:
  assumes "0 \<le> i" "i < 2 ^ 64"
  shows "unat (int_to_size i) = nat i"
  using assms by (simp add: int_to_size_def unat_eq_nat_uint uint_word_of_int take_bit_eq_mod)

lemma size_to_int_small:
  assumes "unat w < 2 ^ 31"
  shows "size_to_int w = int (unat w)"
proof -
  have "int (unat w) < int (2 ^ 31)"
    using assms by (simp only: of_nat_less_iff)
  then have "uint w < 2 ^ 31" by simp
  then show ?thesis
    using order_trans [of "- (2 ^ 31)" 0 "uint w"]
    by (simp add: size_to_int_def signed_take_bit_int_eq_self)
qed

section \<open>Errors\<close>

text \<open>
  How a C++ function of the program can fail to return a value: an exception it throws, or an
  operation whose behaviour the standard leaves undefined (a null or dangling pointer, an array
  index out of range, a variable read before it is written), or a loop that never ends.
\<close>

datatype cpp_error =
    Out_Of_Range
  | Runtime_Error string
  | Invalid_Argument string
  | Bad_Optional_Access
  | Bad_Variant_Access
  | Undefined_Behaviour
  | No_Return

type_synonym 'a result = "cpp_error + 'a"

definition ebind :: "'a result \<Rightarrow> ('a \<Rightarrow> 'b result) \<Rightarrow> 'b result" where
  "ebind r f = (case r of Inl e \<Rightarrow> Inl e | Inr a \<Rightarrow> f a)"

lemma ebind_simps [simp]:
  "ebind (Inl e) f = Inl e"
  "ebind (Inr a) f = f a"
  by (simp_all add: ebind_def)

text \<open>For evaluation: the continuation is not looked at before the value is known.\<close>

lemma ebind_weak_cong: "r = r' \<Longrightarrow> ebind r f = ebind r' f"
  by simp

lemma ebind_Inr_iff: "ebind r f = Inr b \<longleftrightarrow> (\<exists>a. r = Inr a \<and> f a = Inr b)"
  by (cases r) simp_all

text \<open>A \<^verbatim>\<open>for\<close> loop over a container whose body can fail.\<close>

primrec efold :: "('a \<Rightarrow> 's \<Rightarrow> 's result) \<Rightarrow> 'a list \<Rightarrow> 's \<Rightarrow> 's result" where
  "efold f [] s = Inr s"
| "efold f (x # xs) s = ebind (f x s) (efold f xs)"

lemma efold_append [simp]: "efold f (xs @ ys) s = ebind (efold f xs s) (efold f ys)"
  by (induction xs arbitrary: s) (auto simp: ebind_def split: sum.split)

text \<open>A loop invariant of such a loop.\<close>

lemma efold_invariant:
  assumes "efold f xs s = Inr s'" "I s"
    and "\<And>x s s'. x \<in> set xs \<Longrightarrow> I s \<Longrightarrow> f x s = Inr s' \<Longrightarrow> I s'"
  shows "I s'"
  using assms by (induction xs arbitrary: s) (auto simp: ebind_Inr_iff)

text \<open>A function with a loop that may not end: \<open>None\<close> when it does not return.\<close>

type_synonym 'a run = "'a result option"

definition of_run :: "'a run \<Rightarrow> 'a result" where
  "of_run r = (case r of None \<Rightarrow> Inl No_Return | Some x \<Rightarrow> x)"

lemma of_run_Inr_iff: "of_run r = Inr a \<longleftrightarrow> r = Some (Inr a)"
  by (cases r) (simp_all add: of_run_def)

definition rbind :: "'a run \<Rightarrow> ('a \<Rightarrow> 'b run) \<Rightarrow> 'b run" where
  "rbind r f = (case r of None \<Rightarrow> None | Some (Inl e) \<Rightarrow> Some (Inl e) | Some (Inr a) \<Rightarrow> f a)"

lemma rbind_simps [simp]:
  "rbind None f = None"
  "rbind (Some (Inl e)) f = Some (Inl e)"
  "rbind (Some (Inr a)) f = f a"
  by (simp_all add: rbind_def)

section \<open>Lists and maps\<close>

text \<open>Update of one array cell by a function of its old content.\<close>

definition upd_at :: "nat \<Rightarrow> ('a \<Rightarrow> 'a) \<Rightarrow> 'a list \<Rightarrow> 'a list" where
  "upd_at i f xs = xs[i := f (xs ! i)]"

lemma length_upd_at [simp]: "length (upd_at i f xs) = length xs"
  by (simp add: upd_at_def)

lemma upd_at_Nil_iff [simp]: "upd_at i f xs = [] \<longleftrightarrow> xs = []"
  by (simp add: upd_at_def)

lemma nth_upd_at: "j < length xs \<Longrightarrow> upd_at i f xs ! j = (if i = j then f (xs ! j) else xs ! j)"
  by (simp add: upd_at_def nth_list_update)

lemma nth_upd_at_eq [simp]: "i < length xs \<Longrightarrow> upd_at i f xs ! i = f (xs ! i)"
  by (simp add: upd_at_def)

lemma nth_upd_at_neq [simp]: "i \<noteq> j \<Longrightarrow> upd_at i f xs ! j = xs ! j"
  by (simp add: upd_at_def)

lemma find_append:
  "find P (xs @ ys) = (case find P xs of None \<Rightarrow> find P ys | Some x \<Rightarrow> Some x)"
  by (induction xs) auto

lemma find_map: "find P (map f xs) = map_option f (find (P \<circ> f) xs)"
  by (induction xs) auto

text \<open>Reading a map through C++ \<^verbatim>\<open>operator[]\<close>: a missing key is inserted with the default.\<close>

definition map_at :: "('k \<rightharpoonup> 'v) \<Rightarrow> 'v \<Rightarrow> 'k \<Rightarrow> 'v" where
  "map_at m d k = (case m k of None \<Rightarrow> d | Some v \<Rightarrow> v)"

definition map_touch :: "('k \<rightharpoonup> 'v) \<Rightarrow> 'v \<Rightarrow> 'k \<Rightarrow> ('k \<rightharpoonup> 'v)" where
  "map_touch m d k = m(k \<mapsto> map_at m d k)"

lemma map_at_simps [simp]:
  "m k = Some v \<Longrightarrow> map_at m d k = v"
  "m k = None \<Longrightarrow> map_at m d k = d"
  by (simp_all add: map_at_def)

lemma map_touch_present [simp]: "m k = Some v \<Longrightarrow> map_touch m d k = m"
  by (auto simp: map_touch_def map_at_def)

lemma dom_map_touch [simp]: "dom (map_touch m d k) = insert k (dom m)"
  by (simp add: map_touch_def)

end
