(* ===== verification/Ids.thy ===== *)
theory Ids
  imports Prelude
begin

text \<open>
  The identifiers of procedures, objects and timers: \<^verbatim>\<open>ThreadData::get_proc_id\<close>,
  \<^verbatim>\<open>get_obj_id\<close>, \<^verbatim>\<open>get_tim_id\<close> (\<^verbatim>\<open>src/common/thread_data.cpp\<close>) and the two functions of
  \<^verbatim>\<open>AsyncHandler\<close> (\<^verbatim>\<open>src/common/async_handler.cpp\<close>).  Each thread draws ids from a private block
  of 1000; a new block is taken from an atomic counter that all threads share
  (\<^verbatim>\<open>IdBlocks\<close>, \<^verbatim>\<open>src/common/async_thread_shared.h\<close>).

  The interface \<open>id_source\<close> states what the scheduler relies on: an id is never issued twice,
  whichever thread asks.  It is interpreted on the blocks of all threads together.
\<close>

section \<open>Model\<close>

text \<open>\<^verbatim>\<open>proc_id_base\<close>, \<^verbatim>\<open>proc_id_curr\<close> and \<^verbatim>\<open>p_init\<close>, and the same for objects and timers.\<close>

record id_cursor =
  cur_base :: u64
  cur_next :: u64
  cur_init :: bool

record thread_ids =
  proc_cur :: id_cursor
  obj_cur :: id_cursor
  tim_cur :: id_cursor

record id_blocks =
  proc_block :: u64
  obj_block :: u64
  timer_block :: u64

definition init_cursor :: id_cursor where
  "init_cursor = \<lparr>cur_base = 0, cur_next = 0, cur_init = False\<rparr>"

definition init_thread_ids :: thread_ids where
  "init_thread_ids = \<lparr>proc_cur = init_cursor, obj_cur = init_cursor, tim_cur = init_cursor\<rparr>"

definition init_blocks :: id_blocks where
  "init_blocks = \<lparr>proc_block = 0, obj_block = 0, timer_block = 0\<rparr>"

text \<open>The common body: \<open>blk\<close> is the shared counter, read and incremented when the block is used up.\<close>

definition take_id :: "id_cursor \<Rightarrow> u64 \<Rightarrow> u64 \<times> id_cursor \<times> u64" where
  "take_id c blk =
     (if \<not> cur_init c \<or> cur_next c = cur_base c + 1000
      then (1000 * blk, \<lparr>cur_base = 1000 * blk, cur_next = 1000 * blk + 1, cur_init = True\<rparr>, blk + 1)
      else (cur_next c, c\<lparr>cur_next := cur_next c + 1\<rparr>, blk))"

definition get_proc_id :: "thread_ids \<Rightarrow> id_blocks \<Rightarrow> u64 \<times> thread_ids \<times> id_blocks" where
  "get_proc_id ti b =
     (let (i, c, k) = take_id (proc_cur ti) (proc_block b)
      in (i, ti\<lparr>proc_cur := c\<rparr>, b\<lparr>proc_block := k\<rparr>))"

definition get_obj_id :: "thread_ids \<Rightarrow> id_blocks \<Rightarrow> u64 \<times> thread_ids \<times> id_blocks" where
  "get_obj_id ti b =
     (let (i, c, k) = take_id (obj_cur ti) (obj_block b)
      in (i, ti\<lparr>obj_cur := c\<rparr>, b\<lparr>obj_block := k\<rparr>))"

definition get_tim_id :: "thread_ids \<Rightarrow> id_blocks \<Rightarrow> u64 \<times> thread_ids \<times> id_blocks" where
  "get_tim_id ti b =
     (let (i, c, k) = take_id (tim_cur ti) (timer_block b)
      in (i, ti\<lparr>tim_cur := c\<rparr>, b\<lparr>timer_block := k\<rparr>))"

text \<open>
  \<^verbatim>\<open>AsyncHandler::get_proc_id\<close> and \<^verbatim>\<open>get_obj_id\<close> test the two conditions in the other order, so
  on the first call they compare two members that were never written; whatever they hold, the
  second condition then decides.
\<close>

definition root_take_id :: "id_cursor \<Rightarrow> u64 \<Rightarrow> u64 \<times> id_cursor \<times> u64" where
  "root_take_id c blk =
     (if cur_next c = cur_base c + 1000 \<or> \<not> cur_init c
      then (1000 * blk, \<lparr>cur_base = 1000 * blk, cur_next = 1000 * blk + 1, cur_init = True\<rparr>, blk + 1)
      else (cur_next c, c\<lparr>cur_next := cur_next c + 1\<rparr>, blk))"

definition root_get_proc_id :: "thread_ids \<Rightarrow> id_blocks \<Rightarrow> u64 \<times> thread_ids \<times> id_blocks" where
  "root_get_proc_id ti b =
     (let (i, c, k) = root_take_id (proc_cur ti) (proc_block b)
      in (i, ti\<lparr>proc_cur := c\<rparr>, b\<lparr>proc_block := k\<rparr>))"

definition root_get_obj_id :: "thread_ids \<Rightarrow> id_blocks \<Rightarrow> u64 \<times> thread_ids \<times> id_blocks" where
  "root_get_obj_id ti b =
     (let (i, c, k) = root_take_id (obj_cur ti) (obj_block b)
      in (i, ti\<lparr>obj_cur := c\<rparr>, b\<lparr>obj_block := k\<rparr>))"

lemma root_take_id_eq: "root_take_id = take_id"
  by (intro ext) (auto simp: root_take_id_def take_id_def)

section \<open>The interface\<close>

locale id_source =
  fixes draw :: "nat \<Rightarrow> 's \<Rightarrow> 'i \<times> 's"
    and inv :: "'s \<Rightarrow> bool"
    and issued :: "'s \<Rightarrow> 'i set"
    and room :: "'s \<Rightarrow> nat"
    and drawers :: "'s \<Rightarrow> nat set"
    and null :: 'i
  assumes draw_fresh: "inv s \<Longrightarrow> 0 < room s \<Longrightarrow> t \<in> drawers s \<Longrightarrow> draw t s = (i, s') \<Longrightarrow>
      i \<notin> issued s \<and> issued s' = insert i (issued s) \<and> inv s' \<and> room s \<le> Suc (room s') \<and>
      drawers s' = drawers s"
    and null_fresh: "inv s \<Longrightarrow> null \<notin> issued s"
begin

text \<open>A run of draws, one per thread number of the schedule.\<close>

primrec draws :: "nat list \<Rightarrow> 's \<Rightarrow> 'i list" where
  "draws [] s = []"
| "draws (t # ts) s = (let (i, s') = draw t s in i # draws ts s')"

lemma draws_distinct:
  "inv s \<Longrightarrow> length ts \<le> room s \<Longrightarrow> set ts \<subseteq> drawers s \<Longrightarrow>
     distinct (draws ts s) \<and> set (draws ts s) \<inter> issued s = {} \<and> null \<notin> set (draws ts s)"
proof (induction ts arbitrary: s)
  case Nil
  then show ?case by simp
next
  case (Cons t ts)
  obtain i s' where d: "draw t s = (i, s')" by fastforce
  from draw_fresh [OF Cons.prems(1) _ _ d] Cons.prems have
    *: "i \<notin> issued s" "issued s' = insert i (issued s)" "inv s'" "room s \<le> Suc (room s')"
      "drawers s' = drawers s" by auto
  from Cons.IH [OF *(3)] *(4,5) Cons.prems
  have "distinct (draws ts s') \<and> set (draws ts s') \<inter> issued s' = {} \<and> null \<notin> set (draws ts s')"
    by simp
  moreover have "i \<noteq> null" using null_fresh [OF *(3)] *(2) by auto
  ultimately show ?case using d * by auto
qed

end

section \<open>All threads together\<close>

text \<open>
  The cursors of all drawers of one kind of id (the threads and the root handler), the shared
  counter, and the ids issued so far (the last is not in the program; it only records history).
\<close>

record id_pool =
  cursors :: "id_cursor list"
  counter :: u64
  history :: "u64 set"

definition pool_draw :: "nat \<Rightarrow> id_pool \<Rightarrow> u64 \<times> id_pool" where
  "pool_draw t s =
     (let (i, c, k) = take_id (cursors s ! t) (counter s)
      in (i, \<lparr>cursors = (cursors s)[t := c], counter = k, history = insert i (history s)\<rparr>))"

definition init_pool :: "nat \<Rightarrow> id_pool" where
  "init_pool n = \<lparr>cursors = replicate n init_cursor, counter = 0, history = {}\<rparr>"

text \<open>The number of blocks of 1000 ids that fit below \<open>2 ^ 64\<close>.\<close>

definition max_blocks :: nat where
  "max_blocks = 18446744073709551"

definition cursor_ok :: "u64 \<Rightarrow> u64 set \<Rightarrow> id_cursor \<Rightarrow> bool" where
  "cursor_ok blk hist c \<longleftrightarrow>
     (cur_init c \<longrightarrow>
        unat (cur_base c) \<le> unat (cur_next c) \<and> unat (cur_next c) \<le> unat (cur_base c) + 1000 \<and>
        unat (cur_base c) + 1000 \<le> 1000 * unat blk \<and>
        (\<forall>i \<in> hist. unat i < unat (cur_next c) \<or> unat (cur_base c) + 1000 \<le> unat i))"

definition cursors_apart :: "id_cursor \<Rightarrow> id_cursor \<Rightarrow> bool" where
  "cursors_apart c d \<longleftrightarrow>
     (cur_init c \<longrightarrow> cur_init d \<longrightarrow>
        unat (cur_base c) + 1000 \<le> unat (cur_base d) \<or> unat (cur_base d) + 1000 \<le> unat (cur_base c))"

definition pool_inv :: "id_pool \<Rightarrow> bool" where
  "pool_inv s \<longleftrightarrow>
     unat (counter s) \<le> max_blocks \<and>
     (\<forall>i \<in> history s. unat i < 1000 * unat (counter s)) \<and>
     (\<forall>t < length (cursors s). cursor_ok (counter s) (history s) (cursors s ! t)) \<and>
     (\<forall>t < length (cursors s). \<forall>u < length (cursors s). t \<noteq> u \<longrightarrow>
        cursors_apart (cursors s ! t) (cursors s ! u))"

definition pool_room :: "id_pool \<Rightarrow> nat" where
  "pool_room s = max_blocks - unat (counter s)"

lemma unat_1000_mult: "unat (b :: u64) \<le> max_blocks \<Longrightarrow> unat (1000 * b) = 1000 * unat b"
  by (subst unat_mult_lem [THEN iffD1]) (simp_all add: max_blocks_def)

lemma unat_add_small: "unat (x :: u64) + unat y < 2 ^ 64 \<Longrightarrow> unat (x + y) = unat x + unat y"
  by (rule unat_add_lem [THEN iffD1]) simp

lemma take_id_new:
  assumes "\<not> cur_init c \<or> cur_next c = cur_base c + 1000" "unat blk < max_blocks"
    and "take_id c blk = (i, c', blk')"
  shows "unat i = 1000 * unat blk" "cur_base c' = i" "unat (cur_next c') = 1000 * unat blk + 1"
    "cur_init c'" "unat blk' = Suc (unat blk)"
proof -
  have eq: "i = 1000 * blk" "c' = \<lparr>cur_base = i, cur_next = i + 1, cur_init = True\<rparr>" "blk' = blk + 1"
    using assms by (auto simp: take_id_def)
  show i: "unat i = 1000 * unat blk" unfolding eq(1) by (rule unat_1000_mult) (use assms in simp)
  show "cur_base c' = i" "cur_init c'" using eq by simp_all
  have "unat (i + 1) = unat i + unat (1 :: u64)"
    by (rule unat_add_small) (use i assms(2) in \<open>simp add: max_blocks_def\<close>)
  then show "unat (cur_next c') = 1000 * unat blk + 1" using i eq(2) by simp
  have "unat (blk + 1) = unat blk + unat (1 :: u64)"
    by (rule unat_add_small) (use assms(2) in \<open>simp add: max_blocks_def\<close>)
  then show "unat blk' = Suc (unat blk)" using eq(3) by simp
qed

lemma unat_numeral_1000: "unat (1000 :: u64) = 1000"
  by simp

lemma take_id_old:
  assumes "cur_init c" "cur_next c \<noteq> cur_base c + 1000" "cursor_ok blk hist c" "unat blk \<le> max_blocks"
    and "take_id c blk = (i, c', blk')"
  shows "i = cur_next c" "cur_base c' = cur_base c" "unat (cur_next c') = Suc (unat (cur_next c))"
    "cur_init c'" "blk' = blk" "unat (cur_next c) < unat (cur_base c) + 1000"
proof -
  have eq: "i = cur_next c" "c' = c\<lparr>cur_next := i + 1\<rparr>" "blk' = blk"
    using assms by (auto simp: take_id_def)
  have b: "unat (cur_base c) + 1000 \<le> 1000 * max_blocks"
      "unat (cur_next c) \<le> unat (cur_base c) + 1000"
    using assms(1,3,4) by (auto simp: cursor_ok_def)
  have "unat (cur_base c + 1000) = unat (cur_base c) + unat (1000 :: u64)"
    by (rule unat_add_small) (use b in \<open>simp add: max_blocks_def\<close>)
  then have "unat (cur_next c) \<noteq> unat (cur_base c) + 1000"
    using assms(2) by (metis unat_numeral_1000 word_unat_eq_iff)
  then show lt: "unat (cur_next c) < unat (cur_base c) + 1000" using b(2) by simp
  have "unat (i + 1) = unat i + unat (1 :: u64)"
    by (rule unat_add_small) (use b lt eq(1) in \<open>simp add: max_blocks_def\<close>)
  then show "unat (cur_next c') = Suc (unat (cur_next c))" using eq by simp
  show "i = cur_next c" "cur_base c' = cur_base c" "cur_init c'" "blk' = blk"
    using eq assms(1) by simp_all
qed

text \<open>One draw: the id is new, and the pool stays well formed.\<close>

lemma cursor_ok_advance:
  assumes "cursor_ok blk hist c" "unat blk \<le> unat blk'"
    and "cur_init c \<Longrightarrow> unat i < unat (cur_next c) \<or> unat (cur_base c) + 1000 \<le> unat i"
  shows "cursor_ok blk' (insert i hist) c"
  using assms by (auto simp: cursor_ok_def)

lemma pool_inv_update:
  assumes inv: "pool_inv s" and t: "t < length (cursors s)"
    and blk: "unat (counter s) \<le> unat blk'" "unat blk' \<le> max_blocks"
    and i: "unat i < 1000 * unat blk'"
    and own: "cursor_ok blk' (insert i (history s)) c'"
    and oth: "\<And>u. u < length (cursors s) \<Longrightarrow> u \<noteq> t \<Longrightarrow> cur_init (cursors s ! u) \<Longrightarrow>
        unat i < unat (cur_next (cursors s ! u)) \<or> unat (cur_base (cursors s ! u)) + 1000 \<le> unat i"
    and apart: "\<And>u. u < length (cursors s) \<Longrightarrow> u \<noteq> t \<Longrightarrow>
        cursors_apart c' (cursors s ! u) \<and> cursors_apart (cursors s ! u) c'"
  shows "pool_inv \<lparr>cursors = (cursors s)[t := c'], counter = blk', history = insert i (history s)\<rparr>"
  unfolding pool_inv_def
proof (intro conjI allI ballI impI, goal_cases)
  case 1
  then show ?case using blk by simp
next
  case (2 j)
  then show ?case using inv blk i by (fastforce simp: pool_inv_def)
next
  case (3 u)
  then show ?case
    using inv own oth [of u] blk cursor_ok_advance [of "counter s" "history s" "cursors s ! u" blk' i]
    by (cases "u = t") (auto simp: pool_inv_def)
next
  case (4 u v)
  then show ?case
    using inv apart [of u] apart [of v]
    by (cases "u = t"; cases "v = t") (simp_all add: pool_inv_def)
qed

lemma pool_draw_fresh:
  assumes inv: "pool_inv s" and room: "0 < pool_room s" and t: "t < length (cursors s)"
    and d: "pool_draw t s = (i, s')"
  shows "i \<notin> history s \<and> history s' = insert i (history s) \<and> pool_inv s' \<and>
    pool_room s \<le> Suc (pool_room s') \<and> length (cursors s') = length (cursors s)"
proof -
  let ?c = "cursors s ! t"
  obtain c' blk' where tk: "take_id ?c (counter s) = (i, c', blk')"
    and s': "s' = \<lparr>cursors = (cursors s)[t := c'], counter = blk', history = insert i (history s)\<rparr>"
    using d by (auto simp: pool_draw_def split: prod.splits)
  have blk: "unat (counter s) < max_blocks" using room by (simp add: pool_room_def)
  have ok: "cursor_ok (counter s) (history s) (cursors s ! u)" if "u < length (cursors s)" for u
    using inv that by (simp add: pool_inv_def)
  have hist: "\<forall>j \<in> history s. unat j < 1000 * unat (counter s)" using inv by (simp add: pool_inv_def)
  show ?thesis
  proof (cases "\<not> cur_init ?c \<or> cur_next ?c = cur_base ?c + 1000")
    case True
    note n = take_id_new [OF True blk tk]
    have "pool_inv s'" unfolding s'
    proof (rule pool_inv_update [OF inv t])
      show "cursor_ok blk' (insert i (history s)) c'"
        using n hist by (fastforce simp: cursor_ok_def)
      show "unat i < unat (cur_next (cursors s ! u)) \<or> unat (cur_base (cursors s ! u)) + 1000 \<le> unat i"
        if "u < length (cursors s)" "cur_init (cursors s ! u)" for u
        using ok [OF that(1)] that(2) n by (auto simp: cursor_ok_def)
      show "cursors_apart c' (cursors s ! u) \<and> cursors_apart (cursors s ! u) c'"
        if "u < length (cursors s)" for u
        using ok [OF that] n by (auto simp: cursor_ok_def cursors_apart_def)
    qed (use n blk in simp_all)
    then show ?thesis using n hist s' by (fastforce simp: pool_room_def)
  next
    case False
    then have old: "cur_init ?c" "cur_next ?c \<noteq> cur_base ?c + 1000" by simp_all
    note n = take_id_old [OF old ok [OF t] less_imp_le [OF blk] tk]
    have base: "unat (cur_base ?c) + 1000 \<le> 1000 * unat (counter s)"
      and own: "\<forall>j \<in> history s. unat j < unat (cur_next ?c) \<or> unat (cur_base ?c) + 1000 \<le> unat j"
      and le: "unat (cur_base ?c) \<le> unat (cur_next ?c)"
      using ok [OF t] old by (auto simp: cursor_ok_def)
    have ap: "cursors_apart ?c (cursors s ! u)" if "u < length (cursors s)" "u \<noteq> t" for u
      using inv t that unfolding pool_inv_def by blast
    have "pool_inv s'" unfolding s'
    proof (rule pool_inv_update [OF inv t])
      show "cursor_ok blk' (insert i (history s)) c'"
        using n base own le by (auto simp: cursor_ok_def less_Suc_eq)
      show "unat i < unat (cur_next (cursors s ! u)) \<or> unat (cur_base (cursors s ! u)) + 1000 \<le> unat i"
        if "u < length (cursors s)" "u \<noteq> t" "cur_init (cursors s ! u)" for u
        using ok [OF that(1)] ap [OF that(1,2)] that(3) n le old by (auto simp: cursor_ok_def cursors_apart_def)
      show "cursors_apart c' (cursors s ! u) \<and> cursors_apart (cursors s ! u) c'"
        if "u < length (cursors s)" "u \<noteq> t" for u
        using ap [OF that] n old by (auto simp: cursors_apart_def)
    qed (use n base blk in simp_all)
    moreover have "i \<notin> history s" using own n by auto
    ultimately show ?thesis using n s' by (simp add: pool_room_def)
  qed
qed

interpretation pool: id_source pool_draw pool_inv history pool_room "\<lambda>s. {t. t < length (cursors s)}" no_id
proof unfold_locales
  fix s t i s'
  assume "pool_inv s" "0 < pool_room s" "t \<in> {t. t < length (cursors s)}" "pool_draw t s = (i, s')"
  then show "i \<notin> history s \<and> history s' = insert i (history s) \<and> pool_inv s' \<and>
      pool_room s \<le> Suc (pool_room s') \<and>
      {t. t < length (cursors s')} = {t. t < length (cursors s)}"
    using pool_draw_fresh [of s t i s'] by simp
next
  fix s assume inv: "pool_inv s"
  show "no_id \<notin> history s"
  proof
    assume "no_id \<in> history s"
    then have "unat no_id < 1000 * max_blocks" using inv by (fastforce simp: pool_inv_def)
    then show False by (simp add: no_id_def max_blocks_def unsigned_minus_1_eq_mask mask_eq_exp_minus_1)
  qed
qed

lemma init_pool_inv [simp]: "pool_inv (init_pool n)"
  by (simp add: pool_inv_def init_pool_def max_blocks_def cursor_ok_def cursors_apart_def init_cursor_def)

section \<open>The program's ids\<close>

text \<open>The threads, the root handler and the shared counters; drawer \<open>length (sys_threads s)\<close> is
  the handler.\<close>

record id_system =
  sys_threads :: "thread_ids list"
  sys_root :: thread_ids
  sys_blocks :: id_blocks

definition init_id_system :: "nat \<Rightarrow> id_system" where
  "init_id_system n = \<lparr>sys_threads = replicate n init_thread_ids, sys_root = init_thread_ids,
                       sys_blocks = init_blocks\<rparr>"

definition draw_proc_id :: "nat \<Rightarrow> id_system \<Rightarrow> u64 \<times> id_system" where
  "draw_proc_id t s =
     (if t < length (sys_threads s)
      then let (i, ti, b) = get_proc_id (sys_threads s ! t) (sys_blocks s)
           in (i, s\<lparr>sys_threads := (sys_threads s)[t := ti], sys_blocks := b\<rparr>)
      else let (i, ti, b) = root_get_proc_id (sys_root s) (sys_blocks s)
           in (i, s\<lparr>sys_root := ti, sys_blocks := b\<rparr>))"

definition draw_obj_id :: "nat \<Rightarrow> id_system \<Rightarrow> u64 \<times> id_system" where
  "draw_obj_id t s =
     (if t < length (sys_threads s)
      then let (i, ti, b) = get_obj_id (sys_threads s ! t) (sys_blocks s)
           in (i, s\<lparr>sys_threads := (sys_threads s)[t := ti], sys_blocks := b\<rparr>)
      else let (i, ti, b) = root_get_obj_id (sys_root s) (sys_blocks s)
           in (i, s\<lparr>sys_root := ti, sys_blocks := b\<rparr>))"

text \<open>The ids a schedule of calls yields.\<close>

primrec run_draws :: "(nat \<Rightarrow> 's \<Rightarrow> u64 \<times> 's) \<Rightarrow> nat list \<Rightarrow> 's \<Rightarrow> u64 list" where
  "run_draws draw [] s = []"
| "run_draws draw (t # ts) s = fst (draw t s) # run_draws draw ts (snd (draw t s))"

definition proc_view :: "id_system \<Rightarrow> u64 set \<Rightarrow> id_pool" where
  "proc_view s h = \<lparr>cursors = map proc_cur (sys_threads s) @ [proc_cur (sys_root s)],
                    counter = proc_block (sys_blocks s), history = h\<rparr>"

definition obj_view :: "id_system \<Rightarrow> u64 set \<Rightarrow> id_pool" where
  "obj_view s h = \<lparr>cursors = map obj_cur (sys_threads s) @ [obj_cur (sys_root s)],
                   counter = obj_block (sys_blocks s), history = h\<rparr>"

lemma proc_view_draw:
  assumes "t \<le> length (sys_threads s)"
  shows "pool_draw t (proc_view s h) =
    (fst (draw_proc_id t s), proc_view (snd (draw_proc_id t s)) (insert (fst (draw_proc_id t s)) h))"
  using assms
  by (cases "t < length (sys_threads s)")
    (auto simp: pool_draw_def proc_view_def draw_proc_id_def get_proc_id_def root_get_proc_id_def
      root_take_id_eq nth_append map_update list_update_append split: prod.split)

lemma obj_view_draw:
  assumes "t \<le> length (sys_threads s)"
  shows "pool_draw t (obj_view s h) =
    (fst (draw_obj_id t s), obj_view (snd (draw_obj_id t s)) (insert (fst (draw_obj_id t s)) h))"
  using assms
  by (cases "t < length (sys_threads s)")
    (auto simp: pool_draw_def obj_view_def draw_obj_id_def get_obj_id_def root_get_obj_id_def
      root_take_id_eq nth_append map_update list_update_append split: prod.split)

lemma length_draw [simp]:
  "length (sys_threads (snd (draw_proc_id t s))) = length (sys_threads s)"
  "length (sys_threads (snd (draw_obj_id t s))) = length (sys_threads s)"
  by (auto simp: draw_proc_id_def draw_obj_id_def split: prod.split)

lemma run_draws_proc:
  "\<forall>t \<in> set ts. t \<le> length (sys_threads s) \<Longrightarrow>
     run_draws draw_proc_id ts s = pool.draws ts (proc_view s h)"
  by (induction ts arbitrary: s h) (simp_all add: proc_view_draw)

lemma run_draws_obj:
  "\<forall>t \<in> set ts. t \<le> length (sys_threads s) \<Longrightarrow>
     run_draws draw_obj_id ts s = pool.draws ts (obj_view s h)"
  by (induction ts arbitrary: s h) (simp_all add: obj_view_draw)

lemma init_views:
  "proc_view (init_id_system n) {} = init_pool (Suc n)"
  "obj_view (init_id_system n) {} = init_pool (Suc n)"
  by (simp_all add: proc_view_def obj_view_def init_id_system_def init_pool_def init_thread_ids_def
      init_blocks_def replicate_append_same)

lemma init_pool_draws:
  assumes "length ts \<le> max_blocks" "\<forall>t \<in> set ts. t \<le> n"
  shows "distinct (pool.draws ts (init_pool (Suc n))) \<and> no_id \<notin> set (pool.draws ts (init_pool (Suc n)))"
  using pool.draws_distinct [OF init_pool_inv, of ts "Suc n"] assms
  by (auto simp: pool_room_def init_pool_def less_Suc_eq_le)

text \<open>
  C24: Whatever the order in which the worker threads and the root handler draw procedure
  ids, no id is issued twice and the marker \<^verbatim>\<open>numeric_limits<uint64_t>::max()\<close> is never issued,
  for the first 18446744073709551 draws (after that the 64-bit block counter could wrap).
\<close>

theorem proc_ids_unique:
  assumes "length sched \<le> max_blocks" "\<forall>t \<in> set sched. t \<le> n"
  shows "distinct (run_draws draw_proc_id sched (init_id_system n)) \<and>
    no_id \<notin> set (run_draws draw_proc_id sched (init_id_system n))"
proof -
  have "\<forall>t \<in> set sched. t \<le> length (sys_threads (init_id_system n))"
    using assms(2) by (simp add: init_id_system_def)
  from run_draws_proc [OF this, of "{}"] init_pool_draws [OF assms] show ?thesis
    by (simp add: init_views)
qed

lemma proc_ids_unique_witness:
  "run_draws draw_proc_id [1, 0, 1, 2] (init_id_system 2) = [0, 1000, 1, 2000] \<and>
   distinct (run_draws draw_proc_id [1, 0, 1, 2] (init_id_system 2))"
proof -
  have "length [1, 0, 1, 2 :: nat] \<le> max_blocks" "\<forall>t \<in> set [1, 0, 1, 2 :: nat]. t \<le> 2"
    by (simp_all add: max_blocks_def)
  moreover have "run_draws draw_proc_id [1, 0, 1, 2] (init_id_system 2) = [0, 1000, 1, 2000]"
    by code_simp
  ultimately show ?thesis using proc_ids_unique by blast
qed

text \<open>The same for object ids.\<close>

theorem obj_ids_unique:
  assumes "length sched \<le> max_blocks" "\<forall>t \<in> set sched. t \<le> n"
  shows "distinct (run_draws draw_obj_id sched (init_id_system n)) \<and>
    no_id \<notin> set (run_draws draw_obj_id sched (init_id_system n))"
proof -
  have "\<forall>t \<in> set sched. t \<le> length (sys_threads (init_id_system n))"
    using assms(2) by (simp add: init_id_system_def)
  from run_draws_obj [OF this, of "{}"] init_pool_draws [OF assms] show ?thesis
    by (simp add: init_views)
qed

lemma obj_ids_unique_witness:
  "distinct (run_draws draw_obj_id [1, 1, 0, 2, 0] (init_id_system 2))"
proof -
  have "length [1, 1, 0, 2, 0 :: nat] \<le> max_blocks" "\<forall>t \<in> set [1, 1, 0, 2, 0 :: nat]. t \<le> 2"
    by (simp_all add: max_blocks_def)
  from obj_ids_unique [OF this] show ?thesis by blast
qed

end
