(* ===== verification/Event_Core.thy ===== *)
theory Event_Core
  imports Prelude
begin

text \<open>
  The base class \<^verbatim>\<open>Event\<close> (\<^verbatim>\<open>src/common/event.{h,cpp,t.cpp}\<close>) and the data types it shares with the
  scheduler (\<^verbatim>\<open>src/common/defs.h\<close>, \<^verbatim>\<open>src/common/async_thread_shared.h\<close>).

  A handler of an \<^verbatim>\<open>Event\<close> never acts on other objects directly: it queues constructions,
  calls, io_uring requests, timers, deletions and attachments in its own object, and names
  children by their class and slot and its calls by local ids.  The scheduler turns the queues
  into messages afterwards and fills the translation tables between local and global ids.

  Type variables: \<open>'t\<close> is \<^verbatim>\<open>type_index\<close> (the classes), \<open>'k\<close> the captured constructor arguments and
  \<open>'f\<close> the captured member calls, i.e. the closures that \<^verbatim>\<open>i<Obj>(args)\<close> and \<^verbatim>\<open>c(&Obj::fun, args)\<close>
  store.
\<close>

section \<open>Data types\<close>

definition ID_DEFAULT :: int where "ID_DEFAULT = 1"
definition ID_READ :: int where "ID_READ = 2"
definition ID_WRITE :: int where "ID_WRITE = 4"

definition OP_HINT_NETWORK :: u32 where "OP_HINT_NETWORK = 2"
definition OP_HINT_READ :: u32 where "OP_HINT_READ = 16"
definition OP_HINT_WRITE :: u32 where "OP_HINT_WRITE = 32"

lemmas request_ids = ID_DEFAULT_def ID_READ_def ID_WRITE_def

datatype call_status = Degraded | Failed | Running | Finished | Stopped

datatype 't event_type =
    CallStarted (procedure_id: u64) (call_type: 't) (obj_idx: nat)
  | Timeout (timer_id: u64)
  | IoUringResult (calling_id: u64) (op: int) (res: int)
  | Wakeup (wake_id: u64)
  | ChildTaskCompletion (caller_id: u64) (task_id: u64) (status: call_status) (return_code: int)

text \<open>\<^verbatim>\<open>EventInfo\<close>: where a child object lives.  A \<^verbatim>\<open>weak_ptr<Event>\<close> is the id of the object
  it points to; it can be locked while the scheduler still holds that object.\<close>

record locator =
  object_id :: u64
  thread_id :: "int list"

record event_info =
  ev_locator :: "locator option"
  ev_event :: "u64 option"

text \<open>\<^verbatim>\<open>IoUringData\<close>.  Its \<^verbatim>\<open>awaiting_resolve\<close> is never used and its mutex guards one increment;
  both are left out.\<close>

record 't io_uring_data =
  sub_events :: "'t \<rightharpoonup> event_info option list"
  local_proc_id :: u64
  local_timer_id :: u64
  global_proc_to_local_proc :: "u64 \<rightharpoonup> u64"
  local_proc_to_global_proc :: "u64 \<rightharpoonup> u64"
  global_tim_to_local_tim :: "u64 \<rightharpoonup> u64"
  local_tim_to_global_tim :: "u64 \<rightharpoonup> u64"

definition empty_uring_data :: "'t io_uring_data" where
  "empty_uring_data =
     \<lparr>sub_events = Map.empty, local_proc_id = 0, local_timer_id = 0,
      global_proc_to_local_proc = Map.empty, local_proc_to_global_proc = Map.empty,
      global_tim_to_local_tim = Map.empty, local_tim_to_global_tim = Map.empty\<rparr>"

text \<open>The \<^verbatim>\<open>io_uring_prep_*\<close> calls the program queues through \<^verbatim>\<open>c(op, prep, args...)\<close>: descriptor,
  buffer address, length, flags.  \<open>Prep_accept\<close> names the address family slot (0 or 1) whose
  \<^verbatim>\<open>sockaddr\<close> buffer it fills.\<close>

datatype uring_prep =
    Prep_recv int nat u64 int
  | Prep_send int nat u64 int
  | Prep_read int nat u64
  | Prep_accept int int

record timespec =
  tv_sec :: int
  tv_nsec :: int

record ('t, 'k) queued_construct =
  qc_idx :: 't
  qc_vidx :: nat
  qc_fun :: 'k
  qc_shared :: bool

record ('t, 'f) queued_function =
  qf_idx :: 't
  qf_vidx :: nat
  qf_local_id :: u64
  qf_fun :: 'f

record queued_uring =
  qu_op :: int
  qu_prep :: uring_prep

record queued_timer =
  qt_local_id :: u64
  qt_time :: timespec

record queued_delete =
  qd_thread :: "int list"
  qd_obj_id :: u64

record ('t, 'k, 'f) event =
  uring_data :: "'t io_uring_data"
  construct_q :: "('t, 'k) queued_construct list"
  function_q :: "('t, 'f) queued_function list"
  uring_q :: "queued_uring list"
  timer_q :: "queued_timer list"
  delete_q :: "queued_delete list"
  attach_q :: "u64 list"

definition new_event :: "'t io_uring_data \<Rightarrow> ('t, 'k, 'f) event" where
  "new_event ud = \<lparr>uring_data = ud, construct_q = [], function_q = [], uring_q = [], timer_q = [],
                   delete_q = [], attach_q = []\<rparr>"

record call_response =
  description :: string
  success :: bool
  ret :: "(bool \<times> int) option"
  op_hint :: u32

section \<open>Operations\<close>

definition attach :: "u64 \<Rightarrow> ('t, 'k, 'f) event \<Rightarrow> ('t, 'k, 'f) event" where
  "attach i ev = ev\<lparr>attach_q := attach_q ev @ [i]\<rparr>"

definition timer :: "timespec \<Rightarrow> ('t, 'k, 'f) event \<Rightarrow> u64 \<times> ('t, 'k, 'f) event" where
  "timer ts ev =
     (let i = local_timer_id (uring_data ev) in
      (i, ev\<lparr>uring_data := (uring_data ev)\<lparr>local_timer_id := i + 1\<rparr>,
             timer_q := timer_q ev @ [\<lparr>qt_local_id = i, qt_time = ts\<rparr>]\<rparr>))"

definition cancel_timer :: "u64 \<Rightarrow> ('t, 'k, 'f) event \<Rightarrow> ('t, 'k, 'f) event" where
  "cancel_timer i ev =
     ev\<lparr>timer_q := timer_q ev @ [\<lparr>qt_local_id = i, qt_time = \<lparr>tv_sec = 0, tv_nsec = 0\<rparr>\<rparr>]\<rparr>"

text \<open>\<^verbatim>\<open>map_event_data\<close> reads the tables with \<^verbatim>\<open>operator[]\<close>: an unknown global id becomes local
  id 0, and the table gains that entry.\<close>

fun map_event_data ::
  "'t event_type \<Rightarrow> ('t, 'k, 'f) event \<Rightarrow> 't event_type \<times> ('t, 'k, 'f) event"
where
  "map_event_data (ChildTaskCompletion cid tid st rc) ev =
     (ChildTaskCompletion cid (map_at (global_proc_to_local_proc (uring_data ev)) 0 tid) st rc,
      ev\<lparr>uring_data := (uring_data ev)\<lparr>global_proc_to_local_proc :=
           map_touch (global_proc_to_local_proc (uring_data ev)) 0 tid\<rparr>\<rparr>)"
| "map_event_data (Timeout tid) ev =
     (Timeout (map_at (global_tim_to_local_tim (uring_data ev)) 0 tid),
      ev\<lparr>uring_data := (uring_data ev)\<lparr>global_tim_to_local_tim :=
           map_touch (global_tim_to_local_tim (uring_data ev)) 0 tid\<rparr>\<rparr>)"
| "map_event_data (CallStarted pid ty idx) ev =
     (CallStarted (map_at (global_proc_to_local_proc (uring_data ev)) 0 pid) ty idx,
      ev\<lparr>uring_data := (uring_data ev)\<lparr>global_proc_to_local_proc :=
           map_touch (global_proc_to_local_proc (uring_data ev)) 0 pid\<rparr>\<rparr>)"
| "map_event_data e ev = (e, ev)"

definition clear :: "('t, 'k, 'f) event \<Rightarrow> ('t, 'k, 'f) event" where
  "clear ev = ev\<lparr>construct_q := [], function_q := [], uring_q := [], timer_q := [],
                 delete_q := [], attach_q := []\<rparr>"

definition global_to_local :: "u64 \<Rightarrow> u64 \<Rightarrow> ('t, 'k, 'f) event \<Rightarrow> ('t, 'k, 'f) event" where
  "global_to_local g l ev =
     ev\<lparr>uring_data := (uring_data ev)
       \<lparr>global_proc_to_local_proc := (global_proc_to_local_proc (uring_data ev))(g \<mapsto> l),
        local_proc_to_global_proc := (local_proc_to_global_proc (uring_data ev))(l \<mapsto> g)\<rparr>\<rparr>"

definition global_to_local_tim :: "u64 \<Rightarrow> u64 \<Rightarrow> ('t, 'k, 'f) event \<Rightarrow> ('t, 'k, 'f) event" where
  "global_to_local_tim g l ev =
     ev\<lparr>uring_data := (uring_data ev)
       \<lparr>global_tim_to_local_tim := (global_tim_to_local_tim (uring_data ev))(g \<mapsto> l),
        local_tim_to_global_tim := (local_tim_to_global_tim (uring_data ev))(l \<mapsto> g)\<rparr>\<rparr>"

definition translate_proc_local :: "u64 \<Rightarrow> ('t, 'k, 'f) event \<Rightarrow> u64" where
  "translate_proc_local l ev = map_at (local_proc_to_global_proc (uring_data ev)) no_id l"

definition translate_proc_global :: "u64 \<Rightarrow> ('t, 'k, 'f) event \<Rightarrow> u64" where
  "translate_proc_global g ev = map_at (global_proc_to_local_proc (uring_data ev)) no_id g"

definition translate_tim_local :: "u64 \<Rightarrow> ('t, 'k, 'f) event \<Rightarrow> u64" where
  "translate_tim_local l ev = map_at (local_tim_to_global_tim (uring_data ev)) no_id l"

definition translate_tim_global :: "u64 \<Rightarrow> ('t, 'k, 'f) event \<Rightarrow> u64" where
  "translate_tim_global g ev = map_at (global_tim_to_local_tim (uring_data ev)) no_id g"

text \<open>The vector of slots of a class, read with \<^verbatim>\<open>operator[]\<close>.\<close>

definition slots :: "'t \<Rightarrow> ('t, 'k, 'f) event \<Rightarrow> event_info option list" where
  "slots ty ev = map_at (sub_events (uring_data ev)) [] ty"

definition set_slots ::
  "'t \<Rightarrow> event_info option list \<Rightarrow> ('t, 'k, 'f) event \<Rightarrow> ('t, 'k, 'f) event"
where
  "set_slots ty v ev = ev\<lparr>uring_data := (uring_data ev)
     \<lparr>sub_events := (sub_events (uring_data ev))(ty \<mapsto> v)\<rparr>\<rparr>"

text \<open>\<^verbatim>\<open>get_evinfo\<close>: the index is not checked.\<close>

definition get_evinfo :: "'t \<Rightarrow> nat \<Rightarrow> ('t, 'k, 'f) event \<Rightarrow> event_info option result" where
  "get_evinfo ty vi ev =
     (if vi < length (slots ty ev) then Inr (slots ty ev ! vi) else Inl Undefined_Behaviour)"

text \<open>\<^verbatim>\<open>c(idx, &Obj::fun, args...)\<close>\<close>

definition c_at :: "'t \<Rightarrow> nat \<Rightarrow> 'f \<Rightarrow> ('t, 'k, 'f) event \<Rightarrow> u64 \<times> ('t, 'k, 'f) event" where
  "c_at ty idx f ev =
     (let l = local_proc_id (uring_data ev) in
      (l, ev\<lparr>uring_data := (uring_data ev)\<lparr>local_proc_id := l + 1\<rparr>,
             function_q := function_q ev @
               [\<lparr>qf_idx = ty, qf_vidx = idx, qf_local_id = l, qf_fun = f\<rparr>]\<rparr>))"

text \<open>Position of the first entry with a property, or the length: \<^verbatim>\<open>find(...) - begin()\<close>.\<close>

fun index_where :: "('a \<Rightarrow> bool) \<Rightarrow> 'a list \<Rightarrow> nat" where
  "index_where P [] = 0"
| "index_where P (x # xs) = (if P x then 0 else Suc (index_where P xs))"

text \<open>\<^verbatim>\<open>c(&Obj::fun, args...)\<close>: the first live child of the class.\<close>

definition c_first ::
  "'t \<Rightarrow> 'f \<Rightarrow> ('t, 'k, 'f) event \<Rightarrow> (u64 \<times> ('t, 'k, 'f) event) result"
where
  "c_first ty f ev =
     (case sub_events (uring_data ev) ty of
        None \<Rightarrow> Inl Out_Of_Range
      | Some v \<Rightarrow>
          let k = index_where (\<lambda>e. e \<noteq> None) v in
          if k = length v then Inl (Runtime_Error ''No event for call found.'')
          else Inr (c_at ty k f ev))"

definition c_uring :: "int \<Rightarrow> uring_prep \<Rightarrow> ('t, 'k, 'f) event \<Rightarrow> ('t, 'k, 'f) event" where
  "c_uring o' p ev = ev\<lparr>uring_q := uring_q ev @ [\<lparr>qu_op = o', qu_prep = p\<rparr>]\<rparr>"

text \<open>\<^verbatim>\<open>construct<Obj>(shared, args...)\<close>, i.e. \<^verbatim>\<open>i\<close> and \<^verbatim>\<open>i_s\<close>: reuse the first empty slot or
  append one.\<close>

definition construct_ev ::
  "'t \<Rightarrow> bool \<Rightarrow> 'k \<Rightarrow> ('t, 'k, 'f) event \<Rightarrow> nat \<times> ('t, 'k, 'f) event"
where
  "construct_ev ty shared k ev =
     (let v = slots ty ev;
          loc = index_where (\<lambda>e. e = None) v;
          fresh = Some \<lparr>ev_locator = None, ev_event = None\<rparr>;
          v' = (if loc = length v then v @ [fresh] else v[loc := fresh]);
          ev' = set_slots ty v' ev
      in (loc, ev'\<lparr>construct_q := construct_q ev' @
                 [\<lparr>qc_idx = ty, qc_vidx = loc, qc_fun = k, qc_shared = shared\<rparr>]\<rparr>))"

text \<open>\<^verbatim>\<open>d<Obj>(idx)\<close>: \<^verbatim>\<open>at\<close> and \<^verbatim>\<open>value()\<close> throw; \<^verbatim>\<open>ev.locator->\<close> on an empty optional does not.\<close>

definition delete_child :: "'t \<Rightarrow> nat \<Rightarrow> ('t, 'k, 'f) event \<Rightarrow> ('t, 'k, 'f) event result" where
  "delete_child ty idx ev =
     (case sub_events (uring_data ev) ty of
        None \<Rightarrow> Inl Out_Of_Range
      | Some v \<Rightarrow>
          if length v \<le> idx then Inl Out_Of_Range
          else case v ! idx of
            None \<Rightarrow> Inl Bad_Optional_Access
          | Some info \<Rightarrow>
              (case ev_locator info of
                 None \<Rightarrow> Inl Undefined_Behaviour
               | Some l \<Rightarrow>
                   Inr (set_slots ty (v[idx := None])
                     (ev\<lparr>delete_q := delete_q ev @
                        [\<lparr>qd_thread = thread_id l, qd_obj_id = object_id l\<rparr>]\<rparr>))))"

text \<open>\<^verbatim>\<open>direct_access\<close> up to the locked pointer: the id of the child object, if it was constructed.\<close>

definition direct_ref :: "'t \<Rightarrow> nat \<Rightarrow> ('t, 'k, 'f) event \<Rightarrow> u64 option result" where
  "direct_ref ty idx ev =
     (case sub_events (uring_data ev) ty of
        None \<Rightarrow> Inl Out_Of_Range
      | Some v \<Rightarrow>
          if length v \<le> idx then Inl Out_Of_Range
          else case v ! idx of
            None \<Rightarrow> Inl Bad_Optional_Access
          | Some info \<Rightarrow> Inr (ev_event info))"

end
