(* ===== verification/Sched_State.thy ===== *)
theory Sched_State
  imports Event_Core Ids Complex_Main
begin

text \<open>
  The state of one worker thread: the messages of the work queues
  (\<^verbatim>\<open>src/common/async_thread_shared.h\<close>), the tables of \<^verbatim>\<open>ThreadData\<close>
  (\<^verbatim>\<open>src/common/thread_data.h\<close>, \<^verbatim>\<open>src/common/defs.h\<close>), the submission queue of its ring and
  the heap cells its pointers point to.

  Type variables as in \<open>Event_Core\<close>; \<open>'o\<close> is what a subclass of \<^verbatim>\<open>Event\<close> adds to its base.
\<close>

section \<open>Messages\<close>

record caller_info =
  ci_thread :: int
  ci_obj :: u64
  ci_proc :: u64

record target_info =
  ti_obj :: u64
  ti_proc :: u64

text \<open>The two closures a \<^verbatim>\<open>ConstructFunc\<close> is made from: \<^verbatim>\<open>initialize_root_event\<close> only constructs the
  object; \<^verbatim>\<open>Event::construct\<close> also stores a weak pointer to it in the parent's slot.\<close>

datatype ('t, 'k) construct_func =
    Root_Ctor 'k
  | Child_Ctor 'k (cf_parent: u64) (cf_class: 't) (cf_slot: nat)

text \<open>\<^verbatim>\<open>PerThread::EventVariant\<close>.  The context of a \<open>Constructor_Call\<close> is the address of the
  parent's \<^verbatim>\<open>IoUringData\<close> when the child shares it.\<close>

datatype ('t, 'k, 'f) message =
    Constructor_Call "('t, 'k) construct_func" caller_info target_info "nat option"
  | Function_Call 'f caller_info target_info
  | Delete_Msg caller_info target_info
  | Data_Msg caller_info target_info "'t event_type"
  | Root_Start "('t, 'k) construct_func" 'f target_info
  | Cqe_Ready u64 int

section \<open>Tables\<close>

record child_info =
  ch_thread :: int
  ch_procs :: "u64 list"

definition default_child :: child_info where
  "default_child = \<lparr>ch_thread = 0, ch_procs = []\<rparr>"

text \<open>\<^verbatim>\<open>ObjectDataThreaded\<close>.  The pointer is the id of the object it points to, \<^verbatim>\<open>None\<close> when null;
  \<^verbatim>\<open>children\<close> is an unordered map, kept here as an association list.\<close>

record object_data =
  od_ptr :: "u64 option"
  assoc_procs :: "u64 list"
  parents :: "(int \<times> u64) list"
  children :: "(u64 \<times> child_info) list"

definition default_object :: object_data where
  "default_object = \<lparr>od_ptr = None, assoc_procs = [], parents = [], children = []\<rparr>"

record call_data =
  assoc_obj :: u64
  cd_status :: call_status
  cd_description :: string
  cd_op_hint :: u32
  back_notify :: "int \<times> u64 \<times> u64"
  cd_return_code :: int

definition default_call :: call_data where
  "default_call = \<lparr>assoc_obj = 0, cd_status = Degraded, cd_description = [], cd_op_hint = 0,
                   back_notify = (0, 0, 0), cd_return_code = 0\<rparr>"

record timer_data =
  td_ptr :: nat
  td_obj :: u64
  td_ts :: timespec

text \<open>\<^verbatim>\<open>IoUringAttached\<close>, the user data of a request; it lives in a heap cell whose address is put
  in the request.\<close>

datatype attached_data =
    Event_Data int u64 u64
  | Timer_Data u64 u64 u64
  | Timer_Update u64 bool
  | Co_Event u64

text \<open>Timer requests point to the \<^verbatim>\<open>timespec\<close> cell that the timer table owns, named by the timer's id.\<close>

datatype sqe_op =
    Sq_prep uring_prep
  | Sq_timeout u64
  | Sq_timeout_remove nat
  | Sq_timeout_update u64 nat

record sqe =
  sq_op :: sqe_op
  sq_data :: nat

record waiter =
  wt_result :: nat
  wt_handle :: "nat option"

text \<open>\<^verbatim>\<open>io_uring_queue_init(512, ...)\<close>\<close>

definition SQ_SIZE :: nat where "SQ_SIZE = 512"

record ('t, 'k, 'f, 'o) world =
  self_thread :: int
  tids :: thread_ids
  blocks :: id_blocks
  queues :: "('t, 'k, 'f) message list list"
  loads :: "rat list"
  proc_to_dat :: "u64 \<rightharpoonup> call_data"
  obj_info :: "u64 \<rightharpoonup> object_data"
  timers :: "u64 \<rightharpoonup> timer_data"
  also_notify :: "u64 \<rightharpoonup> (u64 \<times> u64) list"
  readiness_waiters :: "u64 \<rightharpoonup> waiter"
  sqes :: "uring_prep list"
  sq :: "sqe list"
  in_flight :: "(sqe \<times> timespec option) list"
  attached :: "nat \<rightharpoonup> attached_data"
  next_attached :: nat
  ev_mem :: "u64 \<rightharpoonup> ('t, 'k, 'f) event \<times> nat"
  payloads :: "u64 \<rightharpoonup> 'o"
  ctxs :: "nat \<rightharpoonup> 't io_uring_data"
  next_ctx :: nat
  int_cells :: "nat \<rightharpoonup> int"
  resumed :: "nat list"

text \<open>The bodies of the program's classes, which the scheduler calls through \<^verbatim>\<open>std::function\<close> and
  virtual calls: constructor, member call, \<^verbatim>\<open>on_yield\<close>.  A body sees its own event, its object id
  and the payloads of all objects (\<^verbatim>\<open>direct_access\<close> reaches other objects; the singletons of the program
  are kept there too, under \<open>no_id\<close>).\<close>

record ('t, 'k, 'f, 'o) classes =
  cl_construct :: "'k \<Rightarrow> u64 \<Rightarrow> (u64 \<rightharpoonup> 'o) \<Rightarrow> ('t, 'k, 'f) event \<Rightarrow>
      ('o \<times> (u64 \<rightharpoonup> 'o) \<times> ('t, 'k, 'f) event) result"
  cl_invoke :: "'f \<Rightarrow> u64 \<Rightarrow> u64 \<Rightarrow> (u64 \<rightharpoonup> 'o) \<Rightarrow> ('t, 'k, 'f) event \<Rightarrow>
      (call_response \<times> (u64 \<rightharpoonup> 'o) \<times> ('t, 'k, 'f) event) result"
  cl_yield :: "'t event_type \<Rightarrow> u64 \<Rightarrow> (u64 \<rightharpoonup> 'o) \<Rightarrow> ('t, 'k, 'f) event \<Rightarrow>
      ((bool \<times> int) option \<times> (u64 \<rightharpoonup> 'o) \<times> ('t, 'k, 'f) event) result"

section \<open>Elementary accesses\<close>

text \<open>\<^verbatim>\<open>per_thread_data[t].q.push(m)\<close>: the index is not checked.\<close>

definition push_msg ::
  "int \<Rightarrow> ('t, 'k, 'f) message \<Rightarrow> ('t, 'k, 'f, 'o) world \<Rightarrow> ('t, 'k, 'f, 'o) world result"
where
  "push_msg t m w =
     (if 0 \<le> t \<and> t < int (length (queues w))
      then Inr (w\<lparr>queues := upd_at (nat t) (\<lambda>q. q @ [m]) (queues w)\<rparr>)
      else Inl Undefined_Behaviour)"

text \<open>\<^verbatim>\<open>obj_info[i]\<close> and \<^verbatim>\<open>proc_to_dat[p]\<close> insert a default entry.\<close>

definition touch_obj :: "u64 \<Rightarrow> ('t, 'k, 'f, 'o) world \<Rightarrow> ('t, 'k, 'f, 'o) world" where
  "touch_obj i w = w\<lparr>obj_info := map_touch (obj_info w) default_object i\<rparr>"

definition upd_obj ::
  "u64 \<Rightarrow> (object_data \<Rightarrow> object_data) \<Rightarrow> ('t, 'k, 'f, 'o) world \<Rightarrow> ('t, 'k, 'f, 'o) world"
where
  "upd_obj i f w = w\<lparr>obj_info := (obj_info w)(i \<mapsto> f (map_at (obj_info w) default_object i))\<rparr>"

definition upd_call ::
  "u64 \<Rightarrow> (call_data \<Rightarrow> call_data) \<Rightarrow> ('t, 'k, 'f, 'o) world \<Rightarrow> ('t, 'k, 'f, 'o) world"
where
  "upd_call p f w = w\<lparr>proc_to_dat := (proc_to_dat w)(p \<mapsto> f (map_at (proc_to_dat w) default_call p))\<rparr>"

text \<open>Reading and writing an object through its pointer.\<close>

definition load_event ::
  "u64 option \<Rightarrow> ('t, 'k, 'f, 'o) world \<Rightarrow> (u64 \<times> ('t, 'k, 'f) event) result"
where
  "load_event p w =
     (case p of None \<Rightarrow> Inl Undefined_Behaviour
      | Some i \<Rightarrow> (case ev_mem w i of None \<Rightarrow> Inl Undefined_Behaviour
          | Some (ev, c) \<Rightarrow> (case ctxs w c of None \<Rightarrow> Inl Undefined_Behaviour
              | Some ud \<Rightarrow> Inr (i, ev\<lparr>uring_data := ud\<rparr>))))"

definition store_event ::
  "u64 \<Rightarrow> ('t, 'k, 'f) event \<Rightarrow> ('t, 'k, 'f, 'o) world \<Rightarrow> ('t, 'k, 'f, 'o) world"
where
  "store_event i ev w =
     (case ev_mem w i of None \<Rightarrow> w
      | Some (_, c) \<Rightarrow> w\<lparr>ev_mem := (ev_mem w)(i \<mapsto> (ev, c)),
                        ctxs := (ctxs w)(c \<mapsto> uring_data ev)\<rparr>)"

definition new_attached ::
  "attached_data \<Rightarrow> ('t, 'k, 'f, 'o) world \<Rightarrow> nat \<times> ('t, 'k, 'f, 'o) world"
where
  "new_attached d w =
     (next_attached w, w\<lparr>attached := (attached w)(next_attached w \<mapsto> d),
                         next_attached := Suc (next_attached w)\<rparr>)"

text \<open>\<^verbatim>\<open>io_uring_get_sqe\<close> returns null when the submission queue is full.\<close>

definition sq_full :: "('t, 'k, 'f, 'o) world \<Rightarrow> bool" where
  "sq_full w \<longleftrightarrow> SQ_SIZE \<le> length (sq w)"

definition put_sqe :: "sqe_op \<Rightarrow> nat \<Rightarrow> ('t, 'k, 'f, 'o) world \<Rightarrow> ('t, 'k, 'f, 'o) world" where
  "put_sqe o' a w = w\<lparr>sq := sq w @ [\<lparr>sq_op = o', sq_data = a\<rparr>]\<rparr>"

definition draw_proc :: "('t, 'k, 'f, 'o) world \<Rightarrow> u64 \<times> ('t, 'k, 'f, 'o) world" where
  "draw_proc w = (let (i, t, b) = get_proc_id (tids w) (blocks w) in (i, w\<lparr>tids := t, blocks := b\<rparr>))"

definition draw_obj :: "('t, 'k, 'f, 'o) world \<Rightarrow> u64 \<times> ('t, 'k, 'f, 'o) world" where
  "draw_obj w = (let (i, t, b) = get_obj_id (tids w) (blocks w) in (i, w\<lparr>tids := t, blocks := b\<rparr>))"

definition draw_tim :: "('t, 'k, 'f, 'o) world \<Rightarrow> u64 \<times> ('t, 'k, 'f, 'o) world" where
  "draw_tim w = (let (i, t, b) = get_tim_id (tids w) (blocks w) in (i, w\<lparr>tids := t, blocks := b\<rparr>))"

text \<open>The thread state before its first message.\<close>

definition init_world :: "nat \<Rightarrow> int \<Rightarrow> ('t, 'k, 'f, 'o) world" where
  "init_world n t =
     \<lparr>self_thread = t, tids = init_thread_ids, blocks = init_blocks, queues = replicate n [],
      loads = replicate n 0, proc_to_dat = Map.empty, obj_info = Map.empty, timers = Map.empty,
      also_notify = Map.empty, readiness_waiters = Map.empty, sqes = [], sq = [], in_flight = [],
      attached = Map.empty, next_attached = 1, ev_mem = Map.empty, payloads = Map.empty,
      ctxs = Map.empty, next_ctx = 1, int_cells = Map.empty, resumed = []\<rparr>"

end
