(* ===== verification/Scheduler.thy ===== *)
theory Scheduler
  imports Sched_State
begin

text \<open>
  The scheduler of one worker thread, \<^verbatim>\<open>ThreadData\<close> (\<^verbatim>\<open>src/common/thread_data.cpp\<close>), and the part
  of \<^verbatim>\<open>AsyncHandler\<close> that starts root objects (\<^verbatim>\<open>src/common/async_handler.{cpp,t.cpp}\<close>): one
  function per member function, on the state of \<open>Sched_State\<close>.
\<close>

section \<open>Choosing a thread\<close>

text \<open>
  \<^verbatim>\<open>find_target_thread\<close>.  \<^verbatim>\<open>min_thread\<close> is not initialised (\<^verbatim>\<open>None\<close> below) and is returned like
  that when no candidate is found.  Loads are floats; the constants they are compared with are not
  floats and no float lies between them and the decimal fractions used here.
\<close>

fun scan_threads ::
  "int list \<Rightarrow> rat list \<Rightarrow> int \<Rightarrow> int option \<times> int \<times> rat \<Rightarrow> int option \<times> int \<times> rat"
where
  "scan_threads threads [] i acc = acc"
| "scan_threads threads (l # ls) i (min_thread, min_thread_0, min_amt) =
     scan_threads threads ls (i + 1)
       (if threads \<noteq> [] \<and> i \<notin> set threads then (min_thread, min_thread_0, min_amt)
        else if l < min_amt
          then if 1 / 50 < l then (Some i, min_thread_0, l) else (min_thread, i, min_amt)
          else (min_thread, min_thread_0, min_amt))"

definition find_target_thread :: "int list \<Rightarrow> ('t, 'k, 'f, 'o) world \<Rightarrow> int result" where
  "find_target_thread threads w =
     (if (threads = [] \<or> self_thread w \<in> set threads) \<and> loads w ! nat (self_thread w) < 4 / 5
      then Inr (self_thread w)
      else
        let (min_thread, min_thread_0, min_amt) = scan_threads threads (loads w) 0 (None, - 1, 1)
        in if 1 / 5 < min_amt \<and> min_thread_0 \<noteq> - 1 then Inr min_thread_0
           else case min_thread of None \<Rightarrow> Inl Undefined_Behaviour | Some t \<Rightarrow> Inr t)"

section \<open>Processing what a handler queued\<close>

text \<open>Each function treats one queue of the event \<open>ev\<close>, an object of procedure \<open>ti\<close>.\<close>

definition queued_construct_step ::
  "target_info \<Rightarrow> ('t, 'k) queued_construct \<times> nat option \<Rightarrow>
    ('t, 'k, 'f) event \<times> ('t, 'k, 'f, 'o) world \<Rightarrow> (('t, 'k, 'f) event \<times> ('t, 'k, 'f, 'o) world) result"
where
  "queued_construct_step ti = (\<lambda>(c, ctx) (ev, w).
     ebind (get_evinfo (qc_idx c) (qc_vidx c) ev) (\<lambda>info.
       case info of
         None \<Rightarrow> Inr (ev, w)
       | Some e \<Rightarrow>
           ebind (find_target_thread [] w) (\<lambda>run_thread.
             let (new_id, w1) = draw_obj w;
                 e' = e\<lparr>ev_locator := Some \<lparr>object_id = new_id, thread_id = [run_thread]\<rparr>\<rparr>;
                 ev' = set_slots (qc_idx c) ((slots (qc_idx c) ev)[qc_vidx c := Some e']) ev;
                 w2 = upd_obj (ti_obj ti) (\<lambda>d. d\<lparr>children := AList.update new_id default_child (children d)\<rparr>) w1;
                 m = Constructor_Call (Child_Ctor (qc_fun c) (ti_obj ti) (qc_idx c) (qc_vidx c))
                       \<lparr>ci_thread = run_thread, ci_obj = ti_obj ti, ci_proc = ti_proc ti\<rparr>
                       \<lparr>ti_obj = new_id, ti_proc = no_id\<rparr> ctx
             in ebind (push_msg (self_thread w) m w2) (\<lambda>w3. Inr (ev', w3)))))"

definition queued_function_step ::
  "target_info \<Rightarrow> ('t, 'f) queued_function \<Rightarrow>
    ('t, 'k, 'f) event \<times> ('t, 'k, 'f, 'o) world \<Rightarrow> (('t, 'k, 'f) event \<times> ('t, 'k, 'f, 'o) world) result"
where
  "queued_function_step ti = (\<lambda>f (ev, w).
     ebind (get_evinfo (qf_idx f) (qf_vidx f) ev) (\<lambda>info.
       case info of
         None \<Rightarrow> Inr (ev, w)
       | Some e \<Rightarrow>
           (case ev_locator e of
              None \<Rightarrow> Inl (Invalid_Argument ''Object was not initialized'')
            | Some loc \<Rightarrow>
                ebind (find_target_thread (thread_id loc) w) (\<lambda>target.
                  let (pid, w1) = draw_proc w;
                      w2 = upd_obj (ti_obj ti) (\<lambda>d. d\<lparr>children :=
                             AList.map_default (object_id loc) \<lparr>ch_thread = self_thread w, ch_procs = [pid]\<rparr>
                               (\<lambda>ch. \<lparr>ch_thread = self_thread w, ch_procs = List.insert pid (ch_procs ch)\<rparr>)
                               (children d)\<rparr>) w1;
                      m = Function_Call (qf_fun f)
                            \<lparr>ci_thread = self_thread w, ci_obj = ti_obj ti, ci_proc = ti_proc ti\<rparr>
                            \<lparr>ti_obj = object_id loc, ti_proc = pid\<rparr>
                  in ebind (push_msg target m w2) (\<lambda>w3.
                       Inr (global_to_local pid (qf_local_id f) ev, w3))))))"

text \<open>A full submission queue drops the request.\<close>

definition queued_uring_step ::
  "target_info \<Rightarrow> queued_uring \<Rightarrow> ('t, 'k, 'f, 'o) world \<Rightarrow> ('t, 'k, 'f, 'o) world"
where
  "queued_uring_step ti u w =
     (if sq_full w then w
      else let (a, w1) = new_attached (Event_Data (qu_op u) (ti_obj ti) (ti_proc ti)) w
           in put_sqe (Sq_prep (qu_prep u)) a w1)"

definition queued_timer_step ::
  "target_info \<Rightarrow> queued_timer \<Rightarrow>
    ('t, 'k, 'f) event \<times> ('t, 'k, 'f, 'o) world \<Rightarrow> (('t, 'k, 'f) event \<times> ('t, 'k, 'f, 'o) world) result"
where
  "queued_timer_step ti = (\<lambda>t (ev, w).
     let g = translate_tim_local (qt_local_id t) ev in
     case timers w g of
       Some td \<Rightarrow>
         if sq_full w then Inl Undefined_Behaviour
         else if tv_nsec (qt_time t) = 0 \<and> tv_sec (qt_time t) = 0
         then let (a, w1) = new_attached (Timer_Update g True) w
              in Inr (ev, put_sqe (Sq_timeout_remove (td_ptr td)) a w1)
         else let (a, w1) = new_attached (Timer_Update g False)
                     (w\<lparr>timers := (timers w)(g \<mapsto> td\<lparr>td_ts := qt_time t\<rparr>)\<rparr>)
              in Inr (ev, put_sqe (Sq_timeout_update g (td_ptr td)) a w1)
     | None \<Rightarrow>
         let (i, w1) = draw_tim w;
             ev' = global_to_local_tim i (qt_local_id t) ev
         in if sq_full w then Inl Undefined_Behaviour
            else let (a, w2) = new_attached (Timer_Data i (ti_obj ti) (ti_proc ti)) w1;
                     w3 = w2\<lparr>timers := (timers w2)(i \<mapsto> \<lparr>td_ptr = a, td_obj = ti_obj ti, td_ts = qt_time t\<rparr>)\<rparr>
                 in Inr (ev', put_sqe (Sq_timeout i) a w3))"

definition queued_delete_step ::
  "target_info \<Rightarrow> queued_delete \<Rightarrow> ('t, 'k, 'f, 'o) world \<Rightarrow> ('t, 'k, 'f, 'o) world result"
where
  "queued_delete_step ti d w =
     ebind (efold (\<lambda>i. push_msg i (Delete_Msg
              \<lparr>ci_thread = self_thread w, ci_obj = ti_obj ti, ci_proc = ti_proc ti\<rparr>
              \<lparr>ti_obj = qd_obj_id d, ti_proc = no_id\<rparr>)) (qd_thread d) w)
       (\<lambda>w'. Inr (upd_obj (ti_obj ti) (\<lambda>o'. o'\<lparr>children := AList.delete (qd_obj_id d) (children o')\<rparr>) w'))"

definition queued_attach_step ::
  "target_info \<Rightarrow> ('t, 'k, 'f) event \<Rightarrow> u64 \<Rightarrow> ('t, 'k, 'f, 'o) world \<Rightarrow> ('t, 'k, 'f, 'o) world"
where
  "queued_attach_step ti ev l w =
     (let p = translate_proc_local l ev in
      w\<lparr>also_notify := (also_notify w)(p \<mapsto>
          map_at (also_notify w) [] p @ [(ti_obj ti, ti_proc ti)])\<rparr>)"

definition process_queued_construct where
  "process_queued_construct ti ctx = (\<lambda>(ev, w).
     efold (queued_construct_step ti)
       (map (\<lambda>c. (c, if qc_shared c then Some ctx else None)) (construct_q ev)) (ev, w))"

definition process_queued_function where
  "process_queued_function ti = (\<lambda>(ev, w). efold (queued_function_step ti) (function_q ev) (ev, w))"

definition process_queued_uring where
  "process_queued_uring ti = (\<lambda>(ev, w). (ev, fold (queued_uring_step ti) (uring_q ev) w))"

definition process_queued_timers where
  "process_queued_timers ti = (\<lambda>(ev, w). efold (queued_timer_step ti) (timer_q ev) (ev, w))"

definition process_queued_delete where
  "process_queued_delete ti = (\<lambda>(ev, w).
     ebind (efold (queued_delete_step ti) (delete_q ev) w) (\<lambda>w'. Inr (ev, w')))"

definition process_queued_attach where
  "process_queued_attach ti = (\<lambda>(ev, w). (ev, fold (queued_attach_step ti ev) (attach_q ev) w))"

definition process_queued_event ::
  "target_info \<Rightarrow> nat \<Rightarrow> ('t, 'k, 'f) event \<times> ('t, 'k, 'f, 'o) world \<Rightarrow>
    (('t, 'k, 'f) event \<times> ('t, 'k, 'f, 'o) world) result"
where
  "process_queued_event ti ctx s =
     ebind (process_queued_construct ti ctx s) (\<lambda>s.
     ebind (process_queued_function ti s) (\<lambda>s.
     ebind (process_queued_timers ti (process_queued_uring ti s)) (\<lambda>s.
     ebind (process_queued_delete ti s) (\<lambda>s.
     case process_queued_attach ti s of (ev, w) \<Rightarrow> Inr (clear ev, w)))))"

text \<open>\<^verbatim>\<open>process_queued(ptr, ti)\<close> on the object \<open>ptr\<close> points to.\<close>

definition process_queued ::
  "u64 option \<Rightarrow> target_info \<Rightarrow> ('t, 'k, 'f, 'o) world \<Rightarrow> ('t, 'k, 'f, 'o) world result"
where
  "process_queued p ti w =
     ebind (load_event p w) (\<lambda>(i, ev).
       ebind (process_queued_event ti (snd (the (ev_mem w i))) (ev, w)) (\<lambda>(ev', w').
         Inr (store_event i ev' w')))"

section \<open>Handling messages\<close>

text \<open>
  A \<^verbatim>\<open>ConstructFunc\<close>: \<^verbatim>\<open>Event::event_init\<close> takes over the thread-local context when the message
  carried one and makes a fresh one otherwise; then the constructor body runs; then the parent's
  slot gets the weak pointer (through the captured \<^verbatim>\<open>this\<close> of the parent, and without a test that
  the slot is still occupied).
\<close>

definition event_init ::
  "nat option \<Rightarrow> ('t, 'k, 'f, 'o) world \<Rightarrow> (nat \<times> 't io_uring_data \<times> ('t, 'k, 'f, 'o) world) result"
where
  "event_init context w =
     (case context of
        Some c \<Rightarrow> (case ctxs w c of None \<Rightarrow> Inl Undefined_Behaviour | Some ud \<Rightarrow> Inr (c, ud, w))
      | None \<Rightarrow> Inr (next_ctx w, empty_uring_data,
                     w\<lparr>ctxs := (ctxs w)(next_ctx w \<mapsto> empty_uring_data), next_ctx := Suc (next_ctx w)\<rparr>))"

fun ctor_closure :: "('t, 'k) construct_func \<Rightarrow> 'k" where
  "ctor_closure (Root_Ctor k) = k"
| "ctor_closure (Child_Ctor k _ _ _) = k"

fun register_child ::
  "('t, 'k) construct_func \<Rightarrow> u64 \<Rightarrow> ('t, 'k, 'f, 'o) world \<Rightarrow> ('t, 'k, 'f, 'o) world result"
where
  "register_child (Root_Ctor k) i w = Inr w"
| "register_child (Child_Ctor k parent ty loc) i w =
     ebind (load_event (Some parent) w) (\<lambda>(_, ev).
       ebind (get_evinfo ty loc ev) (\<lambda>slot.
         case slot of
           None \<Rightarrow> Inl Undefined_Behaviour
         | Some info \<Rightarrow>
             let ev' = set_slots ty ((slots ty ev)[loc := Some (info\<lparr>ev_event := Some i\<rparr>)]) ev
             in Inr (w\<lparr>ctxs := (ctxs w)(snd (the (ev_mem w parent)) \<mapsto> uring_data ev')\<rparr>)))"

definition construct_call ::
  "('t, 'k, 'f, 'o) classes \<Rightarrow> ('t, 'k) construct_func \<Rightarrow> caller_info \<Rightarrow> target_info \<Rightarrow> nat option \<Rightarrow>
    ('t, 'k, 'f, 'o) world \<Rightarrow> ('t, 'k, 'f, 'o) world result"
where
  "construct_call cl cf ci ti context w =
     ebind (event_init context w) (\<lambda>(c, ud, w1).
     ebind (cl_construct cl (ctor_closure cf) (ti_obj ti) (payloads w1) (new_event ud)) (\<lambda>(o', os, ev).
     ebind (register_child cf (ti_obj ti)
              (w1\<lparr>payloads := os, ctxs := (ctxs w1)(c \<mapsto> uring_data ev)\<rparr>)) (\<lambda>w2.
       let w3 = (if obj_info w2 (ti_obj ti) \<noteq> None then w2
                 else w2\<lparr>ev_mem := (ev_mem w2)(ti_obj ti \<mapsto> (ev, c)),
                         payloads := (payloads w2)(ti_obj ti \<mapsto> o'),
                         obj_info := (obj_info w2)(ti_obj ti \<mapsto>
                           \<lparr>od_ptr = Some (ti_obj ti), assoc_procs = [],
                            parents = [(ci_thread ci, ci_obj ci)], children = []\<rparr>)\<rparr>)
       in process_queued (od_ptr (map_at (obj_info w3) default_object (ti_obj ti))) ti
            (touch_obj (ti_obj ti) w3))))"

text \<open>\<^verbatim>\<open>func.call(ptr, id)\<close> and \<^verbatim>\<open>ptr->on_yield(data)\<close>: run the body on the object and store what it leaves.\<close>

definition run_body ::
  "(u64 \<Rightarrow> (u64 \<rightharpoonup> 'o) \<Rightarrow> ('t, 'k, 'f) event \<Rightarrow> ('r \<times> (u64 \<rightharpoonup> 'o) \<times> ('t, 'k, 'f) event) result) \<Rightarrow>
    u64 option \<Rightarrow> ('t, 'k, 'f, 'o) world \<Rightarrow> ('r \<times> ('t, 'k, 'f, 'o) world) result"
where
  "run_body body p w =
     ebind (load_event p w) (\<lambda>(i, ev).
       ebind (body i (payloads w) ev) (\<lambda>(r, os, ev').
         Inr (r, store_event i ev' (w\<lparr>payloads := os\<rparr>))))"

definition obj_ptr :: "u64 \<Rightarrow> ('t, 'k, 'f, 'o) world \<Rightarrow> u64 option" where
  "obj_ptr i w = od_ptr (map_at (obj_info w) default_object i)"

definition call_of :: "u64 \<Rightarrow> ('t, 'k, 'f, 'o) world \<Rightarrow> call_data" where
  "call_of p w = map_at (proc_to_dat w) default_call p"

definition function_call ::
  "('t, 'k, 'f, 'o) classes \<Rightarrow> 'f \<Rightarrow> caller_info \<Rightarrow> target_info \<Rightarrow>
    ('t, 'k, 'f, 'o) world \<Rightarrow> ('t, 'k, 'f, 'o) world result"
where
  "function_call cl f ci ti w =
     (let w1 = upd_obj (ti_obj ti) (\<lambda>d. d\<lparr>assoc_procs := assoc_procs d @ [ti_proc ti]\<rparr>) w;
          w2 = upd_call (ti_proc ti) (\<lambda>c. c\<lparr>assoc_obj := ti_obj ti,
                 back_notify := (ci_thread ci, ci_obj ci, ci_proc ci), cd_status := Running\<rparr>) w1
      in ebind (run_body (\<lambda>i. cl_invoke cl f i (ti_proc ti)) (obj_ptr (ti_obj ti) w2) w2) (\<lambda>(resp, w3).
         ebind (process_queued (obj_ptr (ti_obj ti) w3) ti w3) (\<lambda>w4.
           let w5 = upd_call (ti_proc ti) (\<lambda>c. c\<lparr>cd_op_hint := op_hint resp,
                      cd_description := description resp,
                      cd_status := if success resp then Running else Degraded\<rparr>) w4
           in case ret resp of
                None \<Rightarrow> Inr w5
              | Some (failed, code) \<Rightarrow>
                  let w6 = upd_call (ti_proc ti) (\<lambda>c. c\<lparr>
                             cd_status := if failed then Failed else Finished,
                             cd_return_code := code\<rparr>) w5
                  in if length (queues w6) \<le> unat (int_to_size (ci_thread ci)) then Inr w6
                     else push_msg (ci_thread ci)
                       (Data_Msg
                         \<lparr>ci_thread = self_thread w6, ci_obj = ti_obj ti, ci_proc = ti_proc ti\<rparr>
                         \<lparr>ti_obj = ci_obj ci, ti_proc = ci_proc ci\<rparr>
                         (ChildTaskCompletion (ci_proc ci) (ti_proc ti)
                            (cd_status (call_of (ti_proc ti) w6)) code)) w6)))"

text \<open>\<^verbatim>\<open>map_event_data\<close> changes the message in place, so the copies for attached procedures carry the
  translated ids.\<close>

definition map_data ::
  "'t event_type \<Rightarrow> u64 option \<Rightarrow> ('t, 'k, 'f, 'o) world \<Rightarrow>
    ('t event_type \<times> ('t, 'k, 'f, 'o) world) result"
where
  "map_data d p w =
     ebind (load_event p w) (\<lambda>(i, ev).
       let (d', ev') = map_event_data d ev in Inr (d', store_event i ev' w))"

definition notify_attached ::
  "caller_info \<Rightarrow> target_info \<Rightarrow> 't event_type \<Rightarrow> ('t, 'k, 'f, 'o) world \<Rightarrow> ('t, 'k, 'f, 'o) world result"
where
  "notify_attached ci ti d w =
     (case also_notify w (ti_proc ti) of
        None \<Rightarrow> Inr w
      | Some l \<Rightarrow> efold (\<lambda>(obj, proc). push_msg (self_thread w)
                    (Data_Msg ci \<lparr>ti_obj = obj, ti_proc = proc\<rparr> d)) l w)"

definition data_received ::
  "('t, 'k, 'f, 'o) classes \<Rightarrow> caller_info \<Rightarrow> target_info \<Rightarrow> 't event_type \<Rightarrow>
    ('t, 'k, 'f, 'o) world \<Rightarrow> ('t, 'k, 'f, 'o) world result"
where
  "data_received cl ci ti d w =
     (if obj_info w (ti_obj ti) = None \<or> proc_to_dat w (ti_proc ti) = None then Inr w
      else
        ebind (map_data d (obj_ptr (ti_obj ti) w) w) (\<lambda>(d', w1).
        ebind (run_body (cl_yield cl d') (obj_ptr (ti_obj ti) w1) w1) (\<lambda>(res', w2).
        ebind (process_queued (obj_ptr (ti_obj ti) w2) ti w2) (\<lambda>w3.
        ebind (case res' of
                 None \<Rightarrow> Inr w3
               | Some (failed, code) \<Rightarrow>
                   let w4 = upd_call (ti_proc ti) (\<lambda>c. c\<lparr>cd_status :=
                              if failed then Failed else Finished\<rparr>) w3;
                       (th, ob, pr) = back_notify (call_of (ti_proc ti) w4)
                   in push_msg th
                        (Data_Msg
                          \<lparr>ci_thread = self_thread w4, ci_obj = ti_obj ti, ci_proc = ti_proc ti\<rparr>
                          \<lparr>ti_obj = ob, ti_proc = pr\<rparr>
                          (ChildTaskCompletion pr (ti_proc ti)
                             (cd_status (call_of (ti_proc ti) w4)) code)) w4)
          (notify_attached ci ti d')))))"

text \<open>The body of the \<^verbatim>\<open>Delete\<close> case of \<^verbatim>\<open>handle_dequeue\<close>; erasing the entry destroys the object, of
  which it holds the only \<^verbatim>\<open>shared_ptr\<close>.\<close>

definition delete_received ::
  "caller_info \<Rightarrow> target_info \<Rightarrow> ('t, 'k, 'f, 'o) world \<Rightarrow> ('t, 'k, 'f, 'o) world result"
where
  "delete_received ci ti w =
     (let d = map_at (obj_info w) default_object (ti_obj ti)
      in ebind (efold (\<lambda>(child, info). push_msg (ch_thread info)
                  (Delete_Msg ci \<lparr>ti_obj = child, ti_proc = no_id\<rparr>))
                (children d) (touch_obj (ti_obj ti) w)) (\<lambda>w1.
         Inr (w1\<lparr>proc_to_dat := proc_to_dat w1 |` (- set (assoc_procs d)),
                 obj_info := (obj_info w1)(ti_obj ti := None),
                 ev_mem := (case od_ptr d of None \<Rightarrow> ev_mem w1 | Some i \<Rightarrow> (ev_mem w1)(i := None)),
                 payloads := (case od_ptr d of None \<Rightarrow> payloads w1 | Some i \<Rightarrow> (payloads w1)(i := None))\<rparr>)))"

definition root_start_received ::
  "('t, 'k) construct_func \<Rightarrow> 'f \<Rightarrow> target_info \<Rightarrow> ('t, 'k, 'f, 'o) world \<Rightarrow> ('t, 'k, 'f, 'o) world result"
where
  "root_start_received cf init ti w =
     (let nobody = \<lparr>ci_thread = - 1, ci_obj = no_id, ci_proc = no_id\<rparr>
      in ebind (push_msg (self_thread w)
            (Constructor_Call cf nobody \<lparr>ti_obj = ti_obj ti, ti_proc = no_id\<rparr> None) w)
         (push_msg (self_thread w) (Function_Call init nobody ti)))"

text \<open>Resuming a coroutine is recorded; its code is not part of the program's sources.\<close>

definition cqe_ready_received :: "u64 \<Rightarrow> int \<Rightarrow> ('t, 'k, 'f, 'o) world \<Rightarrow> ('t, 'k, 'f, 'o) world" where
  "cqe_ready_received i r w =
     (case readiness_waiters w i of
        None \<Rightarrow> w
      | Some wt \<Rightarrow> (case wt_handle wt of
          None \<Rightarrow> w
        | Some h \<Rightarrow> w\<lparr>int_cells := (int_cells w)(wt_result wt \<mapsto> r), resumed := resumed w @ [h]\<rparr>))"

text \<open>\<^verbatim>\<open>io_uring_submit\<close>: the kernel takes every entry and reads the time of a timer request.\<close>

fun sqe_time :: "(u64 \<rightharpoonup> timer_data) \<Rightarrow> sqe_op \<Rightarrow> timespec option" where
  "sqe_time ts (Sq_timeout i) = map_option td_ts (ts i)"
| "sqe_time ts (Sq_timeout_update i _) = map_option td_ts (ts i)"
| "sqe_time ts _ = None"

definition submit :: "('t, 'k, 'f, 'o) world \<Rightarrow> ('t, 'k, 'f, 'o) world" where
  "submit w = w\<lparr>in_flight := in_flight w @ map (\<lambda>s. (s, sqe_time (timers w) (sq_op s))) (sq w), sq := []\<rparr>"

fun handle_message ::
  "('t, 'k, 'f, 'o) classes \<Rightarrow> ('t, 'k, 'f) message \<Rightarrow> ('t, 'k, 'f, 'o) world \<Rightarrow> ('t, 'k, 'f, 'o) world result"
where
  "handle_message cl (Constructor_Call cf ci ti ctx) w = construct_call cl cf ci ti ctx w"
| "handle_message cl (Function_Call f ci ti) w = function_call cl f ci ti w"
| "handle_message cl (Delete_Msg ci ti) w = delete_received ci ti w"
| "handle_message cl (Data_Msg ci ti d) w = data_received cl ci ti d w"
| "handle_message cl (Root_Start cf f ti) w = root_start_received cf f ti w"
| "handle_message cl (Cqe_Ready i r) w = Inr (cqe_ready_received i r w)"

text \<open>\<^verbatim>\<open>handle_dequeue\<close>: take the first message of the own queue, if any.\<close>

definition handle_dequeue ::
  "('t, 'k, 'f, 'o) classes \<Rightarrow> ('t, 'k, 'f, 'o) world \<Rightarrow> (bool \<times> ('t, 'k, 'f, 'o) world) result"
where
  "handle_dequeue cl w =
     (case queues w ! nat (self_thread w) of
        [] \<Rightarrow> Inr (False, w)
      | m # _ \<Rightarrow>
          ebind (handle_message cl m (w\<lparr>queues := upd_at (nat (self_thread w)) tl (queues w)\<rparr>))
            (\<lambda>w'. Inr (True, submit w')))"

section \<open>Completions and the main loop\<close>

definition ETIME :: int where "ETIME = 62"
definition ECANCELED :: int where "ECANCELED = 125"

text \<open>\<^verbatim>\<open>process_uring\<close> on the completions found in the ring: user data and result of each.\<close>

definition completion_step ::
  "nat \<times> int \<Rightarrow> ('t, 'k, 'f, 'o) world \<Rightarrow> ('t, 'k, 'f, 'o) world result"
where
  "completion_step = (\<lambda>(a, r) w.
     let nobody = \<lparr>ci_thread = - 1, ci_obj = no_id, ci_proc = no_id\<rparr>
     in case attached w a of
          None \<Rightarrow> Inl Undefined_Behaviour
        | Some d \<Rightarrow>
            ebind (case d of
                Event_Data op' ob pr \<Rightarrow>
                  push_msg (self_thread w) (Data_Msg nobody \<lparr>ti_obj = ob, ti_proc = pr\<rparr>
                    (IoUringResult pr op' r)) w
              | Timer_Data i ob pr \<Rightarrow>
                  if r = - ETIME
                  then push_msg (self_thread w) (Data_Msg nobody \<lparr>ti_obj = ob, ti_proc = pr\<rparr> (Timeout i)) w
                  else Inr w
              | Timer_Update i rem \<Rightarrow>
                  Inr (if 0 \<le> r \<and> rem then w\<lparr>timers := (timers w)(i := None)\<rparr> else w)
              | Co_Event i \<Rightarrow> push_msg (self_thread w) (Cqe_Ready i r) w)
              (\<lambda>w'. Inr (w'\<lparr>attached := (attached w')(a := None)\<rparr>)))"

definition process_uring ::
  "(nat \<times> int) list \<Rightarrow> ('t, 'k, 'f, 'o) world \<Rightarrow> ('t, 'k, 'f, 'o) world result"
where
  "process_uring cqes w = efold completion_step cqes w"

text \<open>The timeout and the batching time (in microseconds) of the next wait.\<close>

definition wait_params :: "bool \<Rightarrow> timespec \<times> int" where
  "wait_params q_nonempty =
     (if q_nonempty then (\<lparr>tv_sec = 0, tv_nsec = 100000\<rparr>, 0) else (\<lparr>tv_sec = 10, tv_nsec = 0\<rparr>, 100))"

text \<open>\<^verbatim>\<open>for (i = 0; i < n && (handle_dequeue() || (q_nonempty = false)); i++);\<close>\<close>

fun dequeue_loop ::
  "('t, 'k, 'f, 'o) classes \<Rightarrow> nat \<Rightarrow> ('t, 'k, 'f, 'o) world \<Rightarrow> (bool \<times> ('t, 'k, 'f, 'o) world) result"
where
  "dequeue_loop cl 0 w = Inr (True, w)"
| "dequeue_loop cl (Suc n) w =
     ebind (handle_dequeue cl w) (\<lambda>(more, w').
       if more then dequeue_loop cl n w' else Inr (False, w'))"

text \<open>One iteration of \<^verbatim>\<open>run\<close> after the wait returned \<open>res'\<close> with the completions \<open>cqes\<close>; the boolean is
  \<^verbatim>\<open>q_nonempty\<close> at the start of the next iteration.\<close>

definition run_iteration ::
  "('t, 'k, 'f, 'o) classes \<Rightarrow> int \<Rightarrow> (nat \<times> int) list \<Rightarrow> ('t, 'k, 'f, 'o) world \<Rightarrow>
    (bool \<times> ('t, 'k, 'f, 'o) world) result"
where
  "run_iteration cl res' cqes w =
     (if res' \<noteq> - ETIME \<and> res' < 0 then Inr (True, w)
      else ebind (process_uring cqes w) (dequeue_loop cl 256))"

section \<open>Starting root objects\<close>

text \<open>\<^verbatim>\<open>AsyncHandler::initialize_root_event\<close>: the handler draws the ids from its own blocks, and
  \<^verbatim>\<open>pt_idx\<close> is always 0.\<close>

definition initialize_root_event ::
  "'k \<Rightarrow> 'f \<Rightarrow> thread_ids \<Rightarrow> ('t, 'k, 'f, 'o) world \<Rightarrow> (thread_ids \<times> ('t, 'k, 'f, 'o) world) result"
where
  "initialize_root_event k init rids w =
     (let (ob, r1, b1) = root_get_obj_id rids (blocks w);
          (pr, r2, b2) = root_get_proc_id r1 b1
      in ebind (push_msg 0 (Root_Start (Root_Ctor k) init \<lparr>ti_obj = ob, ti_proc = pr\<rparr>) (w\<lparr>blocks := b2\<rparr>))
           (\<lambda>w'. Inr (r2, w')))"

section \<open>Awaiters\<close>

definition co_register :: "uring_prep \<Rightarrow> nat \<Rightarrow> ('t, 'k, 'f, 'o) world \<Rightarrow> u64 \<times> ('t, 'k, 'f, 'o) world" where
  "co_register prep cell w =
     (let (i, w1) = draw_proc w;
          h = (case readiness_waiters w1 i of None \<Rightarrow> None | Some wt \<Rightarrow> wt_handle wt)
      in (i, w1\<lparr>readiness_waiters := (readiness_waiters w1)(i \<mapsto> \<lparr>wt_result = cell, wt_handle = h\<rparr>),
                sqes := sqes w1 @ [prep]\<rparr>))"

definition co_update :: "u64 \<Rightarrow> nat \<Rightarrow> ('t, 'k, 'f, 'o) world \<Rightarrow> ('t, 'k, 'f, 'o) world" where
  "co_update i cell w =
     (case readiness_waiters w i of
        None \<Rightarrow> w
      | Some wt \<Rightarrow> w\<lparr>readiness_waiters := (readiness_waiters w)(i \<mapsto> wt\<lparr>wt_result := cell\<rparr>)\<rparr>)"

definition co_deregister :: "u64 \<Rightarrow> ('t, 'k, 'f, 'o) world \<Rightarrow> ('t, 'k, 'f, 'o) world" where
  "co_deregister i w = w\<lparr>readiness_waiters := (readiness_waiters w)(i := None)\<rparr>"

definition co_handle :: "u64 \<Rightarrow> nat option \<Rightarrow> ('t, 'k, 'f, 'o) world \<Rightarrow> ('t, 'k, 'f, 'o) world" where
  "co_handle i h w =
     (case readiness_waiters w i of
        Some wt \<Rightarrow> if h \<noteq> None
                    then w\<lparr>readiness_waiters := (readiness_waiters w)(i \<mapsto> wt\<lparr>wt_handle := h\<rparr>)\<rparr> else w
      | None \<Rightarrow> w)"

end
