(* ===== verification/Event_Props.thy ===== *)
theory Event_Props
  imports Event_Core
begin

text \<open>
  Properties of \<^verbatim>\<open>Event\<close>: the slot tables behind \<^verbatim>\<open>construct\<close> and \<^verbatim>\<open>d\<close>, and the translation between
  the local ids an object uses and the global ids of the scheduler.

  Two interfaces are stated as locales.  \<open>slot_table\<close> is a table that hands out free indices; it
  is interpreted on the slots of a class.  \<open>id_translation\<close> is a pair of tables filled by one
  function; it is interpreted twice, on the procedure ids and on the timer ids.
\<close>

section \<open>Accessors\<close>

lemma slots_set_slots [simp]:
  "slots ty (set_slots ty v ev) = v"
  "ty \<noteq> ty' \<Longrightarrow> slots ty (set_slots ty' v ev) = slots ty ev"
  by (simp_all add: slots_def set_slots_def map_at_def)

lemma slots_queue_updates [simp]:
  "slots ty (ev\<lparr>construct_q := cq\<rparr>) = slots ty ev"
  "slots ty (ev\<lparr>function_q := fq\<rparr>) = slots ty ev"
  "slots ty (ev\<lparr>delete_q := dq\<rparr>) = slots ty ev"
  by (simp_all add: slots_def)

lemma index_where_bounds:
  "index_where P xs \<le> length xs"
  by (induction xs) auto

lemma index_where_found: "index_where P xs < length xs \<Longrightarrow> P (xs ! index_where P xs)"
  by (induction xs) auto

lemma index_where_least: "i < index_where P xs \<Longrightarrow> \<not> P (xs ! i)"
  by (induction xs arbitrary: i) (auto simp: nth_Cons split: if_splits nat.splits)

section \<open>Slots\<close>

locale slot_table =
  fixes take_slot :: "'s \<Rightarrow> nat \<times> 's"
    and used :: "'s \<Rightarrow> nat set"
  assumes take_fresh: "take_slot s = (i, s') \<Longrightarrow> i \<notin> used s \<and> used s' = insert i (used s)"
    and take_least: "take_slot s = (i, s') \<Longrightarrow> j < i \<Longrightarrow> j \<in> used s"
begin

fun take_slots :: "nat \<Rightarrow> 's \<Rightarrow> nat list \<times> 's" where
  "take_slots 0 s = ([], s)"
| "take_slots (Suc n) s = (let (i, s1) = take_slot s; (is, s2) = take_slots n s1 in (i # is, s2))"

lemma take_slots_fresh:
  "take_slots n s = (is, s') \<Longrightarrow>
     length is = n \<and> distinct is \<and> set is \<inter> used s = {} \<and> used s' = used s \<union> set is"
proof (induction n arbitrary: s "is")
  case 0
  then show ?case by simp
next
  case (Suc n)
  obtain i s1 js where i: "take_slot s = (i, s1)" and js: "take_slots n s1 = (js, s')" "is = i # js"
    using Suc.prems by (auto split: prod.splits)
  show ?case using Suc.IH [OF js(1)] take_fresh [OF i] js(2) by auto
qed

end

definition used_slots :: "'t \<Rightarrow> ('t, 'k, 'f) event \<Rightarrow> nat set" where
  "used_slots ty ev = {i. i < length (slots ty ev) \<and> slots ty ev ! i \<noteq> None}"

lemma construct_slots:
  assumes "construct_ev ty shared k ev = (i, ev')"
  shows "i = index_where (\<lambda>e. e = None) (slots ty ev)"
    "slots ty ev' = (if i = length (slots ty ev)
       then slots ty ev @ [Some \<lparr>ev_locator = None, ev_event = None\<rparr>]
       else (slots ty ev)[i := Some \<lparr>ev_locator = None, ev_event = None\<rparr>])"
    "ty' \<noteq> ty \<Longrightarrow> slots ty' ev' = slots ty' ev"
    "construct_q ev' = construct_q ev @ [\<lparr>qc_idx = ty, qc_vidx = i, qc_fun = k, qc_shared = shared\<rparr>]"
  using assms by (auto simp: construct_ev_def Let_def set_slots_def slots_def map_at_def)

interpretation class_slots: slot_table "construct_ev ty shared k" "used_slots ty"
  for ty :: 't and shared and k :: 'k
proof
  fix ev ev' :: "('t, 'k, 'f) event" and i
  assume c: "construct_ev ty shared k ev = (i, ev')"
  note cs = construct_slots [OF c]
  have le: "i \<le> length (slots ty ev)" using cs(1) index_where_bounds by metis
  have free: "i < length (slots ty ev) \<Longrightarrow> slots ty ev ! i = None"
    using index_where_found [of "\<lambda>e. e = None" "slots ty ev"] cs(1) by simp
  show "i \<notin> used_slots ty ev \<and> used_slots ty ev' = insert i (used_slots ty ev)"
    using le free unfolding used_slots_def cs(2)
    by (cases "i = length (slots ty ev)") (auto simp: nth_append nth_list_update)
  show "j \<in> used_slots ty ev" if "j < i" for j
    using that cs(1) le index_where_least [of j "\<lambda>e. e = None" "slots ty ev"] by (simp add: used_slots_def)
qed

section \<open>Identifier translation\<close>

locale id_translation =
  fixes add :: "'g \<Rightarrow> 'l \<Rightarrow> 's \<Rightarrow> 's"
    and to_global :: "'l \<Rightarrow> 's \<Rightarrow> 'g"
    and to_local :: "'g \<Rightarrow> 's \<Rightarrow> 'l"
  assumes global_add: "to_global l' (add g l s) = (if l' = l then g else to_global l' s)"
    and local_add: "to_local g' (add g l s) = (if g' = g then l else to_local g' s)"
begin

primrec adds :: "('g \<times> 'l) list \<Rightarrow> 's \<Rightarrow> 's" where
  "adds [] s = s"
| "adds (p # ps) s = adds ps (add (fst p) (snd p) s)"

lemma adds_other:
  "l \<notin> snd ` set ps \<Longrightarrow> to_global l (adds ps s) = to_global l s"
  "g \<notin> fst ` set ps \<Longrightarrow> to_local g (adds ps s) = to_local g s"
  by (induction ps arbitrary: s) (auto simp: global_add local_add)

lemma adds_inverse:
  assumes "distinct (map fst ps)" "distinct (map snd ps)" "(g, l) \<in> set ps"
  shows "to_global l (adds ps s) = g \<and> to_local g (adds ps s) = l"
  using assms
proof (induction ps arbitrary: s)
  case Nil
  then show ?case by simp
next
  case (Cons p ps)
  show ?case
  proof (cases "p = (g, l)")
    case True
    then have "l \<notin> snd ` set ps" "g \<notin> fst ` set ps" using Cons.prems by auto
    then show ?thesis using True by (simp add: adds_other global_add local_add)
  next
    case False
    then show ?thesis using Cons by auto
  qed
qed

end

interpretation proc_ids: id_translation global_to_local translate_proc_local translate_proc_global
  by unfold_locales
    (simp_all add: global_to_local_def translate_proc_local_def translate_proc_global_def map_at_def)

interpretation timer_ids: id_translation global_to_local_tim translate_tim_local translate_tim_global
  by unfold_locales
    (simp_all add: global_to_local_tim_def translate_tim_local_def translate_tim_global_def map_at_def)

lemma fold_global_to_local: "fold (\<lambda>(g, l). global_to_local g l) ps ev = proc_ids.adds ps ev"
  by (induction ps arbitrary: ev) (auto simp: case_prod_beta)

text \<open>What a handler then sees.\<close>

lemma map_event_data_known:
  assumes "translate_proc_global g ev = l" "global_proc_to_local_proc (uring_data ev) g \<noteq> None"
  shows "map_event_data (ChildTaskCompletion c g st rc) ev = (ChildTaskCompletion c l st rc, ev)"
  using assms by (auto simp: translate_proc_global_def)

lemma map_timeout_known:
  assumes "translate_tim_global g ev = l" "global_tim_to_local_tim (uring_data ev) g \<noteq> None"
  shows "map_event_data (Timeout g) ev = (Timeout l, ev)"
  using assms by (auto simp: translate_tim_global_def)

section \<open>Properties\<close>

text \<open>Queue a list of calls on children, as a handler does with \<^verbatim>\<open>c\<close>.\<close>

fun c_list :: "('t \<times> nat \<times> 'f) list \<Rightarrow> ('t, 'k, 'f) event \<Rightarrow> u64 list \<times> ('t, 'k, 'f) event" where
  "c_list [] ev = ([], ev)"
| "c_list ((ty, idx, f) # cs) ev =
     (let (l, ev1) = c_at ty idx f ev; (ls, ev2) = c_list cs ev1 in (l # ls, ev2))"

fun construct_list :: "('t \<times> bool \<times> 'k) list \<Rightarrow> ('t, 'k, 'f) event \<Rightarrow> nat list \<times> ('t, 'k, 'f) event" where
  "construct_list [] ev = ([], ev)"
| "construct_list ((ty, sh, k) # cs) ev =
     (let (l, ev1) = construct_ev ty sh k ev; (ls, ev2) = construct_list cs ev1 in (l # ls, ev2))"

lemma c_list_ids:
  "c_list cs ev = (ls, ev') \<Longrightarrow>
     ls = map (\<lambda>i. local_proc_id (uring_data ev) + of_nat i) [0..<length cs] \<and>
     local_proc_id (uring_data ev') = local_proc_id (uring_data ev) + of_nat (length cs) \<and>
     function_q ev' = function_q ev @ map (\<lambda>(l, ty, idx, f).
       \<lparr>qf_idx = ty, qf_vidx = idx, qf_local_id = l, qf_fun = f\<rparr>) (zip ls cs) \<and>
     sub_events (uring_data ev') = sub_events (uring_data ev)"
proof (induction cs ev arbitrary: ls ev' rule: c_list.induct)
  case (1 ev)
  then show ?case by simp
next
  case (2 ty idx f cs ev)
  obtain l ev1 ls2 where
    d: "c_at ty idx f ev = (l, ev1)" "c_list cs ev1 = (ls2, ev')" "ls = l # ls2"
    using "2.prems" by (auto split: prod.splits)
  have ev1: "l = local_proc_id (uring_data ev)" "local_proc_id (uring_data ev1) = l + 1"
    "function_q ev1 = function_q ev @ [\<lparr>qf_idx = ty, qf_vidx = idx, qf_local_id = l, qf_fun = f\<rparr>]"
    "sub_events (uring_data ev1) = sub_events (uring_data ev)"
    using d(1) by (auto simp: c_at_def Let_def)
  have "[0..<Suc (length cs)] = 0 # map Suc [0..<length cs]"
    by (simp add: map_Suc_upt upt_conv_Cons del: upt_Suc)
  with "2.IH" [OF d(1)[symmetric] refl d(2)] d(3) ev1 show ?case
    by (simp del: upt_Suc add: algebra_simps)
qed

lemma of_nat_distinct:
  assumes "n \<le> 2 ^ 64"
  shows "distinct (map (\<lambda>i. (b :: u64) + of_nat i) [0..<n])"
proof -
  have "inj_on (\<lambda>i. b + of_nat i) (set [0..<n])"
  proof (rule inj_onI)
    fix i j :: nat
    assume ij: "i \<in> set [0..<n]" "j \<in> set [0..<n]" and eq: "b + of_nat i = b + (of_nat j :: u64)"
    have "unat (of_nat i :: u64) = i" "unat (of_nat j :: u64) = j"
      using ij assms by (simp_all add: unsigned_of_nat take_bit_nat_eq_self)
    then show "i = j" using eq by (metis add_left_cancel)
  qed
  then show ?thesis by (simp add: distinct_map)
qed

text \<open>
  \<^verbatim>\<open>i<Obj>(...)\<close> takes the lowest free slot of the class, never one that is in use,
  leaves every other slot of every class as it is and queues exactly one construction for it.
\<close>

theorem construct_takes_free_slot:
  assumes "construct_ev ty shared k ev = (i, ev')"
  shows "i \<notin> used_slots ty ev \<and> (\<forall>j < i. j \<in> used_slots ty ev) \<and>
    used_slots ty ev' = insert i (used_slots ty ev) \<and>
    (\<forall>j \<in> used_slots ty ev. slots ty ev' ! j = slots ty ev ! j) \<and>
    (\<forall>ty'. ty' \<noteq> ty \<longrightarrow> slots ty' ev' = slots ty' ev) \<and>
    construct_q ev' = construct_q ev @ [\<lparr>qc_idx = ty, qc_vidx = i, qc_fun = k, qc_shared = shared\<rparr>]"
proof (intro conjI)
  note cs = construct_slots [OF assms]
  have tf: "i \<notin> used_slots ty ev \<and> used_slots ty ev' = insert i (used_slots ty ev)"
    by (rule class_slots.take_fresh [OF assms])
  then show "i \<notin> used_slots ty ev" "used_slots ty ev' = insert i (used_slots ty ev)" by simp_all
  show "\<forall>j < i. j \<in> used_slots ty ev"
    using class_slots.take_least [OF assms] by blast
  show "\<forall>j \<in> used_slots ty ev. slots ty ev' ! j = slots ty ev ! j"
  proof
    fix j assume j: "j \<in> used_slots ty ev"
    have "j \<noteq> i" using j tf by blast
    moreover have "j < length (slots ty ev)" using j by (simp add: used_slots_def)
    ultimately show "slots ty ev' ! j = slots ty ev ! j" unfolding cs(2) by (simp add: nth_append)
  qed
  show "\<forall>ty'. ty' \<noteq> ty \<longrightarrow> slots ty' ev' = slots ty' ev" using cs(3) by blast
qed (rule construct_slots(4) [OF assms])

lemma construct_takes_free_slot_witness:
  "fst (construct_ev (0::nat) False () (snd (construct_ev 0 False () (new_event empty_uring_data :: (nat, unit, unit) event)))) = 1 \<and>
   1 \<notin> used_slots 0 (snd (construct_ev (0::nat) False () (new_event empty_uring_data :: (nat, unit, unit) event)))"
proof -
  let ?e = "new_event empty_uring_data :: (nat, unit, unit) event"
  let ?e1 = "snd (construct_ev 0 False () ?e)"
  have "fst (construct_ev 0 False () ?e1) = 1" by code_simp
  then have "construct_ev 0 False () ?e1 = (1, snd (construct_ev 0 False () ?e1))" by (metis prod.collapse)
  from construct_takes_free_slot [OF this] show ?thesis using \<open>fst _ = 1\<close> by blast
qed

text \<open>
  The calls an object queues get distinct local ids; once the scheduler has entered
  a global id for each of them, translating a local id gives its global id, and the completion of
  a global id reaches the handler as the completion of the local id the call returned.
\<close>

theorem call_ids_round_trip:
  assumes "c_list cs ev = (ls, ev')" "length cs \<le> 2 ^ 64"
    and "length gs = length cs" "distinct gs" "j < length cs"
  shows "distinct ls \<and>
    translate_proc_local (ls ! j) (fold (\<lambda>(g, l). global_to_local g l) (zip gs ls) ev') = gs ! j \<and>
    fst (map_event_data (ChildTaskCompletion c (gs ! j) st rc)
      (fold (\<lambda>(g, l). global_to_local g l) (zip gs ls) ev')) = ChildTaskCompletion c (ls ! j) st rc"
proof -
  have ls: "ls = map (\<lambda>i. local_proc_id (uring_data ev) + of_nat i) [0..<length cs]"
    using c_list_ids [OF assms(1)] by blast
  then have len: "length ls = length cs" and dl: "distinct ls"
    using of_nat_distinct [OF assms(2)] by simp_all
  have inz: "(gs ! j, ls ! j) \<in> set (zip gs ls)"
    using assms(3,5) len by (metis in_set_zip fst_conv snd_conv)
  let ?e = "proc_ids.adds (zip gs ls) ev'"
  have inv: "translate_proc_local (ls ! j) ?e = gs ! j" "translate_proc_global (gs ! j) ?e = ls ! j"
    using proc_ids.adds_inverse [OF _ _ inz, of ev'] assms(3,4) len dl by simp_all
  have known: "g \<in> fst ` set ps \<or> global_proc_to_local_proc (uring_data e) g \<noteq> None \<Longrightarrow>
      global_proc_to_local_proc (uring_data (proc_ids.adds ps e)) g \<noteq> None" for ps g and e :: "('a, 'b, 'c) event"
    by (induction ps arbitrary: e) (auto simp: global_to_local_def)
  have "global_proc_to_local_proc (uring_data ?e) (gs ! j) \<noteq> None"
    using known [of "gs ! j" "zip gs ls" ev'] inz by force
  from map_event_data_known [OF inv(2) this] inv(1) dl show ?thesis by (simp add: fold_global_to_local)
qed

lemma call_ids_round_trip_witness:
  "let ev = new_event empty_uring_data :: (nat, unit, unit) event;
       (ls, ev') = c_list [(0, 0, ()), (0, 1, ())] ev
   in ls = [0, 1] \<and>
      translate_proc_local 1 (fold (\<lambda>(g, l). global_to_local g l) (zip [70, 50] ls) ev') = 50"
proof -
  let ?ev = "new_event empty_uring_data :: (nat, unit, unit) event"
  let ?r = "c_list [(0, 0, ()), (0, 1, ())] ?ev"
  have ls: "fst ?r = [0, 1]" by code_simp
  have r: "?r = (fst ?r, snd ?r)" by simp
  have "translate_proc_local (fst ?r ! 1) (fold (\<lambda>(g, l). global_to_local g l) (zip [70, 50] (fst ?r)) (snd ?r)) = 50"
    using call_ids_round_trip [OF r, of "[70, 50]" 1] by simp
  then show ?thesis unfolding Let_def case_prod_beta [of _ ?r] by (simp only: ls) simp
qed

end
