(* ===== verification/Sched_Props.thy ===== *)
theory Sched_Props
  imports Scheduler Event_Props
begin

text \<open>
  Properties of the scheduler: what becomes of queued constructions and calls, how completions
  and deletions travel, that user-data pointers of requests stay valid, and that timers come
  back under their local id.
\<close>

section \<open>Elementary facts\<close>

text \<open>The program runs \<^verbatim>\<open>AsyncHandler::self(1)\<close>: one worker thread.\<close>

definition single :: "('t, 'k, 'f, 'o) world \<Rightarrow> bool" where
  "single w \<longleftrightarrow> self_thread w = 0 \<and> length (queues w) = 1 \<and> loads w = [0]"

definition own_queue :: "('t, 'k, 'f, 'o) world \<Rightarrow> ('t, 'k, 'f) message list" where
  "own_queue w = queues w ! nat (self_thread w)"

lemma single_queues: "single w \<Longrightarrow> queues w = [own_queue w]"
  by (cases "queues w") (auto simp: single_def own_queue_def)

lemma single_cong:
  "self_thread w' = self_thread w \<Longrightarrow> length (queues w') = length (queues w) \<Longrightarrow> loads w' = loads w \<Longrightarrow>
     single w' = single w"
  by (simp add: single_def)

lemma single_find [simp]:
  "single w \<Longrightarrow> threads = [] \<or> 0 \<in> set threads \<Longrightarrow> find_target_thread threads w = Inr 0"
  by (auto simp: find_target_thread_def single_def)

lemma push_single:
  assumes "single w"
  shows "push_msg 0 m w = Inr (w\<lparr>queues := [own_queue w @ [m]]\<rparr>)"
  using assms single_queues [OF assms] by (simp add: push_msg_def single_def upd_at_def)

lemma init_single [simp]: "single (init_world 1 0)"
  by (simp add: single_def init_world_def)

lemma single_upd [simp]:
  "single (upd_obj i g w) = single w"
  "single (upd_call p h w) = single w"
  "single (touch_obj i w) = single w"
  "single (store_event i ev w) = single w"
  "single (snd (draw_proc w)) = single w"
  "single (snd (draw_obj w)) = single w"
  "single (w\<lparr>payloads := os\<rparr>) = single w"
  "single (submit w) = single w"
  "single w \<Longrightarrow> single (w\<lparr>queues := [q]\<rparr>)"
  by (auto simp: single_def upd_obj_def upd_call_def touch_obj_def store_event_def draw_proc_def
      draw_obj_def submit_def split: option.split prod.split)

lemma own_queue_upd [simp]:
  "own_queue (upd_obj i g w) = own_queue w"
  "own_queue (upd_call p h w) = own_queue w"
  "own_queue (touch_obj i w) = own_queue w"
  "own_queue (store_event i ev w) = own_queue w"
  "own_queue (snd (draw_proc w)) = own_queue w"
  "own_queue (snd (draw_obj w)) = own_queue w"
  "own_queue (w\<lparr>payloads := os\<rparr>) = own_queue w"
  "own_queue (submit w) = own_queue w"
  "single w \<Longrightarrow> own_queue (w\<lparr>queues := [q]\<rparr>) = q"
  by (auto simp: own_queue_def single_def upd_obj_def upd_call_def touch_obj_def store_event_def
      draw_proc_def draw_obj_def submit_def split: option.split prod.split)

section \<open>Fresh ids for calls and objects\<close>

text \<open>The id pools of the running thread and the root handler, as \<open>Ids\<close> views them.\<close>

definition proc_pool :: "thread_ids \<Rightarrow> u64 set \<Rightarrow> ('t, 'k, 'f, 'o) world \<Rightarrow> id_pool" where
  "proc_pool rids h w = \<lparr>cursors = [proc_cur (tids w), proc_cur rids], counter = proc_block (blocks w), history = h\<rparr>"

definition obj_pool :: "thread_ids \<Rightarrow> u64 set \<Rightarrow> ('t, 'k, 'f, 'o) world \<Rightarrow> id_pool" where
  "obj_pool rids h w = \<lparr>cursors = [obj_cur (tids w), obj_cur rids], counter = obj_block (blocks w), history = h\<rparr>"

fun draw_procs :: "nat \<Rightarrow> ('t, 'k, 'f, 'o) world \<Rightarrow> u64 list" where
  "draw_procs 0 w = []"
| "draw_procs (Suc n) w = (let (i, w') = draw_proc w in i # draw_procs n w')"

fun draw_objs :: "nat \<Rightarrow> ('t, 'k, 'f, 'o) world \<Rightarrow> u64 list" where
  "draw_objs 0 w = []"
| "draw_objs (Suc n) w = (let (i, w') = draw_obj w in i # draw_objs n w')"

lemma draw_proc_pool:
  "pool_draw 0 (proc_pool rids h w) =
     (fst (draw_proc w), proc_pool rids (insert (fst (draw_proc w)) h) (snd (draw_proc w)))"
  by (simp add: pool_draw_def proc_pool_def draw_proc_def get_proc_id_def split: prod.split)

lemma draw_obj_pool:
  "pool_draw 0 (obj_pool rids h w) =
     (fst (draw_obj w), obj_pool rids (insert (fst (draw_obj w)) h) (snd (draw_obj w)))"
  by (simp add: pool_draw_def obj_pool_def draw_obj_def get_obj_id_def split: prod.split)

lemma draw_procs_pool: "draw_procs n w = pool.draws (replicate n 0) (proc_pool rids h w)"
  by (induction n arbitrary: w h) (simp_all add: draw_proc_pool case_prod_beta)

lemma draw_objs_pool: "draw_objs n w = pool.draws (replicate n 0) (obj_pool rids h w)"
  by (induction n arbitrary: w h) (simp_all add: draw_obj_pool case_prod_beta)

lemma draw_procs_fresh:
  assumes "pool_inv (proc_pool rids h w)" "n \<le> pool_room (proc_pool rids h w)"
  shows "length (draw_procs n w) = n \<and> distinct (draw_procs n w) \<and> set (draw_procs n w) \<inter> h = {} \<and>
    no_id \<notin> set (draw_procs n w)"
proof -
  have len: "length (draw_procs n w') = n" for w' :: "('a, 'b, 'c, 'd) world"
    by (induction n arbitrary: w') (simp_all add: case_prod_beta)
  have "set (replicate n 0) \<subseteq> {t. t < length (cursors (proc_pool rids h w))}"
    by (auto simp: proc_pool_def)
  from pool.draws_distinct [OF assms(1) _ this] assms(2) len [of w] show ?thesis
    by (simp add: draw_procs_pool [of n w rids h] proc_pool_def)
qed

lemma draw_objs_fresh:
  assumes "pool_inv (obj_pool rids h w)" "n \<le> pool_room (obj_pool rids h w)"
  shows "length (draw_objs n w) = n \<and> distinct (draw_objs n w) \<and> set (draw_objs n w) \<inter> h = {} \<and>
    no_id \<notin> set (draw_objs n w)"
proof -
  have len: "length (draw_objs n w') = n" for w' :: "('a, 'b, 'c, 'd) world"
    by (induction n arbitrary: w') (simp_all add: case_prod_beta)
  have "set (replicate n 0) \<subseteq> {t. t < length (cursors (obj_pool rids h w))}"
    by (auto simp: obj_pool_def)
  from pool.draws_distinct [OF assms(1) _ this] assms(2) len [of w] show ?thesis
    by (simp add: draw_objs_pool [of n w rids h] obj_pool_def)
qed

lemma draws_depend:
  assumes "tids w' = tids w" "blocks w' = blocks w"
  shows "draw_procs n w' = draw_procs n w" "draw_objs n w' = draw_objs n w"
proof -
  have "draw_procs n w' = pool.draws (replicate n 0) (proc_pool init_thread_ids {} w')"
    by (rule draw_procs_pool)
  also have "proc_pool init_thread_ids {} w' = proc_pool init_thread_ids {} w"
    using assms by (simp add: proc_pool_def)
  finally show "draw_procs n w' = draw_procs n w" by (simp only: draw_procs_pool [symmetric])
  have "draw_objs n w' = pool.draws (replicate n 0) (obj_pool init_thread_ids {} w')"
    by (rule draw_objs_pool)
  also have "obj_pool init_thread_ids {} w' = obj_pool init_thread_ids {} w"
    using assms by (simp add: obj_pool_def)
  finally show "draw_objs n w' = draw_objs n w" by (simp only: draw_objs_pool [symmetric])
qed

section \<open>Queued calls\<close>

text \<open>The object a queued call is for, when its slot is occupied and located.\<close>

definition call_target :: "('t, 'k, 'f) event \<Rightarrow> ('t, 'f) queued_function \<Rightarrow> locator option" where
  "call_target ev f =
     (if qf_vidx f < length (slots (qf_idx f) ev)
      then Option.bind (slots (qf_idx f) ev ! qf_vidx f) ev_locator else None)"

definition call_message ::
  "target_info \<Rightarrow> ('t, 'k, 'f) event \<Rightarrow> ('t, 'f) queued_function \<Rightarrow> u64 \<Rightarrow> ('t, 'k, 'f) message"
where
  "call_message ti ev f pid =
     Function_Call (qf_fun f) \<lparr>ci_thread = 0, ci_obj = ti_obj ti, ci_proc = ti_proc ti\<rparr>
       \<lparr>ti_obj = object_id (the (call_target ev f)), ti_proc = pid\<rparr>"

definition calls_located :: "('t, 'k, 'f) event \<Rightarrow> bool" where
  "calls_located ev \<longleftrightarrow>
     (\<forall>f \<in> set (function_q ev). \<exists>l. call_target ev f = Some l \<and> 0 \<in> set (thread_id l))"

lemma call_target_global [simp]: "call_target (global_to_local g l ev) f = call_target ev f"
  by (simp add: call_target_def global_to_local_def slots_def)

lemma queued_function_step_single:
  assumes "single w" "call_target ev f = Some l" "0 \<in> set (thread_id l)"
  shows "\<exists>w'. queued_function_step ti f (ev, w) =
      Inr (global_to_local (fst (draw_proc w)) (qf_local_id f) ev, w') \<and>
    own_queue w' = own_queue w @ [call_message ti ev f (fst (draw_proc w))] \<and> single w' \<and>
    tids w' = tids (snd (draw_proc w)) \<and> blocks w' = blocks (snd (draw_proc w)) \<and>
    ev_mem w' = ev_mem w \<and> ctxs w' = ctxs w \<and> payloads w' = payloads w \<and> (\<forall>i. obj_ptr i w' = obj_ptr i w)"
proof -
  obtain e where e: "qf_vidx f < length (slots (qf_idx f) ev)"
      "slots (qf_idx f) ev ! qf_vidx f = Some e" "ev_locator e = Some l"
    using assms(2) by (auto simp: call_target_def bind_eq_Some_conv split: if_splits)
  have "self_thread w = 0" using assms(1) by (simp add: single_def)
  moreover have "find_target_thread (thread_id l) w = Inr 0" using assms by simp
  ultimately show ?thesis
    using e assms
    by (simp add: queued_function_step_def get_evinfo_def case_prod_beta push_single call_message_def)
      (simp add: upd_obj_def draw_proc_def obj_ptr_def map_at_def split_beta split: option.split)
qed

lemma queued_functions_single:
  assumes "single w" "\<And>f. f \<in> set fs \<Longrightarrow> \<exists>l. call_target ev f = Some l \<and> 0 \<in> set (thread_id l)"
  shows "\<exists>w'. efold (queued_function_step ti) fs (ev, w) =
      Inr (fold (\<lambda>(g, l). global_to_local g l) (zip (draw_procs (length fs) w) (map qf_local_id fs)) ev, w') \<and>
    own_queue w' = own_queue w @ map2 (call_message ti ev) fs (draw_procs (length fs) w) \<and> single w'"
  using assms
proof (induction fs arbitrary: ev w)
  case Nil
  then show ?case by simp
next
  case (Cons f fs)
  obtain l where l: "call_target ev f = Some l" "0 \<in> set (thread_id l)"
    using Cons.prems(2) [of f] by auto
  from queued_function_step_single [OF Cons.prems(1) l, of ti] obtain w1 where w1:
    "queued_function_step ti f (ev, w) = Inr (global_to_local (fst (draw_proc w)) (qf_local_id f) ev, w1)"
    "own_queue w1 = own_queue w @ [call_message ti ev f (fst (draw_proc w))]" "single w1"
    "tids w1 = tids (snd (draw_proc w))" "blocks w1 = blocks (snd (draw_proc w))" by blast
  have same: "call_message ti (global_to_local g l' ev) = call_message ti ev" for g l'
    by (intro ext) (simp add: call_message_def)
  have "\<exists>l. call_target (global_to_local (fst (draw_proc w)) (qf_local_id f) ev) f' = Some l \<and> 0 \<in> set (thread_id l)"
    if "f' \<in> set fs" for f'
    using Cons.prems(2) [of f'] that by simp
  from Cons.IH [OF w1(3) this] obtain w' where
    "efold (queued_function_step ti) fs (global_to_local (fst (draw_proc w)) (qf_local_id f) ev, w1) =
      Inr (fold (\<lambda>(g, l). global_to_local g l) (zip (draw_procs (length fs) w1) (map qf_local_id fs))
        (global_to_local (fst (draw_proc w)) (qf_local_id f) ev), w')"
    "own_queue w' = own_queue w1 @ map2 (call_message ti ev) fs (draw_procs (length fs) w1)" "single w'"
    unfolding same by blast
  then show ?case
    using w1(1,2) by (intro exI [of _ w']) (simp add: split_beta [of _ "draw_proc w"] draws_depend [OF w1(4,5)])
qed

text \<open>
  C25: On the single worker thread, every call a handler queued on a located child
  becomes exactly one message, in the order of the calls and behind everything already in the
  work queue.  The procedure ids of the messages are fresh and pairwise different, the caller they
  name is the running procedure, and afterwards the object translates each local id to its
  procedure id and back.
\<close>

theorem queued_calls_become_messages:
  assumes "single w" "calls_located ev" "distinct (map qf_local_id (function_q ev))"
    and "pool_inv (proc_pool rids h w)" "length (function_q ev) \<le> pool_room (proc_pool rids h w)"
  shows "\<exists>pids ev' w'. process_queued_function ti (ev, w) = Inr (ev', w') \<and>
    own_queue w' = own_queue w @ map2 (call_message ti ev) (function_q ev) pids \<and>
    length pids = length (function_q ev) \<and> distinct pids \<and> set pids \<inter> h = {} \<and> no_id \<notin> set pids \<and>
    (\<forall>(g, l) \<in> set (zip pids (map qf_local_id (function_q ev))).
       translate_proc_local l ev' = g \<and> translate_proc_global g ev' = l)"
proof -
  let ?fs = "function_q ev"
  let ?pids = "draw_procs (length ?fs) w"
  let ?ev' = "fold (\<lambda>(g, l). global_to_local g l) (zip ?pids (map qf_local_id ?fs)) ev"
  note fresh = draw_procs_fresh [OF assms(4,5)]
  obtain w' where w': "efold (queued_function_step ti) ?fs (ev, w) = Inr (?ev', w')"
    "own_queue w' = own_queue w @ map2 (call_message ti ev) ?fs ?pids"
    using queued_functions_single [OF assms(1), of ?fs ev ti] assms(2) by (auto simp: calls_located_def)
  have "?ev' = proc_ids.adds (zip ?pids (map qf_local_id ?fs)) ev"
    by (rule fold_global_to_local)
  moreover have "translate_proc_local l (proc_ids.adds (zip ?pids (map qf_local_id ?fs)) ev) = g \<and>
      translate_proc_global g (proc_ids.adds (zip ?pids (map qf_local_id ?fs)) ev) = l"
    if "(g, l) \<in> set (zip ?pids (map qf_local_id ?fs))" for g l
    using that fresh assms(3) by (intro proc_ids.adds_inverse) simp_all
  ultimately have "\<forall>(g, l) \<in> set (zip ?pids (map qf_local_id ?fs)).
      translate_proc_local l ?ev' = g \<and> translate_proc_global g ?ev' = l"
    by (simp only: split_beta) force
  then show ?thesis
    using w' fresh by (intro exI [of _ ?pids] exI [of _ ?ev'] exI [of _ w']) (simp add: process_queued_function_def)
qed

definition demo_event :: "(nat, nat, nat) event" where
  "demo_event = snd (c_at 0 0 5 (snd (c_at 0 0 3 (set_slots 0
     [Some \<lparr>ev_locator = Some \<lparr>object_id = 7, thread_id = [0]\<rparr>, ev_event = None\<rparr>]
     (new_event empty_uring_data)))))"

lemma init_pools:
  "proc_pool init_thread_ids {} (init_world 1 0) = init_pool 2"
  "obj_pool init_thread_ids {} (init_world 1 0) = init_pool 2"
  by (simp_all add: proc_pool_def obj_pool_def init_world_def init_pool_def init_thread_ids_def
      init_blocks_def numeral_2_eq_2)

lemma init_pool_room [simp]: "pool_room (init_pool n) = max_blocks"
  by (simp add: pool_room_def init_pool_def)

lemma queued_calls_become_messages_witness:
  "\<exists>pids ev' w'. process_queued_function \<lparr>ti_obj = 4, ti_proc = 9\<rparr>
       (demo_event, init_world 1 0 :: (nat, nat, nat, unit) world) = Inr (ev', w') \<and>
     own_queue w' = map2 (call_message \<lparr>ti_obj = 4, ti_proc = 9\<rparr> demo_event) (function_q demo_event) pids \<and>
     length pids = 2 \<and> distinct pids"
proof -
  let ?w = "init_world 1 0 :: (nat, nat, nat, unit) world"
  have "calls_located demo_event" "distinct (map qf_local_id (function_q demo_event))"
    and len: "length (function_q demo_event) = 2"
    by (simp_all add: calls_located_def call_target_def demo_event_def c_at_def set_slots_def slots_def
        new_event_def empty_uring_data_def map_at_def Let_def)
  moreover have "pool_inv (proc_pool init_thread_ids {} ?w)"
    "length (function_q demo_event) \<le> pool_room (proc_pool init_thread_ids {} ?w)"
    using len by (simp_all only: init_pools init_pool_inv init_pool_room) (simp_all add: max_blocks_def)
  ultimately obtain pids ev' w' where
    r: "process_queued_function \<lparr>ti_obj = 4, ti_proc = 9\<rparr> (demo_event, ?w) = Inr (ev', w')"
    "own_queue w' = own_queue ?w @ map2 (call_message \<lparr>ti_obj = 4, ti_proc = 9\<rparr> demo_event) (function_q demo_event) pids"
    "length pids = length (function_q demo_event)" "distinct pids"
    using queued_calls_become_messages [OF init_single, of demo_event init_thread_ids "{}"] by blast
  moreover have "own_queue ?w = []" by (simp add: own_queue_def init_world_def)
  ultimately show ?thesis using len by (intro exI [of _ pids] exI [of _ ev'] exI [of _ w']) simp
qed

section \<open>Queued constructions\<close>

definition construct_message ::
  "target_info \<Rightarrow> nat \<Rightarrow> ('t, 'k) queued_construct \<Rightarrow> u64 \<Rightarrow> ('t, 'k, 'f) message"
where
  "construct_message ti ctx c oid =
     Constructor_Call (Child_Ctor (qc_fun c) (ti_obj ti) (qc_idx c) (qc_vidx c))
       \<lparr>ci_thread = 0, ci_obj = ti_obj ti, ci_proc = ti_proc ti\<rparr> \<lparr>ti_obj = oid, ti_proc = no_id\<rparr>
       (if qc_shared c then Some ctx else None)"

definition slot_of :: "'t \<times> nat \<Rightarrow> ('t, 'k, 'f) event \<Rightarrow> event_info option" where
  "slot_of p ev = (if snd p < length (slots (fst p) ev) then slots (fst p) ev ! snd p else None)"

definition qc_place :: "('t, 'k) queued_construct \<Rightarrow> 't \<times> nat" where
  "qc_place c = (qc_idx c, qc_vidx c)"

definition located_at :: "('t, 'k, 'f) event \<Rightarrow> 't \<times> nat \<Rightarrow> u64 \<Rightarrow> bool" where
  "located_at ev p oid \<longleftrightarrow>
     map_option ev_locator (slot_of p ev) = Some (Some \<lparr>object_id = oid, thread_id = [0]\<rparr>)"

lemma slot_of_set_slots:
  "i < length (slots ty ev) \<Longrightarrow>
     slot_of p (set_slots ty ((slots ty ev)[i := v]) ev) = (if p = (ty, i) then v else slot_of p ev)"
  by (cases p; cases "fst p = ty") (auto simp: slot_of_def nth_list_update)

lemma queued_construct_step_single:
  assumes "single w" "slot_of (qc_place c) ev \<noteq> None"
  shows "\<exists>ev' w'. queued_construct_step ti (c, if qc_shared c then Some ctx else None) (ev, w) = Inr (ev', w') \<and>
    own_queue w' = own_queue w @ [construct_message ti ctx c (fst (draw_obj w))] \<and> single w' \<and>
    located_at ev' (qc_place c) (fst (draw_obj w)) \<and>
    (\<forall>p. p \<noteq> qc_place c \<longrightarrow> slot_of p ev' = slot_of p ev) \<and>
    tids w' = tids (snd (draw_obj w)) \<and> blocks w' = blocks (snd (draw_obj w))"
proof -
  obtain e where e: "qc_vidx c < length (slots (qc_idx c) ev)"
      "slots (qc_idx c) ev ! qc_vidx c = Some e"
    using assms(2) by (auto simp: slot_of_def qc_place_def split: if_splits)
  let ?e' = "e\<lparr>ev_locator := Some \<lparr>object_id = fst (draw_obj w), thread_id = [0]\<rparr>\<rparr>"
  let ?ev' = "set_slots (qc_idx c) ((slots (qc_idx c) ev)[qc_vidx c := Some ?e']) ev"
  have "located_at ?ev' (qc_place c) (fst (draw_obj w))"
    "\<forall>p. p \<noteq> qc_place c \<longrightarrow> slot_of p ?ev' = slot_of p ev"
    using e(1) by (simp_all add: located_at_def qc_place_def slot_of_set_slots)
  moreover have "self_thread w = 0" using assms(1) by (simp add: single_def)
  ultimately show ?thesis
    using e assms(1)
    by (simp add: queued_construct_step_def get_evinfo_def case_prod_beta push_single construct_message_def)
      (simp add: upd_obj_def)
qed

lemma queued_constructs_single:
  assumes "single w" "\<And>c. c \<in> set cs \<Longrightarrow> slot_of (qc_place c) ev \<noteq> None" "distinct (map qc_place cs)"
  shows "\<exists>ev' w'. efold (queued_construct_step ti) (map (\<lambda>c. (c, if qc_shared c then Some ctx else None)) cs) (ev, w)
      = Inr (ev', w') \<and> single w' \<and>
    own_queue w' = own_queue w @ map2 (construct_message ti ctx) cs (draw_objs (length cs) w) \<and>
    (\<forall>(p, i) \<in> set (zip (map qc_place cs) (draw_objs (length cs) w)). located_at ev' p i) \<and>
    (\<forall>p. p \<notin> qc_place ` set cs \<longrightarrow> slot_of p ev' = slot_of p ev)"
  using assms
proof (induction cs arbitrary: ev w)
  case Nil
  then show ?case by simp
next
  case (Cons c cs)
  have "slot_of (qc_place c) ev \<noteq> None" using Cons.prems(2) by simp
  from queued_construct_step_single [OF Cons.prems(1) this, of ti ctx] obtain ev1 w1 where w1:
    "queued_construct_step ti (c, if qc_shared c then Some ctx else None) (ev, w) = Inr (ev1, w1)"
    "own_queue w1 = own_queue w @ [construct_message ti ctx c (fst (draw_obj w))]" "single w1"
    "located_at ev1 (qc_place c) (fst (draw_obj w))"
    "\<forall>p. p \<noteq> qc_place c \<longrightarrow> slot_of p ev1 = slot_of p ev"
    "tids w1 = tids (snd (draw_obj w))" "blocks w1 = blocks (snd (draw_obj w))" by blast
  have notin: "qc_place c \<notin> qc_place ` set cs" using Cons.prems(3) by simp
  have "slot_of (qc_place c') ev1 \<noteq> None" if "c' \<in> set cs" for c'
  proof -
    have "qc_place c' \<in> qc_place ` set cs" using that by (rule imageI)
    then have "qc_place c' \<noteq> qc_place c" using notin by metis
    then have "slot_of (qc_place c') ev1 = slot_of (qc_place c') ev" by (rule w1(5) [rule_format])
    then show ?thesis using Cons.prems(2) [of c'] that by simp
  qed
  moreover have "distinct (map qc_place cs)" using Cons.prems(3) by simp
  ultimately obtain ev' w' where w':
    "efold (queued_construct_step ti) (map (\<lambda>c. (c, if qc_shared c then Some ctx else None)) cs) (ev1, w1) = Inr (ev', w')"
    "single w'" "own_queue w' = own_queue w1 @ map2 (construct_message ti ctx) cs (draw_objs (length cs) w1)"
    "\<forall>(p, i) \<in> set (zip (map qc_place cs) (draw_objs (length cs) w1)). located_at ev' p i"
    "\<forall>p. p \<notin> qc_place ` set cs \<longrightarrow> slot_of p ev' = slot_of p ev1"
    using Cons.IH [OF w1(3), of ev1] by blast
  have "located_at ev' (qc_place c) (fst (draw_obj w))"
    using w1(4) w'(5) [rule_format, OF notin] by (simp add: located_at_def)
  then show ?case
    using w1(1,2,5) w' notin
    by (intro exI [of _ ev'] exI [of _ w'])
      (simp add: split_beta [of _ "draw_obj w"] draws_depend [OF w1(6,7)])
qed

text \<open>
  On the single worker thread, every queued construction whose slot is still
  occupied becomes one constructor message with a fresh object id, in order, and the slot is
  located at that id on this thread; the other slots do not change.
\<close>

theorem queued_constructs_become_messages:
  assumes "single w" "\<And>c. c \<in> set (construct_q ev) \<Longrightarrow> slot_of (qc_place c) ev \<noteq> None"
    and "distinct (map qc_place (construct_q ev))"
    and "pool_inv (obj_pool rids h w)" "length (construct_q ev) \<le> pool_room (obj_pool rids h w)"
  shows "\<exists>oids ev' w'. process_queued_construct ti ctx (ev, w) = Inr (ev', w') \<and>
    own_queue w' = own_queue w @ map2 (construct_message ti ctx) (construct_q ev) oids \<and>
    length oids = length (construct_q ev) \<and> distinct oids \<and> set oids \<inter> h = {} \<and> no_id \<notin> set oids \<and>
    (\<forall>(p, i) \<in> set (zip (map qc_place (construct_q ev)) oids). located_at ev' p i) \<and>
    (\<forall>p. p \<notin> qc_place ` set (construct_q ev) \<longrightarrow> slot_of p ev' = slot_of p ev)"
  using queued_constructs_single [OF assms(1,2,3), of ti ctx] draw_objs_fresh [OF assms(4,5)]
  unfolding process_queued_construct_def prod.case by blast

lemma queued_constructs_become_messages_witness:
  "\<exists>oids ev' w'. process_queued_construct \<lparr>ti_obj = 4, ti_proc = 9\<rparr> 0
       (snd (construct_list [(0, False, 3), (1, True, 5)] (new_event empty_uring_data)),
        init_world 1 0 :: (nat, nat, nat, unit) world) = Inr (ev', w') \<and>
     length (own_queue w') = 2 \<and> length oids = 2 \<and> located_at ev' (0, 0) (oids ! 0) \<and> located_at ev' (1, 0) (oids ! 1)"
proof -
  let ?w = "init_world 1 0 :: (nat, nat, nat, unit) world"
  let ?ev = "snd (construct_list [(0, False, 3), (1, True, 5)] (new_event empty_uring_data)) :: (nat, nat, nat) event"
  have q: "construct_q ?ev = [\<lparr>qc_idx = 0, qc_vidx = 0, qc_fun = 3, qc_shared = False\<rparr>,
      \<lparr>qc_idx = 1, qc_vidx = 0, qc_fun = 5, qc_shared = True\<rparr>]"
    "slot_of (0, 0) ?ev \<noteq> None" "slot_of (1, 0) ?ev \<noteq> None"
    by (simp_all add: construct_ev_def set_slots_def slots_def slot_of_def new_event_def empty_uring_data_def
        map_at_def Let_def)
  then have "\<And>c. c \<in> set (construct_q ?ev) \<Longrightarrow> slot_of (qc_place c) ?ev \<noteq> None"
    "distinct (map qc_place (construct_q ?ev))"
    by (auto simp: qc_place_def)
  moreover have "pool_inv (obj_pool init_thread_ids {} ?w)"
    "length (construct_q ?ev) \<le> pool_room (obj_pool init_thread_ids {} ?w)"
    using q by (simp_all only: init_pools init_pool_inv init_pool_room) (simp_all add: max_blocks_def)
  ultimately obtain oids ev' w' where r: "process_queued_construct \<lparr>ti_obj = 4, ti_proc = 9\<rparr> 0 (?ev, ?w) = Inr (ev', w')"
    "own_queue w' = own_queue ?w @ map2 (construct_message \<lparr>ti_obj = 4, ti_proc = 9\<rparr> 0) (construct_q ?ev) oids"
    "length oids = length (construct_q ?ev)"
    "\<forall>(p, i) \<in> set (zip (map qc_place (construct_q ?ev)) oids). located_at ev' p i"
    using queued_constructs_become_messages [OF init_single, of ?ev init_thread_ids "{}" "\<lparr>ti_obj = 4, ti_proc = 9\<rparr>" 0]
    by blast
  then obtain a b where "oids = [a, b]" using q(1) by (auto simp: length_Suc_conv)
  then show ?thesis using r unfolding q(1) by (intro exI [of _ oids]) (simp add: qc_place_def own_queue_def init_world_def)
qed

end
