(* ===== verification/Sched_Flow.thy ===== *)
theory Sched_Flow
  imports Sched_Props
begin

text \<open>
  How results, data, deletions, requests and timers travel through the scheduler: from the end of
  a call to its caller, from the ring to the object that asked, and from a deleted object to its
  children.
\<close>

section \<open>Reading and writing objects\<close>

lemma mem_upd [simp]:
  "ev_mem (upd_obj j g w) = ev_mem w" "ctxs (upd_obj j g w) = ctxs w"
  "ev_mem (upd_call q h w) = ev_mem w" "ctxs (upd_call q h w) = ctxs w"
  "ev_mem (touch_obj j w) = ev_mem w" "ctxs (touch_obj j w) = ctxs w"
  "ev_mem (submit w) = ev_mem w" "ctxs (submit w) = ctxs w"
  "ev_mem (snd (draw_proc w)) = ev_mem w" "ctxs (snd (draw_proc w)) = ctxs w"
  by (simp_all add: upd_obj_def upd_call_def touch_obj_def submit_def draw_proc_def split: prod.split)

lemma load_event_cong:
  assumes "ev_mem w' = ev_mem w" "ctxs w' = ctxs w"
  shows "load_event p w' = load_event p w"
  unfolding load_event_def assms ..

lemma load_event_upd [simp]:
  "load_event p (upd_obj i g w) = load_event p w"
  "load_event p (upd_call q h w) = load_event p w"
  "load_event p (touch_obj i w) = load_event p w"
  "load_event p (w\<lparr>payloads := os\<rparr>) = load_event p w"
  "load_event p (w\<lparr>queues := qs\<rparr>) = load_event p w"
  "load_event p (submit w) = load_event p w"
  "load_event p (snd (draw_proc w)) = load_event p w"
  by (rule load_event_cong; simp)+

text \<open>Object \<open>i\<close> exists and its event is \<open>ev\<close>, stored with context \<open>c\<close>.\<close>

definition live :: "('t, 'k, 'f, 'o) world \<Rightarrow> u64 \<Rightarrow> nat \<Rightarrow> ('t, 'k, 'f) event \<Rightarrow> bool" where
  "live w i c ev \<longleftrightarrow> obj_ptr i w = Some i \<and> load_event (Some i) w = Inr (i, ev) \<and>
     map_option snd (ev_mem w i) = Some c"

lemma live_store:
  assumes "live w i c ev"
  shows "live (store_event i ev' w) i c ev'"
  using assms by (auto simp: live_def load_event_def store_event_def obj_ptr_def split: option.splits prod.splits)

lemma live_store_other:
  assumes "live w i c ev" "live w i' c' ev'" "i \<noteq> i'" "c \<noteq> c'"
  shows "live (store_event i' ev'' w) i c ev"
  using assms by (auto simp: live_def load_event_def store_event_def obj_ptr_def split: option.splits prod.splits)

lemma obj_ptr_upd [simp]:
  "(\<And>d. od_ptr (g d) = od_ptr d) \<Longrightarrow> obj_ptr i (upd_obj j g w) = obj_ptr i w"
  "obj_ptr i (upd_call q h w) = obj_ptr i w"
  "obj_ptr i (touch_obj j w) = obj_ptr i w"
  "obj_ptr i (w\<lparr>payloads := os\<rparr>) = obj_ptr i w"
  "obj_ptr i (w\<lparr>queues := qs\<rparr>) = obj_ptr i w"
  "obj_ptr i (submit w) = obj_ptr i w"
  "obj_ptr i (snd (draw_proc w)) = obj_ptr i w"
  "obj_ptr i (store_event j ev w) = obj_ptr i w"
  by (auto simp: obj_ptr_def upd_obj_def upd_call_def touch_obj_def submit_def draw_proc_def
      store_event_def map_at_def map_touch_def split: option.split prod.split)

lemma live_upd [simp]:
  "(\<And>d. od_ptr (g d) = od_ptr d) \<Longrightarrow> live (upd_obj j g w) i c ev = live w i c ev"
  "live (upd_call q h w) i c ev = live w i c ev"
  "live (touch_obj j w) i c ev = live w i c ev"
  "live (w\<lparr>payloads := os\<rparr>) i c ev = live w i c ev"
  "live (w\<lparr>queues := qs\<rparr>) i c ev = live w i c ev"
  "live (submit w) i c ev = live w i c ev"
  "live (snd (draw_proc w)) i c ev = live w i c ev"
  by (simp_all add: live_def)

definition idle :: "('t, 'k, 'f) event \<Rightarrow> bool" where
  "idle ev \<longleftrightarrow> construct_q ev = [] \<and> function_q ev = [] \<and> uring_q ev = [] \<and> timer_q ev = [] \<and>
     delete_q ev = [] \<and> attach_q ev = []"

lemma idle_clear [simp]: "idle ev \<Longrightarrow> clear ev = ev" "idle (clear ev)"
  by (cases ev; simp add: idle_def clear_def)+

text \<open>An object that queued nothing is left as it is.\<close>

lemma process_queued_idle:
  assumes "live w i c ev" "idle ev"
  shows "process_queued (Some i) ti w = Inr (store_event i ev w)"
  using assms
  unfolding process_queued_def live_def
  by (auto simp: process_queued_event_def process_queued_construct_def
      process_queued_function_def process_queued_uring_def process_queued_timers_def
      process_queued_delete_def process_queued_attach_def) (simp_all add: idle_def)

section \<open>Calls and their completions\<close>

text \<open>The completion a caller gets.\<close>

definition completion_for ::
  "caller_info \<Rightarrow> target_info \<Rightarrow> int \<Rightarrow> bool \<Rightarrow> int \<Rightarrow> ('t, 'k, 'f) message"
where
  "completion_for ci ti th failed code =
     Data_Msg \<lparr>ci_thread = th, ci_obj = ti_obj ti, ci_proc = ti_proc ti\<rparr>
       \<lparr>ti_obj = ci_obj ci, ti_proc = ci_proc ci\<rparr>
       (ChildTaskCompletion (ci_proc ci) (ti_proc ti) (if failed then Failed else Finished) code)"

lemma call_of_upd [simp]: "call_of p (upd_call p h w) = h (call_of p w)"
  by (simp add: call_of_def upd_call_def map_at_def)

lemma call_of_other [simp]:
  "call_of p (w\<lparr>queues := qs\<rparr>) = call_of p w"
  "call_of p (w\<lparr>payloads := os\<rparr>) = call_of p w"
  "call_of p (store_event i ev w) = call_of p w"
  by (auto simp: call_of_def store_event_def split: option.split)

lemma call_of_submit: "call_of p (submit w) = call_of p w"
  by (simp add: call_of_def submit_def)

lemma run_body_live:
  assumes "live w i c ev" "body i (payloads w) ev = Inr (r, os, ev')"
  shows "run_body body (Some i) w = Inr (r, store_event i ev' (w\<lparr>payloads := os\<rparr>))"
  using assms by (simp add: run_body_def live_def)

lemma payloads_upd [simp]:
  "payloads (upd_obj j g w) = payloads w"
  "payloads (upd_call q h w) = payloads w"
  "payloads (submit w) = payloads w"
  "payloads (store_event i ev w) = payloads w"
  by (auto simp: upd_obj_def upd_call_def submit_def store_event_def split: option.split)

text \<open>The world after a call whose body queued nothing, before the completion is sent.\<close>

definition called :: "u64 \<Rightarrow> u64 \<Rightarrow> caller_info \<Rightarrow> (u64 \<rightharpoonup> 'o) \<Rightarrow> ('t, 'k, 'f) event \<Rightarrow>
    ('t, 'k, 'f, 'o) world \<Rightarrow> ('t, 'k, 'f, 'o) world" where
  "called i p ci os ev w =
     store_event i ev (store_event i ev
       ((upd_call p (\<lambda>c. c\<lparr>assoc_obj := i, back_notify := (ci_thread ci, ci_obj ci, ci_proc ci),
                          cd_status := Running\<rparr>)
         (upd_obj i (\<lambda>d. d\<lparr>assoc_procs := assoc_procs d @ [p]\<rparr>) w))\<lparr>payloads := os\<rparr>))"

lemma single_called [simp]: "single (called i p ci os ev w) = single w"
  by (simp add: called_def)

lemma own_queue_called [simp]: "own_queue (called i p ci os ev w) = own_queue w"
  by (simp add: called_def)

lemma live_called_other:
  assumes "live w i c ev" "live w i' c' ev'" "i \<noteq> i'" "c \<noteq> c'"
  shows "live (called i' p ci os ev'' w) i c ev"
proof -
  let ?w = "(upd_call p (\<lambda>c. c\<lparr>assoc_obj := i', back_notify := (ci_thread ci, ci_obj ci, ci_proc ci),
      cd_status := Running\<rparr>) (upd_obj i' (\<lambda>d. d\<lparr>assoc_procs := assoc_procs d @ [p]\<rparr>) w))\<lparr>payloads := os\<rparr>"
  have "live ?w i c ev" "live ?w i' c' ev'" using assms by simp_all
  then show ?thesis unfolding called_def using assms(3,4) by (blast intro: live_store_other live_store)
qed

lemma function_call_idle:
  assumes "live w i c ev"
    and "cl_invoke cl f i p (payloads w) ev = Inr (resp, os, ev')" "idle ev'"
  shows "function_call cl f ci \<lparr>ti_obj = i, ti_proc = p\<rparr> w =
    (let w5 = upd_call p (\<lambda>c. c\<lparr>cd_op_hint := op_hint resp, cd_description := description resp,
                cd_status := if success resp then Running else Degraded\<rparr>) (called i p ci os ev' w)
     in case ret resp of
          None \<Rightarrow> Inr w5
        | Some (failed, code) \<Rightarrow>
            let w6 = upd_call p (\<lambda>c. c\<lparr>cd_status := if failed then Failed else Finished,
                       cd_return_code := code\<rparr>) w5
            in if length (queues w6) \<le> unat (int_to_size (ci_thread ci)) then Inr w6
               else push_msg (ci_thread ci)
                 (completion_for ci \<lparr>ti_obj = i, ti_proc = p\<rparr> (self_thread w6) failed code) w6)"
proof -
  let ?w2 = "upd_call p (\<lambda>c. c\<lparr>assoc_obj := i, back_notify := (ci_thread ci, ci_obj ci, ci_proc ci),
      cd_status := Running\<rparr>) (upd_obj i (\<lambda>d. d\<lparr>assoc_procs := assoc_procs d @ [p]\<rparr>) w)"
  have l: "live ?w2 i c ev" using assms(1) by simp
  then have "obj_ptr i ?w2 = Some i" by (simp add: live_def)
  moreover have "run_body (\<lambda>i. cl_invoke cl f i p) (Some i) ?w2 =
      Inr (resp, store_event i ev' (?w2\<lparr>payloads := os\<rparr>))"
    using assms(2) by (intro run_body_live [OF l]) simp
  moreover have "process_queued (Some i) \<lparr>ti_obj = i, ti_proc = p\<rparr> (store_event i ev' (?w2\<lparr>payloads := os\<rparr>)) =
      Inr (called i p ci os ev' w)"
    unfolding called_def using l assms(3) by (intro process_queued_idle [of _ i c] live_store [of _ _ c ev]) simp_all
  ultimately show ?thesis
    by (simp add: function_call_def completion_for_def Let_def split: option.split prod.split)
qed

text \<open>A call that returns a result at once: the final record and the completion it sends.\<close>

definition finished ::
  "u64 \<Rightarrow> call_response \<Rightarrow> bool \<Rightarrow> int \<Rightarrow> ('t, 'k, 'f, 'o) world \<Rightarrow> ('t, 'k, 'f, 'o) world"
where
  "finished p resp failed code w =
     upd_call p (\<lambda>c. c\<lparr>cd_status := if failed then Failed else Finished, cd_return_code := code\<rparr>)
       (upd_call p (\<lambda>c. c\<lparr>cd_op_hint := op_hint resp, cd_description := description resp,
          cd_status := if success resp then Running else Degraded\<rparr>) w)"

lemma function_call_finished:
  assumes "live w i c ev" "single w"
    and "cl_invoke cl f i p (payloads w) ev = Inr (resp, os, ev')" "idle ev'"
    and "ret resp = Some (failed, code)" "ci_thread ci = 0"
  shows "function_call cl f ci \<lparr>ti_obj = i, ti_proc = p\<rparr> w =
    Inr (finished p resp failed code (called i p ci os ev' w)
      \<lparr>queues := [own_queue w @ [completion_for ci \<lparr>ti_obj = i, ti_proc = p\<rparr> 0 failed code]]\<rparr>)"
proof -
  define w6 where "w6 = finished p resp failed code (called i p ci os ev' w)"
  have s: "single w6" "own_queue w6 = own_queue w" using assms(2) by (simp_all add: w6_def finished_def)
  then have "self_thread w6 = 0" "length (queues w6) = 1" by (simp_all add: single_def)
  moreover note push_single [OF s(1), of "completion_for ci \<lparr>ti_obj = i, ti_proc = p\<rparr> 0 failed code"] s(2)
  ultimately show ?thesis
    unfolding function_call_idle [OF assms(1,3,4)] Let_def assms(5,6) option.case prod.case
      finished_def [symmetric] w6_def [symmetric]
    by (simp add: int_to_size_def)
qed

lemma finished_simps [simp]:
  "single (finished p resp failed code w) = single w"
  "own_queue (finished p resp failed code w) = own_queue w"
  "live (finished p resp failed code w) i c ev = live w i c ev"
  by (simp_all add: finished_def)

lemma c_at_result:
  assumes "c_at ty idx f ev = (l, ev')" "idle ev"
  shows "function_q ev' = [\<lparr>qf_idx = ty, qf_vidx = idx, qf_local_id = l, qf_fun = f\<rparr>]"
    "slot_of q ev' = slot_of q ev" "construct_q ev' = []" "uring_q ev' = []" "timer_q ev' = []"
    "delete_q ev' = []" "attach_q ev' = []"
  using assms by (auto simp: c_at_def Let_def idle_def slot_of_def slots_def)

text \<open>
  C1: A call of a child by a running procedure, end to end on the single worker thread:
  the call is queued under a local id, the child's body runs next and finishes, and the one
  message then in the work queue is the completion for the calling procedure; translated for the
  caller's \<^verbatim>\<open>on_yield\<close> it names the local id that \<^verbatim>\<open>c\<close> returned, with the status and return code of
  the child.  The finished call is recorded under its procedure id.
\<close>

theorem child_call_completes:
  assumes w: "single w" "own_queue w = []"
    and p: "live w p cp evp" "idle evp" and c: "live w c cc evc" "p \<noteq> c" "cp \<noteq> cc"
    and slot: "slot_of (ty, idx) evp = Some info" "ev_locator info = Some \<lparr>object_id = c, thread_id = [0]\<rparr>"
    and body: "\<And>pid. cl_invoke cl f c pid (payloads w) evc =
      Inr (\<lparr>description = desc, success = ok, ret = Some (failed, code), op_hint = hint\<rparr>, os, evc')" "idle evc'"
    and l: "c_at ty idx f evp = (l, evp')"
  shows "\<exists>w2 w3 w4 pid. process_queued (Some p) \<lparr>ti_obj = p, ti_proc = pr\<rparr> (store_event p evp' w) = Inr w2 \<and>
    handle_dequeue cl w2 = Inr (True, w3) \<and>
    own_queue w3 = [completion_for \<lparr>ci_thread = 0, ci_obj = p, ci_proc = pr\<rparr>
                      \<lparr>ti_obj = c, ti_proc = pid\<rparr> 0 failed code] \<and>
    map_data (ChildTaskCompletion pr pid (if failed then Failed else Finished) code) (Some p) w3 =
      Inr (ChildTaskCompletion pr l (if failed then Failed else Finished) code, w4) \<and>
    cd_status (call_of pid w3) = (if failed then Failed else Finished) \<and>
    cd_return_code (call_of pid w3) = code \<and> assoc_obj (call_of pid w3) = c"
proof -
  let ?q = "\<lparr>qf_idx = ty, qf_vidx = idx, qf_local_id = l, qf_fun = f\<rparr>"
  let ?w1 = "store_event p evp' w" and ?ti = "\<lparr>ti_obj = p, ti_proc = pr\<rparr>"
  let ?pid = "fst (draw_proc ?w1)"
  let ?evp2 = "clear (global_to_local ?pid l evp')"
  let ?ci = "\<lparr>ci_thread = 0, ci_obj = p, ci_proc = pr\<rparr>"
  note evp' = c_at_result [OF l p(2)]
  have tgt: "call_target evp' ?q = Some \<lparr>object_id = c, thread_id = [0]\<rparr>"
    using evp'(2) [of "(ty, idx)"] slot by (auto simp: call_target_def slot_of_def split: if_splits)
  have lp1: "live ?w1 p cp evp'" and lc1: "live ?w1 c cc evc"
    using p(1) c live_store live_store_other by (blast, metis)
  obtain wa where wa: "queued_function_step ?ti ?q (evp', ?w1) = Inr (global_to_local ?pid l evp', wa)"
      "own_queue wa = own_queue ?w1 @ [call_message ?ti evp' ?q ?pid]" "single wa"
      "ev_mem wa = ev_mem ?w1" "ctxs wa = ctxs ?w1" "payloads wa = payloads ?w1"
      "\<forall>i. obj_ptr i wa = obj_ptr i ?w1"
    using queued_function_step_single [of ?w1 evp' ?q "\<lparr>object_id = c, thread_id = [0]\<rparr>" ?ti] w tgt by auto
  have lpa: "live wa p cp evp'" and lca: "live wa c cc evc"
    using lp1 lc1 wa(4,7) load_event_cong [OF wa(4,5)] by (simp_all add: live_def)
  let ?w2 = "store_event p ?evp2 wa"
  have pq: "process_queued (Some p) ?ti ?w1 = Inr ?w2"
    using lp1 wa(1) evp'
    by (simp add: process_queued_def live_def process_queued_event_def process_queued_construct_def
        process_queued_function_def process_queued_uring_def process_queued_timers_def
        process_queued_delete_def process_queued_attach_def global_to_local_def)
  have lp2: "live ?w2 p cp ?evp2" and lc2: "live ?w2 c cc evc"
    using lpa lca c(2,3) live_store live_store_other by (blast, metis)
  have q2: "own_queue ?w2 = [Function_Call f ?ci \<lparr>ti_obj = c, ti_proc = ?pid\<rparr>]" "single ?w2"
    using wa(2,3) w tgt by (simp_all add: call_message_def)
  let ?w2' = "?w2\<lparr>queues := [[]]\<rparr>"
  let ?r = "\<lparr>description = desc, success = ok, ret = Some (failed, code), op_hint = hint\<rparr>"
  let ?w6 = "finished ?pid ?r failed code (called c ?pid ?ci os evc' ?w2')"
  let ?m = "completion_for ?ci \<lparr>ti_obj = c, ti_proc = ?pid\<rparr> 0 failed code"
  have lp2': "live ?w2' p cp ?evp2" and lc2': "live ?w2' c cc evc" and s2': "single ?w2'"
    using lp2 lc2 q2(2) by simp_all
  have o2': "own_queue ?w2' = []" using q2(2) by (rule own_queue_upd)
  have "payloads ?w2' = payloads w" using wa(6) by simp
  with body have inv: "cl_invoke cl f c ?pid (payloads ?w2') evc =
      Inr (\<lparr>description = desc, success = ok, ret = Some (failed, code), op_hint = hint\<rparr>, os, evc')" by simp
  have fc: "function_call cl f ?ci \<lparr>ti_obj = c, ti_proc = ?pid\<rparr> ?w2' = Inr (?w6\<lparr>queues := [[?m]]\<rparr>)"
    using function_call_finished [OF lc2' s2' inv body(2), of failed code ?ci] o2' by simp
  let ?w3 = "submit (?w6\<lparr>queues := [[?m]]\<rparr>)"
  have hd: "handle_dequeue cl ?w2 = Inr (True, ?w3)"
    using fc q2 single_queues [OF q2(2)]
    by (simp add: handle_dequeue_def single_def upd_at_def)
  have lp3: "live ?w3 p cp ?evp2"
    using live_called_other [OF lp2' lc2' c(2,3)] by simp
  have own3: "own_queue ?w3 = [?m]" using s2' by simp
  have "translate_proc_global ?pid ?evp2 = l" "global_proc_to_local_proc (uring_data ?evp2) ?pid \<noteq> None"
    by (simp_all add: translate_proc_global_def clear_def global_to_local_def)
  from map_event_data_known [OF this]
  have md: "map_data (ChildTaskCompletion pr ?pid (if failed then Failed else Finished) code) (Some p) ?w3 =
      Inr (ChildTaskCompletion pr l (if failed then Failed else Finished) code, store_event p ?evp2 ?w3)"
    using lp3 by (simp add: map_data_def live_def)
  have "cd_status (call_of ?pid ?w3) = (if failed then Failed else Finished)"
    "cd_return_code (call_of ?pid ?w3) = code" "assoc_obj (call_of ?pid ?w3) = c"
    by (simp_all add: call_of_submit called_def finished_def)
  with pq hd own3 md show ?thesis by blast
qed

text \<open>A parent (object 1) with one located child (object 2), whose member call finishes at once.\<close>

definition demo_parent :: "(nat, nat, nat) event" where
  "demo_parent = set_slots 0 [Some \<lparr>ev_locator = Some \<lparr>object_id = 2, thread_id = [0]\<rparr>, ev_event = Some 2\<rparr>]
     (new_event empty_uring_data)"

definition demo_object :: "u64 \<Rightarrow> object_data" where
  "demo_object i = \<lparr>od_ptr = Some i, assoc_procs = [], parents = [], children = []\<rparr>"

definition demo_world :: "(nat, nat, nat, nat) world" where
  "demo_world = (init_world 1 0)
     \<lparr>obj_info := [1 \<mapsto> demo_object 1, 2 \<mapsto> demo_object 2],
      ev_mem := [1 \<mapsto> (demo_parent, 1), 2 \<mapsto> (new_event empty_uring_data, 2)],
      ctxs := [1 \<mapsto> uring_data demo_parent, 2 \<mapsto> empty_uring_data],
      payloads := [1 \<mapsto> 10, 2 \<mapsto> 20]\<rparr>"

definition demo_classes :: "(nat, nat, nat, nat) classes" where
  "demo_classes =
     \<lparr>cl_construct = (\<lambda>k i os ev. Inr (k, os, ev)),
      cl_invoke = (\<lambda>f i p os ev. Inr (\<lparr>description = ''done'', success = True, ret = Some (False, int f),
                                      op_hint = 0\<rparr>, os(i \<mapsto> f), ev)),
      cl_yield = (\<lambda>d i os ev. Inr (Some (True, 7), os, ev))\<rparr>"

lemma demo_single: "single demo_world" "own_queue demo_world = []"
  by (simp_all add: demo_world_def single_def init_world_def own_queue_def)

lemma demo_live:
  "live demo_world 1 1 demo_parent" "live demo_world 2 2 (new_event empty_uring_data)"
  by (simp_all add: live_def demo_world_def load_event_def obj_ptr_def demo_object_def map_at_def
      new_event_def)

lemma child_call_completes_witness:
  "\<exists>w2 w3 pid. process_queued (Some 1) \<lparr>ti_obj = 1, ti_proc = 50\<rparr>
       (store_event 1 (snd (c_at 0 0 33 demo_parent)) demo_world) = Inr w2 \<and>
     handle_dequeue demo_classes w2 = Inr (True, w3) \<and>
     own_queue w3 = [completion_for \<lparr>ci_thread = 0, ci_obj = 1, ci_proc = 50\<rparr>
       \<lparr>ti_obj = 2, ti_proc = pid\<rparr> 0 False 33]"
proof -
  have i: "idle demo_parent" "idle (new_event empty_uring_data :: (nat, nat, nat) event)"
    by (simp_all add: idle_def demo_parent_def set_slots_def new_event_def)
  have s: "slot_of (0, 0) demo_parent =
      Some \<lparr>ev_locator = Some \<lparr>object_id = 2, thread_id = [0]\<rparr>, ev_event = Some 2\<rparr>"
    by (simp add: slot_of_def demo_parent_def)
  have b: "\<And>pid. cl_invoke demo_classes 33 2 pid (payloads demo_world) (new_event empty_uring_data) =
      Inr (\<lparr>description = ''done'', success = True, ret = Some (False, 33), op_hint = 0\<rparr>,
           (payloads demo_world)(2 \<mapsto> 33), new_event empty_uring_data)"
    by (simp add: demo_classes_def)
  have r: "c_at 0 0 33 demo_parent = (fst (c_at 0 0 33 demo_parent), snd (c_at 0 0 33 demo_parent))" by simp
  from child_call_completes [OF demo_single demo_live(1) i(1) demo_live(2) _ _ s _ b i(2) r, of 50]
  show ?thesis by auto
qed

section \<open>Results of \<^verbatim>\<open>on_yield\<close>\<close>

text \<open>
  \<^verbatim>\<open>data_received\<close> for an object that queues nothing, when no other procedure is attached: the
  handler sees the data with local ids, and a result is sent to the procedure's caller.
\<close>

lemma data_received_idle:
  assumes l: "live w i c ev" and p: "proc_to_dat w p \<noteq> None" "also_notify w p = None"
    and m: "map_event_data d ev = (d', ev')"
    and y: "cl_yield cl d' i (payloads w) ev' = Inr (r, os, ev'')" "idle ev''"
  shows "\<exists>w2. single w2 = single w \<and> own_queue w2 = own_queue w \<and> self_thread w2 = self_thread w \<and>
    queues w2 = queues w \<and> live w2 i c ev'' \<and>
    data_received cl ci \<lparr>ti_obj = i, ti_proc = p\<rparr> d w =
      (case r of None \<Rightarrow> Inr w2
       | Some (failed, code) \<Rightarrow>
           let (th, ob, pr) = back_notify (call_of p w)
           in push_msg th (completion_for \<lparr>ci_thread = th, ci_obj = ob, ci_proc = pr\<rparr>
                \<lparr>ti_obj = i, ti_proc = p\<rparr> (self_thread w) failed code)
                (upd_call p (\<lambda>c. c\<lparr>cd_status := if failed then Failed else Finished\<rparr>) w2))"
proof -
  let ?w1 = "store_event i ev' w"
  let ?w2 = "store_event i ev'' (?w1\<lparr>payloads := os\<rparr>)"
  let ?w3 = "store_event i ev'' ?w2"
  have l1: "live ?w1 i c ev'" using l by (rule live_store)
  have "live (?w1\<lparr>payloads := os\<rparr>) i c ev'" using l1 by simp
  then have l2: "live ?w2 i c ev''" by (rule live_store)
  have obj: "obj_info w i \<noteq> None" "obj_ptr i w = Some i"
    using l by (auto simp: live_def obj_ptr_def map_at_def default_object_def split: option.splits)
  have md: "map_data d (Some i) w = Inr (d', ?w1)"
    using l m by (simp add: map_data_def live_def)
  have rb: "run_body (cl_yield cl d') (Some i) ?w1 = Inr (r, ?w2)"
    using y(1) by (intro run_body_live [OF l1]) simp
  have pq: "process_queued (Some i) \<lparr>ti_obj = i, ti_proc = p\<rparr> ?w2 = Inr ?w3"
    by (rule process_queued_idle [OF l2 y(2)])
  have same: "self_thread (store_event j e v) = self_thread v" "queues (store_event j e v) = queues v"
      "also_notify (store_event j e v) = also_notify v" for j e and v :: "('a, 'b, 'c, 'd) world"
    by (auto simp: store_event_def split: option.split)
  have na: "notify_attached ci \<lparr>ti_obj = i, ti_proc = p\<rparr> d' v = Inr v" if "also_notify v p = None" for v :: "('a, 'b, 'c, 'd) world"
    using that by (simp add: notify_attached_def)
  have pa: "also_notify v' = also_notify v" if "push_msg t x v = Inr v'" for t x and v v' :: "('a, 'b, 'c, 'd) world"
    using that by (auto simp: push_msg_def split: if_splits)
  have bind: "ebind (push_msg t x v) (notify_attached ci \<lparr>ti_obj = i, ti_proc = p\<rparr> d') = push_msg t x v"
    if "also_notify v p = None" for t x and v :: "('a, 'b, 'c, 'd) world"
  proof (cases "push_msg t x v")
    case (Inr b)
    have "also_notify b = also_notify v" by (rule pa [OF Inr])
    then have "also_notify b p = None" using that by simp
    then show ?thesis using Inr na by simp
  qed simp
  have "also_notify (upd_call q g v) = also_notify v" "self_thread (upd_call q g v) = self_thread v"
    for q g and v :: "('a, 'b, 'c, 'd) world" by (simp_all add: upd_call_def)
  then have "data_received cl ci \<lparr>ti_obj = i, ti_proc = p\<rparr> d w =
      (case r of None \<Rightarrow> Inr ?w3
       | Some (failed, code) \<Rightarrow>
           let (th, ob, pr) = back_notify (call_of p w)
           in push_msg th (completion_for \<lparr>ci_thread = th, ci_obj = ob, ci_proc = pr\<rparr>
                \<lparr>ti_obj = i, ti_proc = p\<rparr> (self_thread w) failed code)
                (upd_call p (\<lambda>c. c\<lparr>cd_status := if failed then Failed else Finished\<rparr>) ?w3))"
    using obj p md rb pq
    by (auto simp: data_received_def same na bind completion_for_def split_beta split: option.split)
  moreover have "live ?w3 i c ev''" using l2 by (rule live_store)
  ultimately show ?thesis
    by (intro exI [of _ ?w3] conjI) (simp_all add: same)
qed

text \<open>
  When \<^verbatim>\<open>on_yield\<close> returns a result, exactly one message is added to the work queue: the
  completion of the procedure for whoever called it, with \<^verbatim>\<open>Failed\<close> or \<^verbatim>\<open>Finished\<close> and the code
  returned; when it returns \<^verbatim>\<open>nullopt\<close> the work queue does not change.
\<close>

theorem yield_result_is_sent:
  assumes "live w i c ev" "proc_to_dat w p \<noteq> None" "also_notify w p = None"
    and "map_event_data d ev = (d', ev')"
    and "cl_yield cl d' i (payloads w) ev' = Inr (r, os, ev'')" "idle ev''"
    and "single w" "back_notify (call_of p w) = (0, ob, pr)"
  shows "\<exists>w'. data_received cl ci \<lparr>ti_obj = i, ti_proc = p\<rparr> d w = Inr w' \<and> live w' i c ev'' \<and>
    own_queue w' = own_queue w @
      (case r of None \<Rightarrow> []
       | Some (failed, code) \<Rightarrow> [completion_for \<lparr>ci_thread = 0, ci_obj = ob, ci_proc = pr\<rparr>
           \<lparr>ti_obj = i, ti_proc = p\<rparr> 0 failed code])"
proof -
  obtain w2 where w2: "single w2 = single w" "own_queue w2 = own_queue w" "live w2 i c ev''"
    and eq: "data_received cl ci \<lparr>ti_obj = i, ti_proc = p\<rparr> d w =
      (case r of None \<Rightarrow> Inr w2
       | Some (failed, code) \<Rightarrow> push_msg 0 (completion_for \<lparr>ci_thread = 0, ci_obj = ob, ci_proc = pr\<rparr>
                \<lparr>ti_obj = i, ti_proc = p\<rparr> (self_thread w) failed code)
                (upd_call p (\<lambda>c. c\<lparr>cd_status := if failed then Failed else Finished\<rparr>) w2))"
    using data_received_idle [OF assms(1-6), of ci, unfolded assms(8) Let_def prod.case] by blast
  have "single w2" using w2(1) assms(7) by simp
  moreover have st: "self_thread w = 0" using assms(7) by (simp add: single_def)
  ultimately show ?thesis
    using w2(2,3) by (cases r) (auto simp: eq st push_single)
qed

lemma yield_result_is_sent_witness:
  "\<exists>w'. data_received demo_classes \<lparr>ci_thread = - 1, ci_obj = no_id, ci_proc = no_id\<rparr> \<lparr>ti_obj = 2, ti_proc = 51\<rparr>
      (IoUringResult 51 ID_READ 8) (upd_call 51 (\<lambda>c. c\<lparr>back_notify := (0, 1, 50)\<rparr>) demo_world) = Inr w' \<and>
     own_queue w' = [completion_for \<lparr>ci_thread = 0, ci_obj = 1, ci_proc = 50\<rparr>
        \<lparr>ti_obj = 2, ti_proc = 51\<rparr> 0 True 7]"
proof -
  let ?w = "upd_call 51 (\<lambda>c. c\<lparr>back_notify := (0, 1, 50)\<rparr>) demo_world"
  let ?e = "new_event empty_uring_data :: (nat, nat, nat) event"
  have "live ?w 2 2 ?e" using demo_live(2) by simp
  moreover have "proc_to_dat ?w 51 \<noteq> None" "also_notify ?w 51 = None"
    by (simp_all add: upd_call_def demo_world_def init_world_def)
  moreover have "map_event_data (IoUringResult 51 ID_READ 8) ?e = (IoUringResult 51 ID_READ 8, ?e)" by simp
  moreover have "cl_yield demo_classes (IoUringResult 51 ID_READ 8) 2 (payloads ?w) ?e =
      Inr (Some (True, 7), payloads ?w, ?e)" by (simp add: demo_classes_def)
  moreover have "idle ?e" by (simp add: idle_def new_event_def)
  moreover have "single ?w" "own_queue ?w = []" using demo_single by simp_all
  moreover have "back_notify (call_of 51 ?w) = (0, 1, 50)" by simp
  ultimately show ?thesis
    using yield_result_is_sent [where w = ?w and i = 2 and p = 51 and cl = demo_classes
        and d = "IoUringResult 51 ID_READ 8"] by fastforce
qed

text \<open>
  The procedure of a root object has no caller: \<^verbatim>\<open>RootStart\<close> names thread \<^verbatim>\<open>-1\<close>.  A call that
  returns a result at once is tested for that, \<^verbatim>\<open>data_received\<close> is not: when \<^verbatim>\<open>on_yield\<close> of a root
  object returns a result, \<^verbatim>\<open>per_thread_data\<close> is indexed with \<^verbatim>\<open>-1\<close>.
\<close>

theorem root_yield_result_undefined:
  assumes "live w i c ev" "proc_to_dat w p \<noteq> None" "also_notify w p = None"
    and "map_event_data d ev = (d', ev')"
    and "cl_yield cl d' i (payloads w) ev' = Inr (Some (failed, code), os, ev'')" "idle ev''"
    and "back_notify (call_of p w) = (- 1, no_id, no_id)"
  shows "data_received cl ci \<lparr>ti_obj = i, ti_proc = p\<rparr> d w = Inl Undefined_Behaviour"
proof -
  have bad: "push_msg (- 1) m v = Inl Undefined_Behaviour" for m and v :: "('a, 'b, 'c, 'd) world"
    by (simp add: push_msg_def)
  show ?thesis
    using data_received_idle [OF assms(1-6), of ci, unfolded assms(7) Let_def prod.case option.case bad]
    by blast
qed

lemma root_yield_result_undefined_witness:
  "data_received demo_classes \<lparr>ci_thread = - 1, ci_obj = no_id, ci_proc = no_id\<rparr> \<lparr>ti_obj = 2, ti_proc = 51\<rparr>
      (IoUringResult 51 ID_READ 8) (upd_call 51 (\<lambda>c. c\<lparr>back_notify := (- 1, no_id, no_id)\<rparr>) demo_world) =
     Inl Undefined_Behaviour"
proof -
  let ?w = "upd_call 51 (\<lambda>c. c\<lparr>back_notify := (- 1, no_id, no_id)\<rparr>) demo_world"
  let ?e = "new_event empty_uring_data :: (nat, nat, nat) event"
  have "live ?w 2 2 ?e" using demo_live(2) by simp
  moreover have "proc_to_dat ?w 51 \<noteq> None" "also_notify ?w 51 = None"
    by (simp_all add: upd_call_def demo_world_def init_world_def)
  moreover have "map_event_data (IoUringResult 51 ID_READ 8) ?e = (IoUringResult 51 ID_READ 8, ?e)" by simp
  moreover have "cl_yield demo_classes (IoUringResult 51 ID_READ 8) 2 (payloads ?w) ?e =
      Inr (Some (True, 7), payloads ?w, ?e)" by (simp add: demo_classes_def)
  moreover have "idle ?e" by (simp add: idle_def new_event_def)
  moreover have "back_notify (call_of 51 ?w) = (- 1, no_id, no_id)" by simp
  ultimately show ?thesis by (rule root_yield_result_undefined)
qed

section \<open>Deletion\<close>

lemma push_deletes:
  assumes "single w" "\<forall>ch \<in> set chs. ch_thread (snd ch) = 0"
  shows "efold (\<lambda>(child, info). push_msg (ch_thread info) (Delete_Msg ci \<lparr>ti_obj = child, ti_proc = no_id\<rparr>)) chs w =
    Inr (w\<lparr>queues := [own_queue w @ map (\<lambda>ch. Delete_Msg ci \<lparr>ti_obj = fst ch, ti_proc = no_id\<rparr>) chs]\<rparr>)"
  using assms
proof (induction chs arbitrary: w)
  case Nil
  then show ?case using single_queues [OF Nil(1)] by simp
next
  case (Cons ch chs)
  then show ?case by (simp add: case_prod_beta push_single)
qed

text \<open>
  C26: Deleting an object sends a deletion for every child the object still has, in the
  name of the original caller, forgets the object and its procedures and nothing else; whatever
  data arrives for the object afterwards is ignored.
\<close>

theorem delete_propagates:
  assumes "single w" "obj_info w i = Some d" "od_ptr d = Some i"
    and "\<forall>ch \<in> set (children d). ch_thread (snd ch) = 0"
  shows "\<exists>w'. delete_received ci \<lparr>ti_obj = i, ti_proc = q\<rparr> w = Inr w' \<and>
    own_queue w' = own_queue w @ map (\<lambda>ch. Delete_Msg ci \<lparr>ti_obj = fst ch, ti_proc = no_id\<rparr>) (children d) \<and>
    obj_info w' = (obj_info w)(i := None) \<and> ev_mem w' = (ev_mem w)(i := None) \<and>
    payloads w' = (payloads w)(i := None) \<and>
    proc_to_dat w' = proc_to_dat w |` (- set (assoc_procs d)) \<and>
    (\<forall>cl ci' p dat. data_received cl ci' \<lparr>ti_obj = i, ti_proc = p\<rparr> dat w' = Inr w')"
proof -
  have t: "touch_obj i w = w" using assms(2) by (cases w) (simp add: touch_obj_def)
  show ?thesis
    using assms push_deletes [OF assms(1,4), of ci]
    by (simp add: delete_received_def t data_received_def)
      (simp add: own_queue_def single_def)
qed

lemma delete_propagates_witness:
  "\<exists>w'. delete_received \<lparr>ci_thread = 0, ci_obj = 9, ci_proc = 9\<rparr> \<lparr>ti_obj = 1, ti_proc = no_id\<rparr>
       (demo_world\<lparr>obj_info := [1 \<mapsto> (demo_object 1)\<lparr>children := [(2, default_child), (3, default_child)]\<rparr>]\<rparr>) = Inr w' \<and>
     own_queue w' = [Delete_Msg \<lparr>ci_thread = 0, ci_obj = 9, ci_proc = 9\<rparr> \<lparr>ti_obj = 2, ti_proc = no_id\<rparr>,
       Delete_Msg \<lparr>ci_thread = 0, ci_obj = 9, ci_proc = 9\<rparr> \<lparr>ti_obj = 3, ti_proc = no_id\<rparr>]"
proof -
  let ?d = "(demo_object 1)\<lparr>children := [(2, default_child), (3, default_child)]\<rparr>"
  let ?w = "demo_world\<lparr>obj_info := [1 \<mapsto> ?d]\<rparr>"
  have "single ?w" "own_queue ?w = []" using demo_single by (simp_all add: single_def own_queue_def)
  moreover have "obj_info ?w 1 = Some ?d" "od_ptr ?d = Some 1" "\<forall>ch \<in> set (children ?d). ch_thread (snd ch) = 0"
    by (simp_all add: demo_object_def default_child_def)
  ultimately show ?thesis
    using delete_propagates [of ?w 1 ?d "\<lparr>ci_thread = 0, ci_obj = 9, ci_proc = 9\<rparr>" no_id] by fastforce
qed

end
