(* ===== verification/Sched_Ring.thy ===== *)
theory Sched_Ring
  imports Sched_Flow
begin

text \<open>
  The scheduler and its ring.  Every request carries the address of a heap cell that says whom its
  completion is for; \<^verbatim>\<open>process_uring\<close> frees the cell.  A step relation lets the handlers queue
  requests and timers, the ring submit them and the kernel complete what is in flight in any
  order; the invariant is that the allocated cells are exactly those of outstanding requests, each
  used by one request.
\<close>

section \<open>Cells of outstanding requests\<close>

definition outstanding :: "('t, 'k, 'f, 'o) world \<Rightarrow> nat list" where
  "outstanding w = map sq_data (sq w) @ map (sq_data \<circ> fst) (in_flight w)"

definition cells_ok :: "('t, 'k, 'f, 'o) world \<Rightarrow> bool" where
  "cells_ok w \<longleftrightarrow> distinct (outstanding w) \<and> set (outstanding w) = dom (attached w) \<and>
     (\<forall>a \<in> dom (attached w). a < next_attached w)"

text \<open>The kernel takes a request out of flight when it completes it.\<close>

inductive ring_step :: "('t, 'k, 'f, 'o) world \<Rightarrow> ('t, 'k, 'f, 'o) world \<Rightarrow> bool" where
  queue_uring: "ring_step w (queued_uring_step ti u w)"
| queue_timer: "queued_timer_step ti t (ev, w) = Inr (ev', w') \<Longrightarrow> ring_step w w'"
| submit_all: "ring_step w (submit w)"
| complete: "r \<in> set (in_flight w) \<Longrightarrow>
    completion_step (sq_data (fst r), res') (w\<lparr>in_flight := remove1 r (in_flight w)\<rparr>) = Inr w' \<Longrightarrow>
    ring_step w w'"

inductive_cases ring_stepE: "ring_step w w'"

definition ring_reachable :: "('t, 'k, 'f, 'o) world \<Rightarrow> ('t, 'k, 'f, 'o) world \<Rightarrow> bool" where
  "ring_reachable = ring_step\<^sup>*\<^sup>*"

text \<open>Both kinds of requests come about by this one step.\<close>

lemma cells_ok_request:
  assumes "cells_ok w" "sq w' = sq w @ [\<lparr>sq_op = o', sq_data = next_attached w\<rparr>]"
    and "in_flight w' = in_flight w" "attached w' = (attached w)(next_attached w \<mapsto> d)"
    and "next_attached w' = Suc (next_attached w)"
  shows "cells_ok w'"
proof -
  have "next_attached w \<notin> set (outstanding w)" using assms(1) by (auto simp: cells_ok_def)
  then show ?thesis
    using assms(1) unfolding cells_ok_def outstanding_def assms(2-5)
    by (auto simp: less_Suc_eq)
qed

lemma cells_ok_same:
  assumes "cells_ok w" "sq w' = sq w" "in_flight w' = in_flight w" "attached w' = attached w"
    "next_attached w' = next_attached w"
  shows "cells_ok w'"
  using assms by (simp add: cells_ok_def outstanding_def)

lemma queued_uring_step_cells:
  assumes "cells_ok w"
  shows "cells_ok (queued_uring_step ti u w)"
proof (cases "sq_full w")
  case True
  then show ?thesis using assms by (simp add: queued_uring_step_def)
next
  case False
  show ?thesis
    by (rule cells_ok_request [OF assms]) (simp_all add: queued_uring_step_def False new_attached_def put_sqe_def)
qed

lemma draw_tim_same [simp]:
  "sq (snd (draw_tim w)) = sq w" "in_flight (snd (draw_tim w)) = in_flight w"
  "attached (snd (draw_tim w)) = attached w" "next_attached (snd (draw_tim w)) = next_attached w"
  "timers (snd (draw_tim w)) = timers w" "sq_full (snd (draw_tim w)) = sq_full w"
  "queues (snd (draw_tim w)) = queues w" "self_thread (snd (draw_tim w)) = self_thread w"
  by (simp_all add: draw_tim_def sq_full_def split: prod.split)

lemma queued_timer_step_cells:
  assumes "cells_ok w" "queued_timer_step ti t (ev, w) = Inr (ev', w')"
  shows "cells_ok w'"
proof (cases "timers w (translate_tim_local (qt_local_id t) ev)")
  case None
  with assms(2) show ?thesis
    by (intro cells_ok_request [OF assms(1)])
      (auto simp: queued_timer_step_def new_attached_def put_sqe_def Let_def split_beta split: if_splits)
next
  case (Some td)
  then have "\<exists>o' d. sq w' = sq w @ [\<lparr>sq_op = o', sq_data = next_attached w\<rparr>] \<and> in_flight w' = in_flight w \<and>
      attached w' = (attached w)(next_attached w \<mapsto> d) \<and> next_attached w' = Suc (next_attached w)"
    using assms(2) by (auto simp: queued_timer_step_def new_attached_def put_sqe_def Let_def split: if_splits)
  then show ?thesis using cells_ok_request [OF assms(1)] by blast
qed

lemma submit_cells:
  assumes "cells_ok w"
  shows "cells_ok (submit w)"
proof -
  have "outstanding (submit w) = map (sq_data \<circ> fst) (in_flight w) @ map sq_data (sq w)"
    by (simp add: outstanding_def submit_def comp_def)
  then have "distinct (outstanding (submit w)) = distinct (outstanding w)"
    "set (outstanding (submit w)) = set (outstanding w)"
    by (auto simp: outstanding_def)
  then show ?thesis using assms by (simp add: cells_ok_def submit_def)
qed

lemma completion_step_fields:
  assumes "completion_step (a, r) w = Inr w'"
  shows "sq w' = sq w" "in_flight w' = in_flight w" "attached w' = (attached w)(a := None)"
    "next_attached w' = next_attached w"
  using assms
  by (auto simp: completion_step_def ebind_Inr_iff push_msg_def Let_def
      split: option.splits attached_data.splits if_splits)

lemma completion_cells:
  assumes "cells_ok w" "r \<in> set (in_flight w)"
    "completion_step (sq_data (fst r), res') (w\<lparr>in_flight := remove1 r (in_flight w)\<rparr>) = Inr w'"
  shows "cells_ok w'"
proof -
  note f = completion_step_fields [OF assms(3), simplified]
  let ?a = "sq_data (fst r)" and ?g = "sq_data \<circ> fst"
  have d: "distinct (map ?g (in_flight w))" and a: "?a \<notin> set (map sq_data (sq w))"
    using assms(1,2) by (auto simp: cells_ok_def outstanding_def)
  have "set (map ?g (remove1 r xs)) = set (map ?g xs) - {?a}" "distinct (map ?g (remove1 r xs))"
    if "distinct (map ?g xs)" "r \<in> set xs" for xs
    using that by (induction xs) auto
  from this [OF d assms(2)] show ?thesis
    using assms(1) a d
    unfolding cells_ok_def outstanding_def f by (auto simp: dom_def) (metis image_eqI)
qed

lemma ring_step_cells:
  assumes "ring_step w w'" "cells_ok w"
  shows "cells_ok w'"
  using assms
  by (induction rule: ring_step.induct)
    (blast intro: queued_uring_step_cells queued_timer_step_cells submit_cells completion_cells)+

text \<open>
  C4: In every state the handlers, the submissions and the completions can reach from one
  in which no request exists, every request in flight has its cell and can complete without
  touching freed memory; and a cell that is allocated belongs to an outstanding request, so none
  is leaked.
\<close>

theorem user_data_valid:
  assumes "ring_reachable w w'" "sq w = []" "in_flight w = []" "attached w = Map.empty"
  shows "distinct (outstanding w') \<and> dom (attached w') = set (outstanding w') \<and>
    (\<forall>r \<in> set (in_flight w'). attached w' (sq_data (fst r)) \<noteq> None)"
proof -
  have "cells_ok w" using assms(2-4) by (simp add: cells_ok_def outstanding_def)
  with assms(1) have "cells_ok w'"
    unfolding ring_reachable_def by (induction rule: rtranclp_induct) (auto intro: ring_step_cells)
  then show ?thesis by (auto simp: cells_ok_def outstanding_def dom_def)
qed

lemma user_data_valid_witness:
  "distinct (outstanding (submit (queued_uring_step \<lparr>ti_obj = 1, ti_proc = 2\<rparr>
      \<lparr>qu_op = ID_READ, qu_prep = Prep_recv 5 0 4096 0\<rparr> (init_world 1 0 :: (nat, nat, nat, nat) world))))"
proof -
  let ?w = "init_world 1 0 :: (nat, nat, nat, nat) world"
  have "ring_reachable ?w (submit (queued_uring_step \<lparr>ti_obj = 1, ti_proc = 2\<rparr>
      \<lparr>qu_op = ID_READ, qu_prep = Prep_recv 5 0 4096 0\<rparr> ?w))"
    unfolding ring_reachable_def by (blast intro: ring_step.intros rtranclp.rtrancl_into_rtrancl)
  then show ?thesis by (rule user_data_valid [THEN conjunct1]) (simp_all add: init_world_def)
qed

section \<open>Requests come back to who asked\<close>

text \<open>The data message a completion turns into.\<close>

definition from_ring :: "u64 \<Rightarrow> u64 \<Rightarrow> 't event_type \<Rightarrow> ('t, 'k, 'f) message" where
  "from_ring ob pr d = Data_Msg \<lparr>ci_thread = - 1, ci_obj = no_id, ci_proc = no_id\<rparr> \<lparr>ti_obj = ob, ti_proc = pr\<rparr> d"

text \<open>
  A request an object queued, when the submission queue has room, goes to the ring as
  it was prepared; whatever the kernel answers, and whatever other requests and messages come in
  between, its completion becomes one message for the same object and procedure with the
  operation tag and the result, and the request's cell is freed.
\<close>

theorem request_result_returns:
  assumes "length (sq w) < SQ_SIZE"
  shows "\<exists>a w1. queued_uring_step ti u w = w1 \<and> sq w1 = sq w @ [\<lparr>sq_op = Sq_prep (qu_prep u), sq_data = a\<rparr>] \<and>
    (\<forall>v r. single v \<longrightarrow> attached v a = attached w1 a \<longrightarrow>
       (\<exists>v'. completion_step (a, r) v = Inr v' \<and> attached v' a = None \<and>
          own_queue v' = own_queue v @
            [from_ring (ti_obj ti) (ti_proc ti) (IoUringResult (ti_proc ti) (qu_op u) r)]))"
proof -
  let ?a = "next_attached w"
  have step: "sq (queued_uring_step ti u w) = sq w @ [\<lparr>sq_op = Sq_prep (qu_prep u), sq_data = ?a\<rparr>]"
    "attached (queued_uring_step ti u w) ?a = Some (Event_Data (qu_op u) (ti_obj ti) (ti_proc ti))"
    using assms by (simp_all add: queued_uring_step_def sq_full_def new_attached_def put_sqe_def)
  have "\<exists>v'. completion_step (?a, r) v = Inr v' \<and> attached v' ?a = None \<and>
      own_queue v' = own_queue v @ [from_ring (ti_obj ti) (ti_proc ti) (IoUringResult (ti_proc ti) (qu_op u) r)]"
    if "single v" "attached v ?a = attached (queued_uring_step ti u w) ?a" for v r
  proof -
    have "self_thread v = 0" using that(1) by (simp add: single_def)
    then show ?thesis using that(2) step(2)
      by (simp add: completion_step_def push_single [OF that(1)] from_ring_def)
        (simp add: own_queue_def)
  qed
  then show ?thesis using step(1) by blast
qed

lemma request_result_returns_witness:
  "\<exists>a. sq (queued_uring_step \<lparr>ti_obj = 1, ti_proc = 2\<rparr> \<lparr>qu_op = ID_READ, qu_prep = Prep_recv 5 0 4096 0\<rparr>
      (init_world 1 0 :: (nat, nat, nat, nat) world)) = [\<lparr>sq_op = Sq_prep (Prep_recv 5 0 4096 0), sq_data = a\<rparr>]"
proof -
  have "length (sq (init_world 1 0 :: (nat, nat, nat, nat) world)) < SQ_SIZE"
    and "sq (init_world 1 0 :: (nat, nat, nat, nat) world) = []"
    by (simp_all add: init_world_def SQ_SIZE_def)
  then show ?thesis
    using request_result_returns [of "init_world 1 0 :: (nat, nat, nat, nat) world" "\<lparr>ti_obj = 1, ti_proc = 2\<rparr>"
        "\<lparr>qu_op = ID_READ, qu_prep = Prep_recv 5 0 4096 0\<rparr>"] by auto
qed

section \<open>Timers\<close>

text \<open>Arming a timer that the scheduler does not know.\<close>

lemma arm_timer:
  assumes "timers w (translate_tim_local (qt_local_id t) ev) = None" "length (sq w) < SQ_SIZE"
  shows "queued_timer_step ti t (ev, w) = Inr (global_to_local_tim (fst (draw_tim w)) (qt_local_id t) ev,
    let w1 = snd (draw_tim w)
    in w1\<lparr>attached := (attached w)(next_attached w \<mapsto> Timer_Data (fst (draw_tim w)) (ti_obj ti) (ti_proc ti)),
          next_attached := Suc (next_attached w),
          timers := (timers w)(fst (draw_tim w) \<mapsto> \<lparr>td_ptr = next_attached w, td_obj = ti_obj ti, td_ts = qt_time t\<rparr>),
          sq := sq w @ [\<lparr>sq_op = Sq_timeout (fst (draw_tim w)), sq_data = next_attached w\<rparr>]\<rparr>)"
proof -
  have "\<not> sq_full (snd (draw_tim w))" using assms(2) by (simp add: sq_full_def)
  then show ?thesis
    using assms(1) by (simp add: queued_timer_step_def split_beta new_attached_def put_sqe_def Let_def)
qed

text \<open>
  C28: A timer armed by an object under a local id: when the ring reports that the time
  is over, the object that armed it gets one \<^verbatim>\<open>Timeout\<close> for the procedure that armed it, and the
  translation turns the global timer id into the local id that \<^verbatim>\<open>timer()\<close> returned.
\<close>

theorem timer_round_trip:
  assumes "timer ts ev = (l, ev1)" "timers w (translate_tim_local l ev1) = None" "length (sq w) < SQ_SIZE"
  shows "\<exists>g a ev2 w2. queued_timer_step ti (last (timer_q ev1)) (ev1, w) = Inr (ev2, w2) \<and>
    sq w2 = sq w @ [\<lparr>sq_op = Sq_timeout g, sq_data = a\<rparr>] \<and>
    sqe_time (timers w2) (Sq_timeout g) = Some ts \<and>
    (\<forall>v. single v \<longrightarrow> attached v a = attached w2 a \<longrightarrow>
       (\<exists>v'. completion_step (a, - ETIME) v = Inr v' \<and>
          own_queue v' = own_queue v @ [from_ring (ti_obj ti) (ti_proc ti) (Timeout g)])) \<and>
    map_event_data (Timeout g) ev2 = (Timeout l, ev2)"
proof -
  let ?g = "fst (draw_tim w)" and ?a = "next_attached w"
  let ?ev2 = "global_to_local_tim ?g l ev1"
  have q: "last (timer_q ev1) = \<lparr>qt_local_id = l, qt_time = ts\<rparr>"
    using assms(1) by (auto simp: timer_def Let_def)
  obtain w2 where w2: "queued_timer_step ti (last (timer_q ev1)) (ev1, w) = Inr (?ev2, w2)"
    and f: "sq w2 = sq w @ [\<lparr>sq_op = Sq_timeout ?g, sq_data = ?a\<rparr>]"
      "sqe_time (timers w2) (Sq_timeout ?g) = Some ts"
      "attached w2 ?a = Some (Timer_Data ?g (ti_obj ti) (ti_proc ti))"
    using arm_timer [of w "last (timer_q ev1)" ev1 ti] assms(2,3) q by (simp add: Let_def)
  have "\<exists>v'. completion_step (?a, - ETIME) v = Inr v' \<and>
      own_queue v' = own_queue v @ [from_ring (ti_obj ti) (ti_proc ti) (Timeout ?g)]"
    if "single v" "attached v ?a = attached w2 ?a" for v
  proof -
    have "self_thread v = 0" using that(1) by (simp add: single_def)
    then show ?thesis using that(2) f(3)
      by (simp add: completion_step_def push_single [OF that(1)] from_ring_def)
        (simp add: own_queue_def)
  qed
  moreover have "map_event_data (Timeout ?g) ?ev2 = (Timeout l, ?ev2)"
    by (rule map_timeout_known) (simp_all add: translate_tim_global_def global_to_local_tim_def)
  ultimately show ?thesis using w2 f(1,2) by blast
qed

lemma timer_round_trip_witness:
  "\<exists>g a ev2 w2. queued_timer_step \<lparr>ti_obj = 1, ti_proc = 2\<rparr> \<lparr>qt_local_id = 0, qt_time = \<lparr>tv_sec = 30, tv_nsec = 0\<rparr>\<rparr>
      (snd (timer \<lparr>tv_sec = 30, tv_nsec = 0\<rparr> (new_event empty_uring_data)), init_world 1 0 :: (nat, nat, nat, nat) world)
      = Inr (ev2, w2) \<and> sq w2 = [\<lparr>sq_op = Sq_timeout g, sq_data = a\<rparr>]"
proof -
  let ?ev = "new_event empty_uring_data :: (nat, nat, nat) event" and ?w = "init_world 1 0 :: (nat, nat, nat, nat) world"
  let ?ts = "\<lparr>tv_sec = 30, tv_nsec = 0\<rparr>"
  have t: "timer ?ts ?ev = (0, snd (timer ?ts ?ev))"
    "timer_q (snd (timer ?ts ?ev)) = [\<lparr>qt_local_id = 0, qt_time = ?ts\<rparr>]"
    by (simp_all add: timer_def Let_def new_event_def empty_uring_data_def)
  have "timers ?w (translate_tim_local 0 (snd (timer ?ts ?ev))) = None" "length (sq ?w) < SQ_SIZE" "sq ?w = []"
    by (simp_all add: init_world_def SQ_SIZE_def)
  then show ?thesis using timer_round_trip [OF t(1), of ?w "\<lparr>ti_obj = 1, ti_proc = 2\<rparr>"] t(2) by auto
qed

text \<open>
  Cancelling a timer asks the ring to remove the request that carries the timer's own
  cell; once the ring has confirmed it the scheduler forgets the timer.  Cancelling the same timer
  again is then taken for a new timer of zero seconds: a timeout request is armed that fires at
  once and reports a timeout the object did not ask for.
\<close>

theorem cancel_timer_effect:
  fixes w :: "('t, 'k, 'f, 'o) world"
  assumes "translate_tim_local l ev = g" "timers w g = Some td" "length (sq w) < SQ_SIZE"
    and "qt = \<lparr>qt_local_id = l, qt_time = \<lparr>tv_sec = 0, tv_nsec = 0\<rparr>\<rparr>"
  shows "timer_q (cancel_timer l ev) = timer_q ev @ [qt] \<and>
    (\<exists>a w1. queued_timer_step ti qt (ev, w) = Inr (ev, w1) \<and>
       sq w1 = sq w @ [\<lparr>sq_op = Sq_timeout_remove (td_ptr td), sq_data = a\<rparr>] \<and>
       (\<forall>r \<ge> 0. \<exists>w2. completion_step (a, r) w1 = Inr w2 \<and> timers w2 g = None) \<and>
       (\<forall>v :: ('t, 'k, 'f, 'o) world. timers v g = None \<longrightarrow> length (sq v) < SQ_SIZE \<longrightarrow>
          (\<exists>g' a' ev' v'. queued_timer_step ti qt (ev, v) = Inr (ev', v') \<and>
             sq v' = sq v @ [\<lparr>sq_op = Sq_timeout g', sq_data = a'\<rparr>] \<and>
             sqe_time (timers v') (Sq_timeout g') = Some \<lparr>tv_sec = 0, tv_nsec = 0\<rparr> \<and>
             attached v' a' = Some (Timer_Data g' (ti_obj ti) (ti_proc ti)))))"
proof (intro conjI)
  show "timer_q (cancel_timer l ev) = timer_q ev @ [qt]"
    using assms(4) by (simp add: cancel_timer_def)
  define w1 where "w1 = put_sqe (Sq_timeout_remove (td_ptr td)) (next_attached w) (snd (new_attached (Timer_Update g True) w))"
  have step: "queued_timer_step ti qt (ev, w) = Inr (ev, w1)"
    using assms by (simp add: queued_timer_step_def w1_def sq_full_def new_attached_def)
  moreover have "sq w1 = sq w @ [\<lparr>sq_op = Sq_timeout_remove (td_ptr td), sq_data = next_attached w\<rparr>]"
    by (simp add: w1_def put_sqe_def new_attached_def)
  moreover have "\<forall>r \<ge> 0. \<exists>w2. completion_step (next_attached w, r) w1 = Inr w2 \<and> timers w2 g = None"
    by (simp add: completion_step_def w1_def put_sqe_def new_attached_def)
  moreover have "\<exists>g' a' ev' v'. queued_timer_step ti qt (ev, v) = Inr (ev', v') \<and>
             sq v' = sq v @ [\<lparr>sq_op = Sq_timeout g', sq_data = a'\<rparr>] \<and>
             sqe_time (timers v') (Sq_timeout g') = Some \<lparr>tv_sec = 0, tv_nsec = 0\<rparr> \<and>
             attached v' a' = Some (Timer_Data g' (ti_obj ti) (ti_proc ti))"
    if "timers v g = None" "length (sq v) < SQ_SIZE" for v :: "('t, 'k, 'f, 'o) world"
    using arm_timer [of v qt ev ti] that assms(1,4) by (simp add: Let_def)
  ultimately show "\<exists>a w1. queued_timer_step ti qt (ev, w) = Inr (ev, w1) \<and>
       sq w1 = sq w @ [\<lparr>sq_op = Sq_timeout_remove (td_ptr td), sq_data = a\<rparr>] \<and>
       (\<forall>r \<ge> 0. \<exists>w2. completion_step (a, r) w1 = Inr w2 \<and> timers w2 g = None) \<and>
       (\<forall>v :: ('t, 'k, 'f, 'o) world. timers v g = None \<longrightarrow> length (sq v) < SQ_SIZE \<longrightarrow>
          (\<exists>g' a' ev' v'. queued_timer_step ti qt (ev, v) = Inr (ev', v') \<and>
             sq v' = sq v @ [\<lparr>sq_op = Sq_timeout g', sq_data = a'\<rparr>] \<and>
             sqe_time (timers v') (Sq_timeout g') = Some \<lparr>tv_sec = 0, tv_nsec = 0\<rparr> \<and>
             attached v' a' = Some (Timer_Data g' (ti_obj ti) (ti_proc ti))))" by blast
qed

lemma cancel_timer_effect_witness:
  "let ev = global_to_local_tim 7 0 (new_event empty_uring_data :: (nat, nat, nat) event);
       w = (init_world 1 0 :: (nat, nat, nat, nat) world)\<lparr>timers := [7 \<mapsto> \<lparr>td_ptr = 3, td_obj = 1, td_ts = \<lparr>tv_sec = 30, tv_nsec = 0\<rparr>\<rparr>]\<rparr>
   in \<exists>a w1. queued_timer_step \<lparr>ti_obj = 1, ti_proc = 2\<rparr> \<lparr>qt_local_id = 0, qt_time = \<lparr>tv_sec = 0, tv_nsec = 0\<rparr>\<rparr> (ev, w) = Inr (ev, w1) \<and>
      sq w1 = [\<lparr>sq_op = Sq_timeout_remove 3, sq_data = a\<rparr>]"
proof -
  let ?ev = "global_to_local_tim 7 0 (new_event empty_uring_data :: (nat, nat, nat) event)"
  let ?td = "\<lparr>td_ptr = 3, td_obj = 1, td_ts = \<lparr>tv_sec = 30, tv_nsec = 0\<rparr>\<rparr>"
  let ?w = "(init_world 1 0 :: (nat, nat, nat, nat) world)\<lparr>timers := [7 \<mapsto> ?td]\<rparr>"
  have "translate_tim_local 0 ?ev = 7" by (simp add: timer_ids.global_add)
  moreover have "timers ?w 7 = Some ?td" "length (sq ?w) < SQ_SIZE" "sq ?w = []"
    by (simp_all add: init_world_def SQ_SIZE_def)
  ultimately show ?thesis
    using cancel_timer_effect [of 0 ?ev 7 ?w ?td _ "\<lparr>ti_obj = 1, ti_proc = 2\<rparr>", OF _ _ _ refl]
    unfolding Let_def by force
qed

end
