(* ===== verification/Awaitable.thy ===== *)
theory Awaitable
  imports Sched_Ring
begin

text \<open>
  \<^verbatim>\<open>readiness_api_awaitable\<close> (\<^verbatim>\<open>src/common/coro_types.{h,cpp}\<close>): the object a coroutine awaits while
  the ring works on its request.  Its member \<^verbatim>\<open>ret\<close> is a cell of \<open>int_cells\<close> (an awaitable is
  identified with the address of that cell), \<^verbatim>\<open>data\<close> is a pointer to the thread that may be null.
\<close>

section \<open>Model\<close>

record awaitable =
  aw_cell :: nat
  aw_id :: u64
  aw_data :: bool

definition aw_new ::
  "uring_prep \<Rightarrow> nat \<Rightarrow> ('t, 'k, 'f, 'o) world \<Rightarrow> awaitable \<times> ('t, 'k, 'f, 'o) world"
where
  "aw_new prep cell w =
     (let (i, w1) = co_register prep cell w in (\<lparr>aw_cell = cell, aw_id = i, aw_data = True\<rparr>, w1))"

text \<open>Copying an \<^verbatim>\<open>int\<close> member; an uninitialised one stays uninitialised.\<close>

definition copy_cell :: "nat \<Rightarrow> nat \<Rightarrow> ('t, 'k, 'f, 'o) world \<Rightarrow> ('t, 'k, 'f, 'o) world" where
  "copy_cell src dst w = w\<lparr>int_cells := (int_cells w)(dst := int_cells w src)\<rparr>"

text \<open>Move constructor: new object, moved-from object.\<close>

definition aw_move ::
  "nat \<Rightarrow> awaitable \<Rightarrow> ('t, 'k, 'f, 'o) world \<Rightarrow> (awaitable \<times> awaitable \<times> ('t, 'k, 'f, 'o) world) result"
where
  "aw_move cell other w =
     (if \<not> aw_data other then Inl Undefined_Behaviour
      else Inr (\<lparr>aw_cell = cell, aw_id = aw_id other, aw_data = True\<rparr>, other\<lparr>aw_data := False\<rparr>,
                co_update (aw_id other) cell (copy_cell (aw_cell other) cell w)))"

text \<open>Move assignment: neither tells the thread about the new cell nor clears the other object.\<close>

definition aw_assign ::
  "awaitable \<Rightarrow> awaitable \<Rightarrow> ('t, 'k, 'f, 'o) world \<Rightarrow> (awaitable \<times> awaitable \<times> ('t, 'k, 'f, 'o) world) result"
where
  "aw_assign a other w =
     (if \<not> aw_data a then Inl Undefined_Behaviour
      else Inr (\<lparr>aw_cell = aw_cell a, aw_id = aw_id other, aw_data = aw_data other\<rparr>, other,
                copy_cell (aw_cell other) (aw_cell a) (co_deregister (aw_id a) w)))"

definition aw_destroy :: "awaitable \<Rightarrow> ('t, 'k, 'f, 'o) world \<Rightarrow> ('t, 'k, 'f, 'o) world result" where
  "aw_destroy a w =
     (if \<not> aw_data a then Inl Undefined_Behaviour else Inr (co_deregister (aw_id a) w))"

definition await_ready :: bool where "await_ready = False"

definition await_suspend ::
  "nat option \<Rightarrow> awaitable \<Rightarrow> ('t, 'k, 'f, 'o) world \<Rightarrow> ('t, 'k, 'f, 'o) world result"
where
  "await_suspend h a w =
     (if \<not> aw_data a then Inl Undefined_Behaviour else Inr (co_handle (aw_id a) h w))"

definition await_resume :: "awaitable \<Rightarrow> ('t, 'k, 'f, 'o) world \<Rightarrow> int result" where
  "await_resume a w =
     (case int_cells w (aw_cell a) of None \<Rightarrow> Inl Undefined_Behaviour | Some r \<Rightarrow> Inr r)"

lemmas awaitable_defs = aw_new_def aw_move_def aw_assign_def aw_destroy_def await_suspend_def
  await_resume_def co_register_def co_update_def co_deregister_def co_handle_def copy_cell_def
  cqe_ready_received_def

section \<open>Properties\<close>

lemma aw_new_waiter:
  assumes "aw_new prep cell w = (a, w1)"
  shows "aw_data a" "aw_cell a = cell"
    "map_option wt_result (readiness_waiters w1 (aw_id a)) = Some cell"
  using assms by (auto simp: awaitable_defs split: prod.splits)

fun aw_moves ::
  "nat list \<Rightarrow> awaitable \<Rightarrow> ('t, 'k, 'f, 'o) world \<Rightarrow> (awaitable \<times> ('t, 'k, 'f, 'o) world) result"
where
  "aw_moves [] a w = Inr (a, w)"
| "aw_moves (cell # cells) a w = ebind (aw_move cell a w) (\<lambda>(b, _, w'). aw_moves cells b w')"

lemma aw_moves_waiter:
  assumes "aw_data a" "map_option wt_result (readiness_waiters w (aw_id a)) = Some (aw_cell a)"
  shows "\<exists>b w'. aw_moves cells a w = Inr (b, w') \<and> aw_data b \<and> aw_id b = aw_id a \<and> resumed w' = resumed w \<and>
    map_option wt_result (readiness_waiters w' (aw_id b)) = Some (aw_cell b)"
  using assms
proof (induction cells arbitrary: a w)
  case Nil
  then show ?case by simp
next
  case (Cons cell cells)
  let ?b = "\<lparr>aw_cell = cell, aw_id = aw_id a, aw_data = True\<rparr>"
  let ?w = "co_update (aw_id a) cell (copy_cell (aw_cell a) cell w)"
  have "map_option wt_result (readiness_waiters ?w (aw_id ?b)) = Some (aw_cell ?b)" "resumed ?w = resumed w"
    using Cons.prems(2) by (auto simp: awaitable_defs)
  with Cons.IH [of ?b ?w] Cons.prems(1) show ?case by (simp add: aw_move_def)
qed

text \<open>
  C27: Registering an awaitable, moving it any number of times before it is awaited,
  suspending on it and receiving the completion resumes exactly the suspended coroutine once and
  \<^verbatim>\<open>await_resume\<close> of the last object yields the result of the request.
\<close>

theorem await_round_trip:
  assumes "aw_new prep cell w = (a, w1)"
  shows "\<exists>b w2 w3. aw_moves cells a w1 = Inr (b, w2) \<and> await_suspend (Some h) b w2 = Inr w3 \<and>
    resumed (cqe_ready_received (aw_id a) r w3) = resumed w1 @ [h] \<and>
    await_resume b (cqe_ready_received (aw_id a) r w3) = Inr r"
proof -
  note n = aw_new_waiter [OF assms]
  obtain b w2 where b: "aw_moves cells a w1 = Inr (b, w2)" "aw_data b" "aw_id b = aw_id a"
    "resumed w2 = resumed w1" "map_option wt_result (readiness_waiters w2 (aw_id b)) = Some (aw_cell b)"
    using aw_moves_waiter [OF n(1), of w1 cells] n(2,3) by auto
  then show ?thesis by (auto simp: awaitable_defs)
qed

lemma await_round_trip_witness:
  "\<exists>b w2 w3. aw_moves [21, 22] (fst (aw_new (Prep_read 4 0 512) 20 (init_world 1 0 :: (nat, nat, nat, nat) world)))
       (snd (aw_new (Prep_read 4 0 512) 20 (init_world 1 0 :: (nat, nat, nat, nat) world))) = Inr (b, w2) \<and>
     await_suspend (Some 9) b w2 = Inr w3 \<and>
     await_resume b (cqe_ready_received (aw_id b) 512 w3) = Inr 512"
proof -
  let ?r = "aw_new (Prep_read 4 0 512) 20 (init_world 1 0 :: (nat, nat, nat, nat) world)"
  have r: "?r = (fst ?r, snd ?r)" by simp
  have same: "aw_moves cells a w = Inr (b, w2) \<Longrightarrow> aw_id b = aw_id a" for cells a b and w w2 :: "(nat, nat, nat, nat) world"
    by (induction cells arbitrary: a w) (auto simp: aw_move_def ebind_Inr_iff split: if_splits)
  obtain b w2 w3 where b: "aw_moves [21, 22] (fst ?r) (snd ?r) = Inr (b, w2)"
    "await_suspend (Some 9) b w2 = Inr w3" "await_resume b (cqe_ready_received (aw_id (fst ?r)) 512 w3) = Inr 512"
    using await_round_trip [OF r, of "[21, 22]" 9 512] by blast
  with same [OF b(1)] show ?thesis by (intro exI [of _ b] exI [of _ w2] exI [of _ w3]) simp
qed

text \<open>
  Destroying an object that was moved from follows a null pointer: the move
  constructor leaves \<^verbatim>\<open>data\<close> null and the destructor does not test it.
\<close>

theorem moved_from_destructor_undefined:
  assumes "aw_move cell a w = Inr (b, a', w')"
  shows "aw_destroy a' w' = Inl Undefined_Behaviour"
  using assms by (auto simp: awaitable_defs split: if_splits)

lemma moved_from_destructor_undefined_witness:
  "\<exists>b a' w'. aw_move 21 \<lparr>aw_cell = 20, aw_id = 0, aw_data = True\<rparr> (init_world 1 0 :: (nat, nat, nat, nat) world) = Inr (b, a', w') \<and>
     aw_destroy a' w' = Inl Undefined_Behaviour"
proof -
  let ?w = "init_world 1 0 :: (nat, nat, nat, nat) world"
  obtain b a' w' where m: "aw_move 21 \<lparr>aw_cell = 20, aw_id = 0, aw_data = True\<rparr> ?w = Inr (b, a', w')"
    by (simp add: aw_move_def)
  from moved_from_destructor_undefined [OF m] m show ?thesis by blast
qed

text \<open>
  A completion that arrives before the coroutine suspends is dropped: the state does
  not change, and suspending afterwards resumes nothing.
\<close>

theorem early_completion_lost:
  assumes "aw_new prep cell w = (a, w1)" "readiness_waiters (snd (draw_proc w)) (aw_id a) = None"
  shows "cqe_ready_received (aw_id a) r w1 = w1 \<and>
    (\<exists>w2. await_suspend (Some h) a (cqe_ready_received (aw_id a) r w1) = Inr w2 \<and> resumed w2 = resumed w1)"
  using assms by (auto simp: awaitable_defs split: prod.splits)

lemma early_completion_lost_witness:
  "cqe_ready_received 0 512 (snd (aw_new (Prep_read 4 0 512) 20 (init_world 1 0 :: (nat, nat, nat, nat) world))) =
     snd (aw_new (Prep_read 4 0 512) 20 (init_world 1 0))"
proof -
  let ?w = "init_world 1 0 :: (nat, nat, nat, nat) world"
  let ?r = "aw_new (Prep_read 4 0 512) 20 ?w"
  have r: "?r = (fst ?r, snd ?r)" by simp
  have i: "aw_id (fst ?r) = 0"
    by (simp add: awaitable_defs draw_proc_def get_proc_id_def take_id_def init_world_def init_thread_ids_def
        init_blocks_def init_cursor_def)
  have n: "readiness_waiters (snd (draw_proc ?w)) (aw_id (fst ?r)) = None"
    by (simp add: draw_proc_def init_world_def split: prod.split)
  from early_completion_lost [OF r n, of 512] show ?thesis unfolding i by blast
qed

end
