(* ===== verification/Alloc_Arena.thy ===== *)
theory Alloc_Arena
  imports Prelude
begin

text \<open>
  One arena of the block allocator (\<^verbatim>\<open>src/alloc/alloc_wrapper.{h,cpp}\<close>): the array of 64
  \<^verbatim>\<open>SegmentInfo\<close> entries, the scan of \<^verbatim>\<open>bmalloc\<close> over it, the carving of a segment and the
  release with coalescing of \<^verbatim>\<open>bfree\<close>.  The array is a boundary-tag list: the entry at the
  start of a segment holds the length of the segment and the start of the one before it.

  The abstract view of an arena is the list of its segments, each a length and a flag
  "occupied".  The second half shows that the array operations implement \<open>alloc_last\<close> and
  \<open>free_at\<close> on that list.
\<close>

section \<open>Model\<close>

definition BLOCK_SIZE_MMAP :: nat where
  "BLOCK_SIZE_MMAP = 16 * 1024"

definition BLOCKS_IN_ARENA :: nat where
  "BLOCKS_IN_ARENA = 64"

definition ARENA_SIZE :: nat where
  "ARENA_SIZE = BLOCK_SIZE_MMAP * BLOCKS_IN_ARENA"

lemmas arena_consts = BLOCK_SIZE_MMAP_def BLOCKS_IN_ARENA_def ARENA_SIZE_def

record segment_info =
  seg_length :: nat
  seg_back :: nat
  seg_occupied :: bool
  seg_interior :: bool

text \<open>\<open>length\<close> and \<open>back\<close> are 7-bit fields: a store keeps the value modulo 128.\<close>

definition bits7 :: "nat \<Rightarrow> nat" where
  "bits7 n = n mod 128"

lemma bits7_small [simp]: "n < 128 \<Longrightarrow> bits7 n = n"
  by (simp add: bits7_def)

text \<open>The default member initialisers of \<^verbatim>\<open>SegmentInfo\<close>.\<close>

definition default_segment :: segment_info where
  "default_segment =
     \<lparr>seg_length = 0, seg_back = 0, seg_occupied = False, seg_interior = True\<rparr>"

definition default_arena :: "segment_info list" where
  "default_arena = replicate BLOCKS_IN_ARENA default_segment"

text \<open>
  The scan of \<^verbatim>\<open>bmalloc\<close>: \<^verbatim>\<open>for (i = 0; i < arr.size(); i += arr[i].length)\<close>.  It does not
  stop at the first fit, so \<open>found\<close> ends as the last segment that fits (\<open>None\<close> is the
  source's \<open>-1\<close>).  A segment of length 0 would keep \<open>i\<close> where it is for ever; the loop is
  a partial function and \<open>None\<close> means that it does not return.
\<close>

partial_function (option) scan_arena ::
  "segment_info list \<Rightarrow> nat \<Rightarrow> nat \<Rightarrow> nat option \<Rightarrow> nat \<Rightarrow> (nat option \<times> nat) option"
where
  "scan_arena arr num i found maxsize =
     (if i < length arr then
        let seg = arr ! i in
        if \<not> (seg_interior seg \<or> seg_occupied seg) \<and> num \<le> seg_length seg
        then scan_arena arr num (i + seg_length seg) (Some i) maxsize
        else scan_arena arr num (i + seg_length seg) found (max maxsize (seg_length seg))
      else Some (found, maxsize))"

text \<open>
  \<^verbatim>\<open>bmalloc\<close>, lines 42-58: take \<open>num\<close> blocks at the start of the segment found, and put a free
  segment behind them when some are left over.  \<open>None\<close> is an index outside the array.
\<close>

definition set_back :: "nat \<Rightarrow> nat \<Rightarrow> segment_info list \<Rightarrow> segment_info list" where
  "set_back j b arr =
     (if j < length arr then upd_at j (\<lambda>s. s\<lparr>seg_back := bits7 b\<rparr>) arr else arr)"

definition carve_block ::
  "segment_info list \<Rightarrow> nat \<Rightarrow> nat \<Rightarrow> segment_info list option"
where
  "carve_block arr found num =
     (let n = seg_length (arr ! found) in
      if n = num \<and> found + n < length arr then
        Some (upd_at found (\<lambda>s. s\<lparr>seg_length := bits7 num, seg_occupied := True\<rparr>)
               (upd_at (found + n) (\<lambda>s. s\<lparr>seg_back := bits7 found\<rparr>) arr))
      else if num < n then
        if found + num < length arr then
          Some (upd_at found (\<lambda>s. s\<lparr>seg_length := bits7 num, seg_occupied := True\<rparr>)
                 (set_back (found + n) (found + num)
                   (arr[found + num :=
                     \<lparr>seg_length = bits7 (n - num), seg_back = bits7 found,
                      seg_occupied = False, seg_interior = False\<rparr>])))
        else None
      else Some (upd_at found (\<lambda>s. s\<lparr>seg_length := bits7 num, seg_occupied := True\<rparr>) arr))"

text \<open>
  \<^verbatim>\<open>bmalloc\<close>, lines 65-74: the first allocation in a new arena.
\<close>

definition carve_fresh :: "segment_info list \<Rightarrow> nat \<Rightarrow> segment_info list" where
  "carve_fresh arr num =
     (let arr1 = upd_at 0 (\<lambda>s. s\<lparr>seg_occupied := True, seg_length := bits7 num\<rparr>) arr in
      if num < BLOCKS_IN_ARENA
      then upd_at num (\<lambda>s. s\<lparr>seg_occupied := False, seg_interior := False, seg_back := 0,
                             seg_length := bits7 (BLOCKS_IN_ARENA - num)\<rparr>) arr1
      else arr1)"

text \<open>
  \<^verbatim>\<open>bfree\<close>, lines 92-96: merge the released segment with a free successor.
\<close>

definition merge_forward :: "segment_info list \<Rightarrow> nat \<Rightarrow> segment_info list" where
  "merge_forward arr position =
     (let forward = position + seg_length (arr ! position) in
      if forward < length arr \<and> \<not> seg_occupied (arr ! forward)
      then upd_at forward (\<lambda>s. s\<lparr>seg_interior := True\<rparr>)
            (upd_at position (\<lambda>s. s\<lparr>seg_length :=
               bits7 (seg_length s + seg_length (arr ! forward))\<rparr>) arr)
      else arr)"

text \<open>
  \<^verbatim>\<open>bfree\<close>, lines 90-111: the forward merge, then the merge with a free predecessor.  The two
  guards with \<open>None\<close> are the accesses \<^verbatim>\<open>arr[position]\<close> and \<^verbatim>\<open>arr[back]\<close>, which the
  source does not check.
\<close>

definition release_block :: "segment_info list \<Rightarrow> nat \<Rightarrow> segment_info list option" where
  "release_block arr position =
     (if length arr \<le> position then None
      else
        let back = seg_back (arr ! position);
            arr1 = merge_forward arr position
        in if position \<noteq> 0 \<and> length arr \<le> back then None
           else if position \<noteq> 0 \<and> \<not> seg_occupied (arr1 ! back) then
             let arr2 = upd_at position (\<lambda>s. s\<lparr>seg_interior := True\<rparr>)
                         (upd_at back (\<lambda>s. s\<lparr>seg_length :=
                            bits7 (seg_length s + seg_length (arr1 ! position))\<rparr>) arr1)
             in Some (set_back (back + seg_length (arr2 ! back)) back arr2)
           else
             let arr2 = upd_at position (\<lambda>s. s\<lparr>seg_occupied := False\<rparr>) arr1
             in Some (set_back (position + seg_length (arr2 ! position)) position arr2))"

section \<open>The segments of an arena\<close>

text \<open>
  \<open>chain arr b i ss\<close>: from index \<open>i\<close> on, the array describes the segments \<open>ss\<close>, and the
  segment before \<open>i\<close> starts at \<open>b\<close>.
\<close>

fun chain :: "segment_info list \<Rightarrow> nat \<Rightarrow> nat \<Rightarrow> (nat \<times> bool) list \<Rightarrow> bool" where
  "chain arr b i [] = True"
| "chain arr b i ((n, occ) # ss) =
     (i < length arr \<and> 0 < n \<and> i + n \<le> length arr \<and>
      arr ! i = \<lparr>seg_length = n, seg_back = b, seg_occupied = occ, seg_interior = False\<rparr> \<and>
      chain arr i (i + n) ss)"

fun last_start :: "nat \<Rightarrow> nat \<Rightarrow> (nat \<times> bool) list \<Rightarrow> nat" where
  "last_start b i [] = b"
| "last_start b i ((n, occ) # ss) = last_start i (i + n) ss"

fun total :: "(nat \<times> bool) list \<Rightarrow> nat" where
  "total [] = 0"
| "total ((n, occ) # ss) = n + total ss"

text \<open>No two neighbouring segments are both free.\<close>

definition coalesced :: "(nat \<times> bool) list \<Rightarrow> bool" where
  "coalesced = successively (\<lambda>x y. snd x \<or> snd y)"

lemma coalesced_simps [simp]:
  "coalesced []"
  "coalesced [x]"
  "coalesced (x # y # ss) \<longleftrightarrow> (snd x \<or> snd y) \<and> coalesced (y # ss)"
  by (simp_all add: coalesced_def)

lemma coalesced_append [simp]:
  "coalesced (xs @ ys) \<longleftrightarrow>
     coalesced xs \<and> coalesced ys \<and> (xs = [] \<or> ys = [] \<or> snd (last xs) \<or> snd (hd ys))"
  by (simp add: coalesced_def successively_append_iff)

lemma coalesced_Cons:
  "coalesced (x # ys) \<longleftrightarrow> coalesced ys \<and> (ys = [] \<or> snd x \<or> snd (hd ys))"
  by (cases ys) auto

definition arena_ok :: "segment_info list \<Rightarrow> (nat \<times> bool) list \<Rightarrow> bool" where
  "arena_ok arr ss \<longleftrightarrow>
     length arr = BLOCKS_IN_ARENA \<and> chain arr 0 0 ss \<and> total ss = BLOCKS_IN_ARENA \<and> coalesced ss"

lemma total_append [simp]: "total (xs @ ys) = total xs + total ys"
  by (induction xs rule: total.induct) auto

lemma last_start_append [simp]:
  "last_start b i (xs @ ys) = last_start (last_start b i xs) (i + total xs) ys"
  by (induction b i xs rule: last_start.induct) (auto simp: add.assoc)

lemma chain_append [simp]:
  "chain arr b i (xs @ ys) \<longleftrightarrow>
     chain arr b i xs \<and> chain arr (last_start b i xs) (i + total xs) ys"
  by (induction arr b i xs rule: chain.induct) (auto simp: add.assoc)

lemma chain_below [simp]: "j < i \<Longrightarrow> chain (upd_at j f arr) b i ss = chain arr b i ss"
  by (induction arr b i ss rule: chain.induct) auto

lemma chain_above [simp]:
  "i + total ss \<le> j \<Longrightarrow> chain (upd_at j f arr) b i ss = chain arr b i ss"
  by (induction arr b i ss rule: chain.induct) auto

lemma chain_upd_below [simp]: "j < i \<Longrightarrow> chain (arr[j := x]) b i ss = chain arr b i ss"
  using chain_below [of j i "\<lambda>_. x" arr b ss] by (simp add: upd_at_def)

lemma chain_upd_above [simp]:
  "i + total ss \<le> j \<Longrightarrow> chain (arr[j := x]) b i ss = chain arr b i ss"
  using chain_above [of i ss j "\<lambda>_. x" arr b] by (simp add: upd_at_def)

lemma length_set_back [simp]: "length (set_back j b arr) = length arr"
  by (simp add: set_back_def)

lemma set_back_Nil_iff [simp]: "set_back j b arr = [] \<longleftrightarrow> arr = []"
  by (simp add: set_back_def)

lemma nth_set_back_neq [simp]: "i \<noteq> j \<Longrightarrow> set_back j b arr ! i = arr ! i"
  by (simp add: set_back_def)

lemma chain_set_back_below [simp]: "j < i \<Longrightarrow> chain (set_back j c arr) b i ss = chain arr b i ss"
  by (simp add: set_back_def)

lemma chain_set_back_above [simp]:
  "i + total ss \<le> j \<Longrightarrow> chain (set_back j c arr) b i ss = chain arr b i ss"
  by (simp add: set_back_def)

text \<open>Re-linking the first segment of a chain to a new predecessor.\<close>

lemma chain_set_back:
  assumes "chain arr b i ss" "c < 128" "i + total ss = length arr"
  shows "chain (set_back i c arr) c i ss"
proof (cases ss)
  case (Cons s ss')
  then show ?thesis
    using assms by (cases s) (auto simp: set_back_def)
qed simp

lemma last_start_le: "chain arr b i ss \<Longrightarrow> ss \<noteq> [] \<Longrightarrow> last_start b i ss < i + total ss"
proof (induction arr b i ss rule: chain.induct)
  case (2 arr b i n occ ss)
  then show ?case by (cases ss) (auto simp: add.assoc)
qed simp

lemma chain_total: "chain arr b i ss \<Longrightarrow> ss \<noteq> [] \<Longrightarrow> i + total ss \<le> length arr"
proof (induction arr b i ss rule: chain.induct)
  case (2 arr b i n occ ss)
  then show ?case by (cases ss) (auto simp: add.assoc)
qed simp

section \<open>The abstract arena and the refinement\<close>

text \<open>Allocation on the list of segments: the last free segment that is long enough.\<close>

definition carve_seg :: "nat \<Rightarrow> nat \<Rightarrow> (nat \<times> bool) list" where
  "carve_seg num n = (num, True) # (if n = num then [] else [(n - num, False)])"

fun alloc_last :: "nat \<Rightarrow> (nat \<times> bool) list \<Rightarrow> (nat \<times> (nat \<times> bool) list) option" where
  "alloc_last num [] = None"
| "alloc_last num ((n, occ) # ss) =
     (case alloc_last num ss of
        Some (k, ss') \<Rightarrow> Some (n + k, (n, occ) # ss')
      | None \<Rightarrow> if \<not> occ \<and> num \<le> n then Some (0, carve_seg num n @ ss) else None)"

text \<open>Release on the list of segments: the segment at offset \<open>k\<close> becomes free and is joined with
  its free neighbours.\<close>

definition free_cons :: "nat \<Rightarrow> (nat \<times> bool) list \<Rightarrow> (nat \<times> bool) list" where
  "free_cons n ss =
     (case ss of (m, False) # r \<Rightarrow> (n + m, False) # r | _ \<Rightarrow> (n, False) # ss)"

fun free_at :: "nat \<Rightarrow> (nat \<times> bool) list \<Rightarrow> (nat \<times> bool) list option" where
  "free_at k [] = None"
| "free_at k ((n, occ) # ss) =
     (if k = 0 then (if occ then Some (free_cons n ss) else None)
      else if k < n then None
      else map_option (\<lambda>ss'. if occ then (n, occ) # ss' else free_cons n ss') (free_at (k - n) ss))"

lemma total_carve_seg [simp]: "num \<le> n \<Longrightarrow> total (carve_seg num n) = n"
  by (simp add: carve_seg_def)

lemma total_free_cons [simp]: "total (free_cons n ss) = n + total ss"
  by (simp add: free_cons_def split: list.split prod.split bool.split)

lemma alloc_last_split:
  "alloc_last num ss = Some (k, ss') \<Longrightarrow>
     \<exists>pre n post. ss = pre @ (n, False) # post \<and> k = total pre \<and> num \<le> n \<and>
       ss' = pre @ carve_seg num n @ post"
proof (induction num ss arbitrary: k ss' rule: alloc_last.induct)
  case (2 num n occ ss)
  show ?case
  proof (cases "alloc_last num ss")
    case None
    with "2.prems" have "\<not> occ" "num \<le> n" "k = 0" "ss' = carve_seg num n @ ss"
      by (auto split: if_splits)
    then have "(n, occ) # ss = [] @ (n, False) # ss \<and> k = total [] \<and> num \<le> n \<and>
        ss' = [] @ carve_seg num n @ ss"
      by simp
    then show ?thesis by blast
  next
    case (Some p)
    obtain k1 ss1 where p: "p = (k1, ss1)" by (cases p)
    from "2.IH" [OF Some [unfolded p]] obtain pre m post where
      *: "ss = pre @ (m, False) # post" "k1 = total pre" "num \<le> m"
        "ss1 = pre @ carve_seg num m @ post"
      by blast
    from "2.prems" Some p have "k = n + k1" "ss' = (n, occ) # ss1" by auto
    with * have "(n, occ) # ss = ((n, occ) # pre) @ (m, False) # post \<and>
        k = total ((n, occ) # pre) \<and> num \<le> m \<and>
        ss' = ((n, occ) # pre) @ carve_seg num m @ post"
      by simp
    then show ?thesis by blast
  qed
qed simp

lemma alloc_last_None:
  "alloc_last num ss = None \<Longrightarrow> (n, False) \<in> set ss \<Longrightarrow> n < num"
  by (induction num ss rule: alloc_last.induct) (auto split: option.splits if_splits)

text \<open>The scan returns on every well-formed arena and finds what \<open>alloc_last\<close> chooses.\<close>

lemma scan_arena_chain:
  "chain arr b i ss \<Longrightarrow> i + total ss = length arr \<Longrightarrow>
     \<exists>mx. scan_arena arr num i found maxsize =
       Some ((case alloc_last num ss of None \<Rightarrow> found | Some (k, _) \<Rightarrow> Some (i + k)), mx)"
proof (induction arr b i ss arbitrary: found maxsize rule: chain.induct)
  case (1 arr b i)
  then show ?case by (simp add: scan_arena.simps)
next
  case (2 arr b i n occ ss)
  have cell: "arr ! i = \<lparr>seg_length = n, seg_back = b, seg_occupied = occ, seg_interior = False\<rparr>"
    and i: "i < length arr" and rest: "chain arr i (i + n) ss"
    and tot: "i + n + total ss = length arr"
    using "2.prems" by simp_all
  note IH = "2.IH" [OF rest tot]
  show ?case
  proof (cases "\<not> occ \<and> num \<le> n")
    case True
    with i cell have "scan_arena arr num i found maxsize =
        scan_arena arr num (i + n) (Some i) maxsize"
      by (subst scan_arena.simps) simp
    with True IH [of "Some i" maxsize] show ?thesis
      by (auto split: option.split simp: add.assoc)
  next
    case False
    with i cell have "scan_arena arr num i found maxsize =
        scan_arena arr num (i + n) found (max maxsize n)"
      by (subst scan_arena.simps) auto
    with False IH [of found "max maxsize n"] show ?thesis
      by (auto split: option.split simp: add.assoc)
  qed
qed

text \<open>A segment of length 0 is never left: the scan does not return.\<close>

lemma scan_arena_stuck:
  assumes "i < length arr" "seg_length (arr ! i) = 0"
  shows "scan_arena arr num i found maxsize = None"
proof (rule ccontr)
  assume "scan_arena arr num i found maxsize \<noteq> None"
  then obtain r where ret: "scan_arena arr num i found maxsize = Some r" by blast
  have "\<not> (i < length arr \<and> seg_length (arr ! i) = 0)"
  proof (rule scan_arena.raw_induct
      [where P = "\<lambda>arr num i found maxsize r. \<not> (i < length arr \<and> seg_length (arr ! i) = 0)",
        OF _ ret])
    fix f arr num i found maxsize r
    assume IH: "\<And>arr num i found maxsize r. f arr num i found maxsize = Some r \<Longrightarrow>
        \<not> (i < length arr \<and> seg_length (arr ! i) = 0)"
      and eq: "(if i < length arr then
          let seg = arr ! i in
          if \<not> (seg_interior seg \<or> seg_occupied seg) \<and> num \<le> seg_length seg
          then f arr num (i + seg_length seg) (Some i) maxsize
          else f arr num (i + seg_length seg) found (max maxsize (seg_length seg))
        else Some (found, maxsize)) = Some r"
    show "\<not> (i < length arr \<and> seg_length (arr ! i) = 0)"
    proof
      assume stuck: "i < length arr \<and> seg_length (arr ! i) = 0"
      with eq have "f arr num i (Some i) maxsize = Some r \<or> f arr num i found (max maxsize 0) = Some r"
        by (auto simp: Let_def split: if_splits)
      with IH stuck show False by blast
    qed
  qed
  with assms show False by blast
qed

text \<open>Carving a segment out of the array carves it out of the list.\<close>

lemma chain_cell:
  assumes "chain arr 0 0 (pre @ (n, occ) # post)"
  shows "arr ! total pre = \<lparr>seg_length = n, seg_back = last_start 0 0 pre, seg_occupied = occ,
           seg_interior = False\<rparr>"
    and "total pre < length arr" "0 < n" "total pre + n \<le> length arr"
  using assms by simp_all

lemma carve_block_chain:
  assumes ch: "chain arr 0 0 (pre @ (n, False) # post)"
    and tot: "total (pre @ (n, False) # post) = length arr"
    and len: "length arr = BLOCKS_IN_ARENA" and num: "0 < num" "num \<le> n"
  shows "\<exists>arr'. carve_block arr (total pre) num = Some arr' \<and> length arr' = length arr \<and>
           chain arr' 0 0 (pre @ carve_seg num n @ post)"
proof -
  let ?k = "total pre"
  note cell = chain_cell [OF ch]
  have small: "?k + n \<le> 64" "length arr = 64"
    using cell len by (simp_all add: arena_consts)
  have pre: "chain arr 0 0 pre" and post: "chain arr ?k (?k + n) post"
    using ch by simp_all
  have end_post: "?k + n + total post = length arr"
    using tot by simp
  let ?occ = "\<lambda>s. s\<lparr>seg_length := bits7 num, seg_occupied := True\<rparr>"
  show ?thesis
  proof (cases "n = num")
    case True
    let ?arr1 = "set_back (?k + n) ?k arr"
    have "carve_block arr ?k num = Some (upd_at ?k ?occ ?arr1)"
      using True cell small by (simp add: carve_block_def set_back_def)
    moreover have "chain ?arr1 ?k (?k + n) post"
      by (rule chain_set_back [OF post _ end_post]) (use small cell in simp)
    ultimately show ?thesis
      using True cell small pre num by (auto simp: carve_seg_def)
  next
    case False
    with num have lt: "num < n" by simp
    let ?free = "\<lparr>seg_length = bits7 (n - num), seg_back = bits7 ?k,
      seg_occupied = False, seg_interior = False\<rparr>"
    let ?arr1 = "arr[?k + num := ?free]"
    let ?arr2 = "set_back (?k + n) (?k + num) ?arr1"
    have "carve_block arr ?k num = Some (upd_at ?k ?occ ?arr2)"
      using lt cell small by (simp add: carve_block_def)
    moreover have "chain ?arr2 (?k + num) (?k + n) post"
    proof (rule chain_set_back)
      show "chain ?arr1 ?k (?k + n) post" using post lt by simp
    qed (use small lt end_post in simp_all)
    ultimately show ?thesis
      using lt cell small pre num by (auto simp: carve_seg_def)
  qed
qed

lemma coalesced_carve:
  "coalesced (pre @ (n, False) # post) \<Longrightarrow> coalesced (pre @ carve_seg num n @ post)"
  by (auto simp: carve_seg_def coalesced_Cons)

text \<open>The first allocation in a new arena.\<close>

lemma carve_fresh_ok:
  assumes "0 < num" "num \<le> BLOCKS_IN_ARENA"
    and "length arr = BLOCKS_IN_ARENA"
    and "arr ! 0 = \<lparr>seg_length = BLOCKS_IN_ARENA, seg_back = 0, seg_occupied = False,
           seg_interior = False\<rparr>"
  shows "arena_ok (carve_fresh arr num) (carve_seg num BLOCKS_IN_ARENA)"
  using assms by (auto simp: arena_ok_def carve_fresh_def carve_seg_def arena_consts)

text \<open>
  Release, in two steps.  After the forward merge the segment being released has length \<open>n1\<close>
  and is followed by \<open>post1\<close>, whose first back link is not yet up to date.
\<close>

lemma merge_forward_chain:
  assumes ch: "chain arr 0 0 (pre @ (n, True) # post)"
    and tot: "total (pre @ (n, True) # post) = length arr" and len: "length arr = BLOCKS_IN_ARENA"
    and co: "coalesced post"
  obtains n1 post1 b where
    "free_cons n post = (n1, False) # post1"
    "length (merge_forward arr (total pre)) = length arr"
    "chain (merge_forward arr (total pre)) 0 0 (pre @ [(n1, True)])"
    "chain (merge_forward arr (total pre)) b (total pre + n1) post1"
    "total pre + n1 + total post1 = length arr"
    "coalesced ((0, False) # post1)"
proof -
  let ?k = "total pre"
  note cell = chain_cell [OF ch]
  have small: "length arr = 64" using len by (simp add: arena_consts)
  consider (free) q post' where "post = (q, False) # post'"
    | (occ) q post' where "post = (q, True) # post'" | (nil) "post = []"
    by (metis (full_types) list.exhaust surj_pair)
  then show ?thesis
  proof cases
    case free
    have "merge_forward arr ?k = upd_at (?k + n) (\<lambda>s. s\<lparr>seg_interior := True\<rparr>)
        (upd_at ?k (\<lambda>s. s\<lparr>seg_length := n + q\<rparr>) arr)"
      using ch free cell small tot by (simp add: merge_forward_def upd_at_def)
    then show ?thesis
      using ch free cell small tot co
      by (intro that [of "n + q" post' "?k + n"])
        (simp_all add: free_cons_def add.assoc coalesced_Cons)
  next
    case occ
    have "merge_forward arr ?k = arr"
      using ch occ cell by (simp add: merge_forward_def)
    then show ?thesis
      using ch occ cell small tot co
      by (intro that [of n post ?k]) (simp_all add: free_cons_def)
  next
    case nil
    have "merge_forward arr ?k = arr"
      using ch nil cell small tot by (simp add: merge_forward_def)
    then show ?thesis
      using ch nil cell small tot
      by (intro that [of n "[]" ?k]) (simp_all add: free_cons_def)
  qed
qed

text \<open>Joining a freed segment with the segments before and after it.\<close>

definition free_between ::
  "(nat \<times> bool) list \<Rightarrow> nat \<Rightarrow> (nat \<times> bool) list \<Rightarrow> (nat \<times> bool) list"
where
  "free_between pre n post =
     (if pre \<noteq> [] \<and> \<not> snd (last pre)
      then butlast pre @ free_cons (fst (last pre)) (free_cons n post)
      else pre @ free_cons n post)"

lemma free_cons_Cons_free: "free_cons m ((n, False) # post) = (m + n, False) # post"
  by (simp add: free_cons_def)

lemma total_free_between [simp]: "total (free_between pre n post) = total pre + n + total post"
proof (cases pre rule: rev_cases)
  case (snoc pre' x)
  then show ?thesis by (cases x) (simp add: free_between_def)
qed (simp add: free_between_def)

lemma release_block_arena:
  assumes ok: "arena_ok arr (pre @ (n, True) # post)"
  shows "\<exists>arr'. release_block arr (total pre) = Some arr' \<and>
           arena_ok arr' (free_between pre n post)"
proof -
  let ?k = "total pre" and ?arr1 = "merge_forward arr (total pre)"
  have ch: "chain arr 0 0 (pre @ (n, True) # post)" and len: "length arr = BLOCKS_IN_ARENA"
    and tot: "total (pre @ (n, True) # post) = length arr"
    and co: "coalesced (pre @ (n, True) # post)"
    using ok by (simp_all add: arena_ok_def)
  note cell = chain_cell [OF ch]
  have small: "length arr = 64" using len by (simp add: arena_consts)
  have co_post: "coalesced post" and co_pre: "coalesced pre"
    using co by (simp_all add: coalesced_Cons)
  obtain n1 post1 b where fc: "free_cons n post = (n1, False) # post1"
    and l1: "length ?arr1 = length arr"
    and c1: "chain ?arr1 0 0 (pre @ [(n1, True)])"
    and c2: "chain ?arr1 b (?k + n1) post1"
    and t1: "?k + n1 + total post1 = length arr"
    and co1: "coalesced ((0, False) # post1)"
    by (rule merge_forward_chain [OF ch tot len co_post])
  note cell1 = chain_cell [OF c1]
  have bk: "seg_back (arr ! ?k) = last_start 0 0 pre" using cell by simp
  show ?thesis
  proof (cases pre rule: rev_cases)
    case Nil
    let ?arr2 = "upd_at 0 (\<lambda>s. s\<lparr>seg_occupied := False\<rparr>) ?arr1"
    have "release_block arr 0 = Some (set_back n1 0 ?arr2)"
      using Nil cell cell1 l1 bk by (simp add: release_block_def)
    moreover have "chain (set_back n1 0 ?arr2) 0 n1 post1"
    proof (rule chain_set_back)
      show "chain ?arr2 b n1 post1" using c2 cell1 Nil by simp
    qed (use t1 l1 Nil in simp_all)
    ultimately show ?thesis
      using Nil fc t1 l1 len cell1 co1 cell
      by (auto simp: free_between_def arena_ok_def coalesced_Cons)
  next
    case (snoc pre' x)
    obtain m occ where x: "x = (m, occ)" by (cases x)
    have lst: "last_start 0 0 pre = total pre'" and k: "?k = total pre' + m"
      using snoc x by simp_all
    have m: "0 < m" and pc: "?arr1 ! total pre' = \<lparr>seg_length = m,
        seg_back = last_start 0 0 pre', seg_occupied = occ, seg_interior = False\<rparr>"
      and cp: "chain ?arr1 0 0 pre'"
      using c1 snoc x by simp_all
    show ?thesis
    proof (cases occ)
      case True
      let ?arr2 = "upd_at ?k (\<lambda>s. s\<lparr>seg_occupied := False\<rparr>) ?arr1"
      have "release_block arr ?k = Some (set_back (?k + n1) ?k ?arr2)"
        using cell cell1 l1 bk lst k m pc True by (simp add: release_block_def Let_def)
      moreover have "chain (set_back (?k + n1) ?k ?arr2) ?k (?k + n1) post1"
      proof (rule chain_set_back)
        show "chain ?arr2 b (?k + n1) post1" using c2 cell1 by simp
      qed (use t1 l1 cell small in simp_all)
      moreover have "chain ?arr2 0 0 pre" using c1 by simp
      ultimately show ?thesis
        using snoc x True fc t1 l1 len cell1 co1 co_pre k
        by (auto simp: free_between_def arena_ok_def coalesced_Cons add.assoc)
    next
      case False
      let ?p = "total pre'"
      let ?arr2 = "upd_at ?k (\<lambda>s. s\<lparr>seg_interior := True\<rparr>)
          (upd_at ?p (\<lambda>s. s\<lparr>seg_length := bits7 (seg_length s + n1)\<rparr>) ?arr1)"
      have "seg_length (?arr2 ! ?p) = m + n1"
        using pc l1 k m t1 small by simp
      then have "release_block arr ?k = Some (set_back (?p + (m + n1)) ?p ?arr2)"
        using cell cell1 l1 bk lst k m pc False by (simp add: release_block_def Let_def)
      moreover have "chain (set_back (?p + (m + n1)) ?p ?arr2) ?p (?p + (m + n1)) post1"
      proof (rule chain_set_back)
        show "chain ?arr2 b (?p + (m + n1)) post1" using c2 cell1 m k by (simp add: add.assoc)
      qed (use t1 l1 k small m in simp_all)
      ultimately show ?thesis
        using snoc x False fc t1 l1 len cell1 co1 co_pre k m pc cp small
        by (auto simp: free_between_def arena_ok_def coalesced_Cons free_cons_Cons_free add.assoc)
    qed
  qed
qed

text \<open>The abstract release computes the same list.\<close>

lemma free_at_free_between:
  "coalesced (pre @ (n, True) # post) \<Longrightarrow> \<forall>s \<in> set pre. 0 < fst s \<Longrightarrow>
     free_at (total pre) (pre @ (n, True) # post) = Some (free_between pre n post)"
proof (induction pre)
  case Nil
  then show ?case by (simp add: free_between_def)
next
  case (Cons x pre)
  obtain m occ where x: "x = (m, occ)" by (cases x)
  have IH: "free_at (total pre) (pre @ (n, True) # post) = Some (free_between pre n post)"
    using Cons by (simp add: coalesced_Cons)
  show ?case
  proof (cases "occ \<or> pre = []")
    case True
    then show ?thesis using Cons.prems x IH by (auto simp: free_between_def)
  next
    case False
    then obtain q pre' where pre: "pre = (q, True) # pre'"
      using Cons.prems x by (cases pre) auto
    then have "free_cons m (free_between pre n post) = (m, False) # free_between pre n post"
      by (cases pre' rule: rev_cases) (auto simp: free_between_def free_cons_def)
    moreover have "free_between (x # pre) n post = x # free_between pre n post"
      using pre by (auto simp: free_between_def)
    ultimately show ?thesis using Cons.prems x IH False by simp
  qed
qed

lemma chain_pos: "chain arr b i ss \<Longrightarrow> \<forall>s \<in> set ss. 0 < fst s"
  by (induction arr b i ss rule: chain.induct) auto

text \<open>The blocks in use, as (offset, length) pairs, and where a segment starts.\<close>

fun occ_blocks :: "nat \<Rightarrow> (nat \<times> bool) list \<Rightarrow> (nat \<times> nat) set" where
  "occ_blocks i [] = {}"
| "occ_blocks i ((n, occ) # ss) = (if occ then {(i, n)} else {}) \<union> occ_blocks (i + n) ss"

lemma occ_blocks_append [simp]:
  "occ_blocks i (xs @ ys) = occ_blocks i xs \<union> occ_blocks (i + total xs) ys"
  by (induction i xs rule: occ_blocks.induct) (auto simp: add.assoc)

lemma occ_blocks_bounds: "(k, n) \<in> occ_blocks i ss \<Longrightarrow> i \<le> k \<and> k + n \<le> i + total ss"
  by (induction i ss rule: occ_blocks.induct) (auto split: if_splits)

lemma occ_blocks_split:
  "(k, n) \<in> occ_blocks i ss \<Longrightarrow> \<exists>pre post. ss = pre @ (n, True) # post \<and> k = i + total pre"
proof (induction i ss rule: occ_blocks.induct)
  case (2 i m occ ss)
  show ?case
  proof (cases "occ \<and> (k, n) = (i, m)")
    case True
    then have "(m, occ) # ss = [] @ (n, True) # ss \<and> k = i + total []" by simp
    then show ?thesis by blast
  next
    case False
    with "2.prems" have "(k, n) \<in> occ_blocks (i + m) ss" by (auto split: if_splits)
    from "2.IH" [OF this] obtain pre post where
      "ss = pre @ (n, True) # post" "k = i + m + total pre" by blast
    then have "(m, occ) # ss = ((m, occ) # pre) @ (n, True) # post \<and> k = i + total ((m, occ) # pre)"
      by simp
    then show ?thesis by blast
  qed
qed simp

lemma occ_blocks_disjoint:
  "(k, n) \<in> occ_blocks i ss \<Longrightarrow> (k', n') \<in> occ_blocks i ss \<Longrightarrow>
     (k, n) = (k', n') \<or> k + n \<le> k' \<or> k' + n' \<le> k"
  by (induction i ss rule: occ_blocks.induct) (auto split: if_splits dest: occ_blocks_bounds)

lemma occ_blocks_carve_seg [simp]: "occ_blocks i (carve_seg num n) = {(i, num)}"
  by (simp add: carve_seg_def)

lemma occ_blocks_free_cons [simp]: "occ_blocks i (free_cons n ss) = occ_blocks (i + n) ss"
  by (auto simp: free_cons_def add.assoc split: list.split prod.split bool.split)

lemma occ_blocks_free_between [simp]:
  "occ_blocks i (free_between pre n post) =
     occ_blocks i pre \<union> occ_blocks (i + total pre + n) post"
proof (cases pre rule: rev_cases)
  case (snoc pre' x)
  then show ?thesis by (cases x) (auto simp: free_between_def add.assoc)
qed (simp add: free_between_def)

lemma coalesced_free_between_carve:
  assumes "coalesced (pre @ (n, False) # post)" "0 < num" "num \<le> n"
  shows "free_between pre num ((if n = num then [] else [(n - num, False)]) @ post) =
    pre @ (n, False) # post"
proof -
  have "free_cons num ((if n = num then [] else [(n - num, False)]) @ post) = (n, False) # post"
    using assms by (auto simp: free_cons_def coalesced_Cons split: list.split prod.split bool.split)
  moreover have "pre = [] \<or> snd (last pre)" using assms(1) by simp
  ultimately show ?thesis by (auto simp: free_between_def)
qed

end
