(* ===== verification/Alloc.thy ===== *)
theory Alloc
  imports Alloc_Arena
begin

text \<open>
  The block allocator \<^verbatim>\<open>AllocatorWrapper\<close> (\<^verbatim>\<open>src/alloc/alloc_wrapper.{h,cpp}\<close>): a sorted list
  of 1 MiB arenas of 64 blocks each, and a table of larger mappings.  \<^verbatim>\<open>mmap\<close> is the operating
  system's: the address it returns is an argument of the operations, and what the code relies
  on (the new mapping overlaps no mapping the allocator still holds) is the named hypothesis
  \<open>mmap_fresh\<close>.

  The abstract allocator \<open>abs_alloc\<close> keeps the segment list of each arena; \<open>bmalloc_refines\<close> and
  \<open>bfree_refines\<close> show that the array code implements it, and \<open>block_allocator\<close> is the interface
  the TLS sockets use.
\<close>

section \<open>Model\<close>

record allocator =
  arenas :: "nat list"
  custom_arenas :: "nat \<rightharpoonup> nat"
  segment_tab :: "nat \<rightharpoonup> nat \<times> segment_info list"

definition empty_allocator :: allocator where
  "empty_allocator = \<lparr>arenas = [], custom_arenas = Map.empty, segment_tab = Map.empty\<rparr>"

text \<open>\<^verbatim>\<open>segment_info_[a].second\<close>\<close>

definition arr_of :: "allocator \<Rightarrow> nat \<Rightarrow> segment_info list" where
  "arr_of st a = snd (map_at (segment_tab st) (0, default_arena) a)"

definition put_arr :: "nat \<Rightarrow> segment_info list \<Rightarrow> allocator \<Rightarrow> allocator" where
  "put_arr a arr st = st\<lparr>segment_tab := (segment_tab st)
     (a \<mapsto> (fst (map_at (segment_tab st) (0, default_arena) a), arr))\<rparr>"

text \<open>\<^verbatim>\<open>add_arena(num)\<close>, with \<open>mm\<close> the address \<^verbatim>\<open>mmap\<close> returns.\<close>

definition add_arena :: "nat \<Rightarrow> nat \<Rightarrow> allocator \<Rightarrow> allocator" where
  "add_arena mm num st =
     (if num \<le> BLOCKS_IN_ARENA then
        let arr = (arr_of st mm)[0 := \<lparr>seg_length = bits7 num, seg_back = 0,
                                       seg_occupied = False, seg_interior = False\<rparr>]
        in st\<lparr>arenas := takeWhile (\<lambda>p. p \<le> mm) (arenas st) @ mm # dropWhile (\<lambda>p. p \<le> mm) (arenas st),
              segment_tab := (segment_tab st)(mm \<mapsto> (num, arr))\<rparr>
      else st\<lparr>custom_arenas := (custom_arenas st)(mm \<mapsto> map_at (custom_arenas st) num mm)\<rparr>)"

definition init_allocator :: "nat \<Rightarrow> allocator" where
  "init_allocator mm = add_arena mm BLOCKS_IN_ARENA empty_allocator"

text \<open>
  The outer loop of \<^verbatim>\<open>bmalloc\<close>, lines 24-62, up to the segment it picks.  The outer \<open>None\<close> is a
  scan that does not return; \<open>Some None\<close> is the end of the list.
\<close>

fun search_arenas :: "allocator \<Rightarrow> nat \<Rightarrow> nat list \<Rightarrow> (nat \<times> nat) option option" where
  "search_arenas st num [] = Some None"
| "search_arenas st num (a # as) =
     (if custom_arenas st a \<noteq> None then search_arenas st num as
      else case scan_arena (arr_of st a) num 0 None 0 of
        None \<Rightarrow> None
      | Some (Some k, _) \<Rightarrow> Some (Some (a, k))
      | Some (None, _) \<Rightarrow> search_arenas st num as)"

definition bmalloc :: "nat \<Rightarrow> allocator \<Rightarrow> nat \<Rightarrow> (nat \<times> allocator) option" where
  "bmalloc mm st num =
     (if BLOCKS_IN_ARENA < num then Some (mm, add_arena mm num st)
      else case search_arenas st num (arenas st) of
        None \<Rightarrow> None
      | Some (Some (a, k)) \<Rightarrow>
          map_option (\<lambda>arr. (a + k * BLOCK_SIZE_MMAP, put_arr a arr st))
            (carve_block (arr_of st a) k num)
      | Some None \<Rightarrow>
          let st' = add_arena mm BLOCKS_IN_ARENA st
          in Some (mm, put_arr mm (carve_fresh (arr_of st' mm) num) st'))"

definition bfree :: "allocator \<Rightarrow> nat \<Rightarrow> allocator option" where
  "bfree st p =
     (if custom_arenas st p \<noteq> None then
        Some (st\<lparr>arenas := removeAll p (arenas st),
                 custom_arenas := (custom_arenas st)(p := None)\<rparr>)
      else case find (\<lambda>a. a \<le> p) (rev (arenas st)) of
        None \<Rightarrow> Some st
      | Some a \<Rightarrow>
          (case release_block (arr_of st a) ((p - a) div BLOCK_SIZE_MMAP) of
             None \<Rightarrow> None
           | Some arr \<Rightarrow>
               if \<not> seg_occupied (arr ! 0) \<and> seg_length (arr ! 0) = BLOCKS_IN_ARENA
                  \<and> 3 < length (arenas st)
               then Some (st\<lparr>arenas := removeAll a (arenas st),
                             segment_tab := (segment_tab st)(a := None)\<rparr>)
               else Some (put_arr a arr st)))"

section \<open>The abstract allocator\<close>

record abs_alloc =
  a_arenas :: "(nat \<times> (nat \<times> bool) list) list"
  a_custom :: "nat \<rightharpoonup> nat"

definition insert_arena ::
  "nat \<Rightarrow> 'a \<Rightarrow> (nat \<times> 'a) list \<Rightarrow> (nat \<times> 'a) list"
where
  "insert_arena mm x as =
     takeWhile (\<lambda>a. fst a \<le> mm) as @ (mm, x) # dropWhile (\<lambda>a. fst a \<le> mm) as"

fun abs_search ::
  "nat \<Rightarrow> (nat \<times> (nat \<times> bool) list) list \<Rightarrow> (nat \<times> (nat \<times> (nat \<times> bool) list) list) option"
where
  "abs_search num [] = None"
| "abs_search num ((a, ss) # r) =
     (case alloc_last num ss of
        Some (k, ss') \<Rightarrow> Some (a + k * BLOCK_SIZE_MMAP, (a, ss') # r)
      | None \<Rightarrow> map_option (\<lambda>(p, r'). (p, (a, ss) # r')) (abs_search num r))"

definition abs_bmalloc :: "nat \<Rightarrow> nat \<Rightarrow> abs_alloc \<Rightarrow> nat \<times> abs_alloc" where
  "abs_bmalloc mm num A =
     (if BLOCKS_IN_ARENA < num then (mm, A\<lparr>a_custom := (a_custom A)(mm \<mapsto> num)\<rparr>)
      else case abs_search num (a_arenas A) of
        Some (p, as) \<Rightarrow> (p, A\<lparr>a_arenas := as\<rparr>)
      | None \<Rightarrow> (mm, A\<lparr>a_arenas := insert_arena mm (carve_seg num BLOCKS_IN_ARENA) (a_arenas A)\<rparr>))"

text \<open>The blocks in use, as (address, number of blocks) pairs.\<close>

definition arena_live :: "nat \<times> (nat \<times> bool) list \<Rightarrow> (nat \<times> nat) set" where
  "arena_live x = (\<lambda>(k, n). (fst x + k * BLOCK_SIZE_MMAP, n)) ` occ_blocks 0 (snd x)"

definition live :: "abs_alloc \<Rightarrow> (nat \<times> nat) set" where
  "live A = (\<Union>x \<in> set (a_arenas A). arena_live x) \<union> {(c, n). a_custom A c = Some n}"

definition overlap :: "nat \<times> nat \<Rightarrow> nat \<times> nat \<Rightarrow> bool" where
  "overlap x y \<longleftrightarrow> fst x < fst y + snd y * BLOCK_SIZE_MMAP \<and> fst y < fst x + snd x * BLOCK_SIZE_MMAP"

lemma overlap_sym: "overlap x y = overlap y x"
  by (auto simp: overlap_def)

text \<open>Everything the allocator has mapped, and the hypothesis on \<^verbatim>\<open>mmap\<close>.\<close>

definition mapped :: "abs_alloc \<Rightarrow> (nat \<times> nat) set" where
  "mapped A = (\<lambda>x. (fst x, BLOCKS_IN_ARENA)) ` set (a_arenas A) \<union> {(c, n). a_custom A c = Some n}"

definition mmap_fresh :: "abs_alloc \<Rightarrow> nat \<Rightarrow> nat \<Rightarrow> bool" where
  "mmap_fresh A mm n \<longleftrightarrow> (\<forall>r \<in> mapped A. \<not> overlap (mm, n) r)"

definition abs_inv :: "abs_alloc \<Rightarrow> bool" where
  "abs_inv A \<longleftrightarrow>
     sorted_wrt (\<lambda>x y. fst x + ARENA_SIZE \<le> fst y) (a_arenas A) \<and>
     (\<forall>x \<in> set (a_arenas A). total (snd x) = BLOCKS_IN_ARENA) \<and>
     (\<forall>c n. a_custom A c = Some n \<longrightarrow> BLOCKS_IN_ARENA < n) \<and>
     (\<forall>c n. a_custom A c = Some n \<longrightarrow>
        (\<forall>x \<in> set (a_arenas A). \<not> overlap (c, n) (fst x, BLOCKS_IN_ARENA))) \<and>
     (\<forall>c n c' n'. a_custom A c = Some n \<longrightarrow> a_custom A c' = Some n' \<longrightarrow> c \<noteq> c' \<longrightarrow>
        \<not> overlap (c, n) (c', n'))"

definition alloc_rel :: "allocator \<Rightarrow> abs_alloc \<Rightarrow> bool" where
  "alloc_rel st A \<longleftrightarrow>
     arenas st = map fst (a_arenas A) \<and> custom_arenas st = a_custom A \<and>
     dom (segment_tab st) = set (arenas st) \<and>
     (\<forall>x \<in> set (a_arenas A). arena_ok (arr_of st (fst x)) (snd x)) \<and> abs_inv A"

lemmas alloc_rel_defs = alloc_rel_def abs_inv_def

section \<open>Refinement of \<^verbatim>\<open>bmalloc\<close>\<close>

lemma block_pos [simp]: "0 < BLOCK_SIZE_MMAP" "0 < BLOCKS_IN_ARENA" "0 < ARENA_SIZE"
  by (simp_all add: arena_consts)

lemma arr_of_put_arr [simp]: "arr_of (put_arr a arr st) b = (if b = a then arr else arr_of st b)"
  by (simp add: arr_of_def put_arr_def map_at_def)

lemma put_arr_simps [simp]:
  "arenas (put_arr a arr st) = arenas st"
  "custom_arenas (put_arr a arr st) = custom_arenas st"
  "dom (segment_tab (put_arr a arr st)) = insert a (dom (segment_tab st))"
  by (simp_all add: put_arr_def)

lemma arena_not_custom:
  assumes "abs_inv A" "x \<in> set (a_arenas A)"
  shows "a_custom A (fst x) = None"
proof (cases "a_custom A (fst x)")
  case (Some n)
  then have "\<not> overlap (fst x, n) (fst x, BLOCKS_IN_ARENA)" "BLOCKS_IN_ARENA < n"
    using assms unfolding abs_inv_def by blast+
  then show ?thesis by (simp add: overlap_def)
qed

lemma arenas_distinct:
  assumes "sorted_wrt (\<lambda>x y. fst x + ARENA_SIZE \<le> fst y) (pre @ (a, ss) # post)"
  shows "\<forall>x \<in> set pre \<union> set post. fst x \<noteq> a"
  using assms by (fastforce simp: sorted_wrt_append arena_consts)

text \<open>Replacing the segments of one arena keeps the relation.\<close>

lemma alloc_rel_replace:
  assumes rel: "alloc_rel st A" and as: "a_arenas A = pre @ (a, ss) # post"
    and ok: "arena_ok arr ss'"
  shows "alloc_rel (put_arr a arr st) (A\<lparr>a_arenas := pre @ (a, ss') # post\<rparr>)"
proof -
  have srt: "sorted_wrt (\<lambda>x y. fst x + ARENA_SIZE \<le> fst y) (pre @ (a, ss) # post)"
    using rel as by (simp add: alloc_rel_defs)
  then have srt': "sorted_wrt (\<lambda>x y. fst x + ARENA_SIZE \<le> fst y) (pre @ (a, ss') # post)"
    by (simp add: sorted_wrt_append)
  have "total ss' = BLOCKS_IN_ARENA" using ok by (simp add: arena_ok_def)
  moreover have "\<forall>c n. a_custom A c = Some n \<longrightarrow> \<not> overlap (c, n) (a, BLOCKS_IN_ARENA)"
    using rel as by (fastforce simp: alloc_rel_defs)
  ultimately show ?thesis
    using rel as ok srt' arenas_distinct [OF srt]
    by (auto simp: alloc_rel_defs)
qed

lemma search_arenas_abs:
  assumes "\<forall>x \<in> set r. custom_arenas st (fst x) = None \<and> arena_ok (arr_of st (fst x)) (snd x)"
  shows "(abs_search num r = None \<and> search_arenas st num (map fst r) = Some None) \<or>
    (\<exists>pre a ss k ss' post. r = pre @ (a, ss) # post \<and> alloc_last num ss = Some (k, ss') \<and>
       abs_search num r = Some (a + k * BLOCK_SIZE_MMAP, pre @ (a, ss') # post) \<and>
       search_arenas st num (map fst r) = Some (Some (a, k)))"
  using assms
proof (induction r)
  case Nil
  then show ?case by simp
next
  case (Cons x r)
  obtain a ss where x: "x = (a, ss)" by (cases x)
  have ok: "arena_ok (arr_of st a) ss" and cu: "custom_arenas st a = None"
    using Cons.prems x by auto
  then obtain mx where scan: "scan_arena (arr_of st a) num 0 None 0 =
      Some ((case alloc_last num ss of None \<Rightarrow> None | Some (k, _) \<Rightarrow> Some (0 + k)), mx)"
    using scan_arena_chain [of "arr_of st a" 0 0 ss num None 0] by (auto simp: arena_ok_def)
  show ?case
  proof (cases "alloc_last num ss")
    case None
    then have step: "search_arenas st num (map fst (x # r)) = search_arenas st num (map fst r)"
      and astep: "abs_search num (x # r) = map_option (\<lambda>(p, r'). (p, x # r')) (abs_search num r)"
      using scan x cu by simp_all
    have "\<forall>x \<in> set r. custom_arenas st (fst x) = None \<and> arena_ok (arr_of st (fst x)) (snd x)"
      using Cons.prems by simp
    from Cons.IH [OF this] show ?thesis
    proof (elim disjE exE conjE)
      assume "abs_search num r = None" "search_arenas st num (map fst r) = Some None"
      then show ?thesis using step astep by simp
    next
      fix pre b ss1 k ss' post
      assume "r = pre @ (b, ss1) # post" "alloc_last num ss1 = Some (k, ss')"
        "abs_search num r = Some (b + k * BLOCK_SIZE_MMAP, pre @ (b, ss') # post)"
        "search_arenas st num (map fst r) = Some (Some (b, k))"
      then have "x # r = (x # pre) @ (b, ss1) # post \<and> alloc_last num ss1 = Some (k, ss') \<and>
          abs_search num (x # r) = Some (b + k * BLOCK_SIZE_MMAP, (x # pre) @ (b, ss') # post) \<and>
          search_arenas st num (map fst (x # r)) = Some (Some (b, k))"
        using step astep by simp
      then show ?thesis by blast
    qed
  next
    case (Some p)
    obtain k ss' where p: "p = (k, ss')" by (cases p)
    have "x # r = [] @ (a, ss) # r \<and> alloc_last num ss = Some (k, ss') \<and>
        abs_search num (x # r) = Some (a + k * BLOCK_SIZE_MMAP, [] @ (a, ss') # r) \<and>
        search_arenas st num (map fst (x # r)) = Some (Some (a, k))"
      using scan x cu Some p by simp
    then show ?thesis by blast
  qed
qed

text \<open>A new arena.\<close>

lemma mmap_fresh_arena:
  assumes "mmap_fresh A mm BLOCKS_IN_ARENA" "x \<in> set (a_arenas A)"
  shows "mm + ARENA_SIZE \<le> fst x \<or> fst x + ARENA_SIZE \<le> mm"
proof -
  have "\<not> overlap (mm, BLOCKS_IN_ARENA) (fst x, BLOCKS_IN_ARENA)"
    using assms unfolding mmap_fresh_def mapped_def by blast
  then show ?thesis by (auto simp: overlap_def arena_consts)
qed

lemma sorted_insert_arena:
  assumes srt: "sorted_wrt (\<lambda>x y. fst x + ARENA_SIZE \<le> fst y) as"
    and sep: "\<forall>x \<in> set as. mm + ARENA_SIZE \<le> fst x \<or> fst x + ARENA_SIZE \<le> mm"
  shows "sorted_wrt (\<lambda>x y. fst x + ARENA_SIZE \<le> fst y) (insert_arena mm ss as)"
  using assms
proof (induction as)
  case Nil
  then show ?case by (simp add: insert_arena_def)
next
  case (Cons y ys)
  show ?case
  proof (cases "fst y \<le> mm")
    case True
    then have "fst y + ARENA_SIZE \<le> mm" using Cons.prems by (fastforce simp: arena_consts)
    moreover have "set (insert_arena mm ss ys) = insert (mm, ss) (set ys)"
      unfolding insert_arena_def set_append list.set
      by (metis Un_insert_right set_append takeWhile_dropWhile_id)
    moreover have "insert_arena mm ss (y # ys) = y # insert_arena mm ss ys"
      using True by (simp add: insert_arena_def)
    ultimately show ?thesis using Cons by auto
  next
    case False
    then have "insert_arena mm ss (y # ys) = (mm, ss) # y # ys" by (simp add: insert_arena_def)
    then show ?thesis using Cons.prems False by (fastforce simp: arena_consts)
  qed
qed

lemma set_insert_arena: "set (insert_arena mm ss as) = insert (mm, ss) (set as)"
  unfolding insert_arena_def set_append list.set
  by (metis Un_insert_right set_append takeWhile_dropWhile_id)

lemma map_fst_insert_arena:
  "map fst (insert_arena mm ss as) =
     takeWhile (\<lambda>p. p \<le> mm) (map fst as) @ mm # dropWhile (\<lambda>p. p \<le> mm) (map fst as)"
  by (simp add: insert_arena_def takeWhile_map dropWhile_map comp_def)

lemma alloc_rel_new_arena:
  assumes rel: "alloc_rel st A" and fresh: "mmap_fresh A mm BLOCKS_IN_ARENA"
    and num: "0 < num" "num \<le> BLOCKS_IN_ARENA"
  defines "st' \<equiv> add_arena mm BLOCKS_IN_ARENA st"
  shows "alloc_rel (put_arr mm (carve_fresh (arr_of st' mm) num) st')
    (A\<lparr>a_arenas := insert_arena mm (carve_seg num BLOCKS_IN_ARENA) (a_arenas A)\<rparr>)"
proof -
  have sep: "\<forall>x \<in> set (a_arenas A). mm + ARENA_SIZE \<le> fst x \<or> fst x + ARENA_SIZE \<le> mm"
    using mmap_fresh_arena [OF fresh] by blast
  then have new: "mm \<notin> fst ` set (a_arenas A)" by (fastforce simp: arena_consts)
  then have "mm \<notin> dom (segment_tab st)"
    using rel unfolding alloc_rel_def by simp
  then have "segment_tab st mm = None" unfolding domIff by blast
  then have arr: "arr_of st' mm = default_arena[0 := \<lparr>seg_length = BLOCKS_IN_ARENA, seg_back = 0,
      seg_occupied = False, seg_interior = False\<rparr>]"
    by (simp add: st'_def add_arena_def arr_of_def map_at_def Let_def arena_consts)
  have ok: "arena_ok (carve_fresh (arr_of st' mm) num) (carve_seg num BLOCKS_IN_ARENA)"
    unfolding arr by (rule carve_fresh_ok) (use num in \<open>simp_all add: default_arena_def\<close>)
  have other: "arr_of st' a = arr_of st a" if "a \<noteq> mm" for a
    using that by (simp add: st'_def add_arena_def arr_of_def map_at_def Let_def)
  have as: "arenas st' = map fst (insert_arena mm (carve_seg num BLOCKS_IN_ARENA) (a_arenas A))"
    using rel by (simp add: st'_def add_arena_def alloc_rel_def map_fst_insert_arena Let_def)
  have customs: "custom_arenas st' = a_custom A"
    using rel by (simp add: st'_def add_arena_def alloc_rel_def Let_def)
  have doms: "dom (segment_tab st') = insert mm (set (arenas st))"
    using rel by (auto simp: st'_def add_arena_def alloc_rel_def Let_def)
  have inv: "abs_inv A" using rel by (simp add: alloc_rel_def)
  have "abs_inv (A\<lparr>a_arenas := insert_arena mm (carve_seg num BLOCKS_IN_ARENA) (a_arenas A)\<rparr>)"
    using inv sorted_insert_arena [OF _ sep] ok fresh
    unfolding abs_inv_def mmap_fresh_def mapped_def
    by (auto simp: set_insert_arena arena_ok_def overlap_sym)
  then show ?thesis
    using as customs doms ok other rel new
    by (auto simp: alloc_rel_def set_insert_arena)
qed

lemma mmap_fresh_custom:
  assumes inv: "abs_inv A" and fresh: "mmap_fresh A mm num" and num: "0 < num"
  shows "a_custom A mm = None"
proof (cases "a_custom A mm")
  case (Some n)
  then have "(mm, n) \<in> mapped A" by (simp add: mapped_def)
  then have "\<not> overlap (mm, num) (mm, n)" using fresh unfolding mmap_fresh_def by blast
  moreover have "BLOCKS_IN_ARENA < n" using inv Some unfolding abs_inv_def by blast
  ultimately show ?thesis using num by (simp add: overlap_def)
qed

lemma abs_inv_custom:
  assumes inv: "abs_inv A" and fresh: "mmap_fresh A mm num" and num: "BLOCKS_IN_ARENA < num"
  shows "abs_inv (A\<lparr>a_custom := (a_custom A)(mm \<mapsto> num)\<rparr>)"
proof -
  have ar: "\<not> overlap (mm, num) (fst x, BLOCKS_IN_ARENA)" if "x \<in> set (a_arenas A)" for x
    using fresh that unfolding mmap_fresh_def mapped_def by blast
  have cu: "\<not> overlap (mm, num) (c, n)" "\<not> overlap (c, n) (mm, num)" if "a_custom A c = Some n" for c n
    using fresh that overlap_sym unfolding mmap_fresh_def mapped_def by blast+
  show ?thesis
    using inv ar cu num unfolding abs_inv_def by simp
qed

theorem bmalloc_refines:
  assumes rel: "alloc_rel st A" and num: "0 < num"
    and fresh: "mmap_fresh A mm (max num BLOCKS_IN_ARENA)"
  shows "\<exists>st'. bmalloc mm st num = Some (fst (abs_bmalloc mm num A), st') \<and>
           alloc_rel st' (snd (abs_bmalloc mm num A))"
proof (cases "BLOCKS_IN_ARENA < num")
  case True
  then have fresh': "mmap_fresh A mm num" using fresh by (simp add: max_def)
  have inv: "abs_inv A" using rel by (simp add: alloc_rel_def)
  have "alloc_rel (add_arena mm num st) (A\<lparr>a_custom := (a_custom A)(mm \<mapsto> num)\<rparr>)"
    using True rel mmap_fresh_custom [OF inv fresh' num] abs_inv_custom [OF inv fresh' True]
    by (simp add: alloc_rel_def add_arena_def arr_of_def)
  then show ?thesis using True by (simp add: bmalloc_def abs_bmalloc_def)
next
  case False
  have inv: "abs_inv A" and as: "arenas st = map fst (a_arenas A)" using rel by (simp_all add: alloc_rel_def)
  have "\<forall>x \<in> set (a_arenas A). custom_arenas st (fst x) = None \<and> arena_ok (arr_of st (fst x)) (snd x)"
    using arena_not_custom [OF inv] rel by (auto simp: alloc_rel_def)
  from search_arenas_abs [OF this, of num] show ?thesis
  proof (elim disjE exE conjE)
    assume "abs_search num (a_arenas A) = None"
      "search_arenas st num (map fst (a_arenas A)) = Some None"
    then show ?thesis
      using False as alloc_rel_new_arena [OF rel _ num] fresh
      by (simp add: bmalloc_def abs_bmalloc_def Let_def max_def)
  next
    fix pre a ss k ss' post
    assume *: "a_arenas A = pre @ (a, ss) # post" "alloc_last num ss = Some (k, ss')"
      "abs_search num (a_arenas A) = Some (a + k * BLOCK_SIZE_MMAP, pre @ (a, ss') # post)"
      "search_arenas st num (map fst (a_arenas A)) = Some (Some (a, k))"
    obtain p1 n p2 where ss: "ss = p1 @ (n, False) # p2" "k = total p1" "num \<le> n"
        "ss' = p1 @ carve_seg num n @ p2"
      using alloc_last_split [OF *(2)] by blast
    have ok: "arena_ok (arr_of st a) (p1 @ (n, False) # p2)"
      using rel *(1) ss(1) by (auto simp: alloc_rel_def)
    then obtain arr where arr: "carve_block (arr_of st a) k num = Some arr"
        "length arr = length (arr_of st a)" "chain arr 0 0 ss'"
      using carve_block_chain [of "arr_of st a" p1 n p2 num] num ss
      by (auto simp: arena_ok_def)
    have "arena_ok arr ss'"
      using ok arr ss coalesced_carve [of p1 n p2 num] by (simp add: arena_ok_def)
    from alloc_rel_replace [OF rel *(1) this] show ?thesis
      using False as arr * by (simp add: bmalloc_def abs_bmalloc_def)
  qed
qed

section \<open>Refinement of \<^verbatim>\<open>bfree\<close>\<close>

definition abs_bfree :: "abs_alloc \<Rightarrow> nat \<Rightarrow> abs_alloc option" where
  "abs_bfree A p =
     (if a_custom A p \<noteq> None then Some (A\<lparr>a_custom := (a_custom A)(p := None)\<rparr>)
      else case find (\<lambda>x. fst x \<le> p) (rev (a_arenas A)) of
        None \<Rightarrow> Some A
      | Some (a, ss) \<Rightarrow> map_option (\<lambda>ss'. A\<lparr>a_arenas :=
            (if ss' = [(BLOCKS_IN_ARENA, False)] \<and> 3 < length (a_arenas A)
             then filter (\<lambda>x. fst x \<noteq> a) (a_arenas A)
             else map (\<lambda>x. if fst x = a then (a, ss') else x) (a_arenas A))\<rparr>)
          (free_at ((p - a) div BLOCK_SIZE_MMAP) ss))"

text \<open>Where a live pointer is found.\<close>

lemma live_cases:
  assumes "(p, n) \<in> live A"
  obtains (custom) "a_custom A p = Some n"
  | (arena) pre a p1 p2 post where
      "a_arenas A = pre @ (a, p1 @ (n, True) # p2) # post" "p = a + total p1 * BLOCK_SIZE_MMAP"
proof -
  consider "a_custom A p = Some n"
    | x k where "x \<in> set (a_arenas A)" "(k, n) \<in> occ_blocks 0 (snd x)" "p = fst x + k * BLOCK_SIZE_MMAP"
    using assms by (auto simp: live_def arena_live_def)
  then show ?thesis
  proof cases
    case 1
    then show ?thesis by (rule custom)
  next
    case 2
    obtain p1 p2 where "snd x = p1 @ (n, True) # p2" "k = total p1"
      using occ_blocks_split [OF 2(2)] by auto
    moreover obtain pre post where "a_arenas A = pre @ x # post"
      using split_list [OF 2(1)] by blast
    ultimately show ?thesis using 2(3) by (cases x) (intro arena [of pre "fst x" p1 p2 post], simp_all)
  qed
qed

lemma find_arena:
  assumes srt: "sorted_wrt (\<lambda>x y. fst x + ARENA_SIZE \<le> fst y) (pre @ (a, ss) # post)"
    and p: "a \<le> p" "p < a + ARENA_SIZE"
  shows "find (\<lambda>x. fst x \<le> p) (rev (pre @ (a, ss) # post)) = Some (a, ss)"
proof -
  have "\<forall>x \<in> set post. a + ARENA_SIZE \<le> fst x" using srt by (simp add: sorted_wrt_append)
  then have "find (\<lambda>x. fst x \<le> p) (rev post) = None"
    using p by (fastforce simp: find_None_iff)
  then show ?thesis using p by (simp add: find_append)
qed

lemma fst_not_in:
  assumes "\<forall>x \<in> set pre \<union> set post. fst x \<noteq> a"
  shows "a \<notin> fst ` set pre" "a \<notin> fst ` set post"
  using assms by blast+

lemma alloc_rel_drop:
  assumes rel: "alloc_rel st A" and as: "a_arenas A = pre @ (a, ss) # post"
  shows "alloc_rel (st\<lparr>arenas := removeAll a (arenas st), segment_tab := (segment_tab st)(a := None)\<rparr>)
    (A\<lparr>a_arenas := pre @ post\<rparr>)"
proof -
  have srt: "sorted_wrt (\<lambda>x y. fst x + ARENA_SIZE \<le> fst y) (pre @ (a, ss) # post)"
    using rel as by (simp add: alloc_rel_defs)
  note new = arenas_distinct [OF srt]
  have "removeAll a (arenas st) = map fst (pre @ post)"
    using rel as fst_not_in [OF new] by (simp add: alloc_rel_def removeAll_id)
  moreover have "sorted_wrt (\<lambda>x y. fst x + ARENA_SIZE \<le> fst y) (pre @ post)"
    using srt by (simp add: sorted_wrt_append)
  moreover have "arena_ok (arr_of (st\<lparr>arenas := as', segment_tab := (segment_tab st)(a := None)\<rparr>) (fst x)) (snd x)"
    if "x \<in> set pre \<union> set post" for x as'
    using rel as new that by (auto simp: alloc_rel_def arr_of_def map_at_def)
  ultimately show ?thesis
    using rel as new unfolding alloc_rel_defs by auto
qed

lemma map_replace:
  assumes "\<forall>x \<in> set pre \<union> set post. fst x \<noteq> a"
  shows "map (\<lambda>x. if fst x = a then (a, ss') else x) (pre @ (a, ss) # post) = pre @ (a, ss') # post"
    and "filter (\<lambda>x. fst x \<noteq> a) (pre @ (a, ss) # post) = pre @ post"
proof -
  have *: "\<forall>x \<in> set ys. fst x \<noteq> a \<Longrightarrow> map (\<lambda>x. if fst x = a then (a, ss') else x) ys = ys"
    "\<forall>x \<in> set ys. fst x \<noteq> a \<Longrightarrow> filter (\<lambda>x. fst x \<noteq> a) ys = ys" for ys :: "('a \<times> 'b) list"
    by (induction ys) auto
  show "map (\<lambda>x. if fst x = a then (a, ss') else x) (pre @ (a, ss) # post) = pre @ (a, ss') # post"
    and "filter (\<lambda>x. fst x \<noteq> a) (pre @ (a, ss) # post) = pre @ post"
    using assms * [of pre] * [of post] by simp_all
qed

text \<open>What \<open>abs_bfree\<close> does to a live block of an arena.\<close>

lemma abs_bfree_arena:
  assumes inv: "abs_inv A" and as: "a_arenas A = pre @ (a, p1 @ (n, True) # p2) # post"
    and co: "coalesced (p1 @ (n, True) # p2)" and pos: "\<forall>s \<in> set (p1 @ (n, True) # p2). 0 < fst s"
  defines "ss' \<equiv> free_between p1 n p2"
  shows "abs_bfree A (a + total p1 * BLOCK_SIZE_MMAP) =
    Some (A\<lparr>a_arenas := (if ss' = [(BLOCKS_IN_ARENA, False)] \<and> 3 < length (a_arenas A)
                          then pre @ post else pre @ (a, ss') # post)\<rparr>)"
    and "a_custom A (a + total p1 * BLOCK_SIZE_MMAP) = None"
    and "find (\<lambda>x. fst x \<le> a + total p1 * BLOCK_SIZE_MMAP) (rev (a_arenas A)) =
           Some (a, p1 @ (n, True) # p2)"
proof -
  let ?p = "a + total p1 * BLOCK_SIZE_MMAP"
  have srt: "sorted_wrt (\<lambda>x y. fst x + ARENA_SIZE \<le> fst y) (pre @ (a, p1 @ (n, True) # p2) # post)"
    and tot: "total p1 + n + total p2 = BLOCKS_IN_ARENA"
    using inv as by (simp_all add: abs_inv_def)
  have p: "?p < a + ARENA_SIZE"
    using tot pos by (simp add: arena_consts)
  show f: "find (\<lambda>x. fst x \<le> ?p) (rev (a_arenas A)) = Some (a, p1 @ (n, True) # p2)"
    unfolding as by (rule find_arena [OF srt _ p]) simp
  show c: "a_custom A ?p = None"
  proof (cases "a_custom A ?p")
    case (Some m)
    then have "\<not> overlap (?p, m) (a, BLOCKS_IN_ARENA)" "BLOCKS_IN_ARENA < m"
      using inv as unfolding abs_inv_def by fastforce+
    then show ?thesis using p by (simp add: overlap_def arena_consts)
  qed
  have "free_at (total p1) (p1 @ (n, True) # p2) = Some ss'"
    unfolding ss'_def by (rule free_at_free_between) (use co pos in auto)
  moreover note map_replace(1) [OF arenas_distinct [OF srt], of ss' "p1 @ (n, True) # p2", folded as]
    map_replace(2) [OF arenas_distinct [OF srt], of "p1 @ (n, True) # p2", folded as]
  ultimately show "abs_bfree A ?p = Some (A\<lparr>a_arenas :=
      (if ss' = [(BLOCKS_IN_ARENA, False)] \<and> 3 < length (a_arenas A)
       then pre @ post else pre @ (a, ss') # post)\<rparr>)"
    using f c by (simp add: abs_bfree_def)
qed

lemma arena_ok_single:
  assumes "arena_ok arr ss"
  shows "\<not> seg_occupied (arr ! 0) \<and> seg_length (arr ! 0) = BLOCKS_IN_ARENA \<longleftrightarrow>
           ss = [(BLOCKS_IN_ARENA, False)]"
proof (cases ss)
  case (Cons s r)
  obtain m occ where s: "s = (m, occ)" by (cases s)
  show ?thesis
    using assms Cons s by (cases r) (auto simp: arena_ok_def)
qed (use assms block_pos in \<open>simp add: arena_ok_def\<close>)

lemma arena_ok_pos:
  assumes "arena_ok arr ss"
  shows "coalesced ss" "\<forall>s \<in> set ss. 0 < fst s"
  using assms chain_pos [of arr 0 0 ss] by (simp_all add: arena_ok_def)

theorem bfree_refines:
  assumes rel: "alloc_rel st A" and lv: "(p, n) \<in> live A"
  shows "\<exists>st' A'. bfree st p = Some st' \<and> abs_bfree A p = Some A' \<and> alloc_rel st' A'"
  using lv
proof (cases rule: live_cases)
  case custom
  have inv: "abs_inv A" using rel by (simp add: alloc_rel_def)
  have "p \<notin> set (arenas st)"
    using arena_not_custom [OF inv] custom rel by (auto simp: alloc_rel_def)
  then have "alloc_rel (st\<lparr>arenas := removeAll p (arenas st), custom_arenas := (custom_arenas st)(p := None)\<rparr>)
      (A\<lparr>a_custom := (a_custom A)(p := None)\<rparr>)"
    using rel by (simp add: alloc_rel_defs removeAll_id arr_of_def)
  moreover have "custom_arenas st = a_custom A" using rel by (simp add: alloc_rel_def)
  ultimately show ?thesis
    using custom by (simp add: bfree_def abs_bfree_def)
next
  case (arena pre a p1 p2 post)
  let ?ss = "p1 @ (n, True) # p2" and ?ss' = "free_between p1 n p2"
  have ok: "arena_ok (arr_of st a) ?ss" and inv: "abs_inv A" and as: "arenas st = map fst (a_arenas A)"
    using rel arena(1) by (simp_all add: alloc_rel_def)
  note abs = abs_bfree_arena [OF inv arena(1) arena_ok_pos [OF ok]]
  obtain arr where arr: "release_block (arr_of st a) (total p1) = Some arr" "arena_ok arr ?ss'"
    using release_block_arena [OF ok] by blast
  have find: "find (\<lambda>x. x \<le> p) (rev (arenas st)) = Some a"
    using abs(3) arena(2) by (simp add: as rev_map find_map comp_def)
  have cu: "custom_arenas st p = None"
    using abs(2) arena(2) rel by (simp add: alloc_rel_def)
  show ?thesis
  proof (cases "?ss' = [(BLOCKS_IN_ARENA, False)] \<and> 3 < length (a_arenas A)")
    case True
    then show ?thesis
      using abs(1) arr arena_ok_single [OF arr(2)] find cu arena(2) as alloc_rel_drop [OF rel arena(1)]
      by (simp add: bfree_def)
  next
    case False
    then show ?thesis
      using abs(1) arr arena_ok_single [OF arr(2)] find cu arena(2) as
        alloc_rel_replace [OF rel arena(1) arr(2)]
      by (auto simp: bfree_def)
  qed
qed

section \<open>The abstraction function\<close>

fun read_segs :: "nat \<Rightarrow> segment_info list \<Rightarrow> nat \<Rightarrow> (nat \<times> bool) list" where
  "read_segs 0 arr i = []"
| "read_segs (Suc fuel) arr i =
     (if i < length arr
      then (seg_length (arr ! i), seg_occupied (arr ! i)) #
           read_segs fuel arr (i + seg_length (arr ! i))
      else [])"

text \<open>64 steps are enough: every segment of a well-formed arena has at least one block.\<close>

lemma read_segs_chain:
  "chain arr b i ss \<Longrightarrow> i + total ss = length arr \<Longrightarrow> total ss \<le> fuel \<Longrightarrow> read_segs fuel arr i = ss"
proof (induction arr b i ss arbitrary: fuel rule: chain.induct)
  case (1 arr b i)
  then show ?case by (cases fuel) simp_all
next
  case (2 arr b i n occ ss)
  then obtain f where f: "fuel = Suc f" by (cases fuel) auto
  then have "read_segs f arr (i + n) = ss"
    using "2.prems" by (intro "2.IH") simp_all
  then show ?case using "2.prems" f by simp
qed

definition abs_of :: "allocator \<Rightarrow> abs_alloc" where
  "abs_of st =
     \<lparr>a_arenas = map (\<lambda>a. (a, read_segs BLOCKS_IN_ARENA (arr_of st a) 0)) (arenas st),
      a_custom = custom_arenas st\<rparr>"

definition alloc_inv :: "allocator \<Rightarrow> bool" where
  "alloc_inv st \<longleftrightarrow> alloc_rel st (abs_of st)"

lemma alloc_rel_abs_of:
  assumes "alloc_rel st A"
  shows "abs_of st = A"
proof -
  have "read_segs BLOCKS_IN_ARENA (arr_of st (fst x)) 0 = snd x" if "x \<in> set (a_arenas A)" for x
    using assms that by (intro read_segs_chain [where b = 0]) (auto simp: alloc_rel_def arena_ok_def)
  then have "map (\<lambda>a. (a, read_segs BLOCKS_IN_ARENA (arr_of st a) 0)) (arenas st) = a_arenas A"
    using assms by (simp add: alloc_rel_def map_idI)
  then show ?thesis
    using assms by (simp add: abs_of_def alloc_rel_def)
qed

lemma alloc_rel_inv: "alloc_rel st A \<Longrightarrow> alloc_inv st \<and> abs_of st = A"
  using alloc_rel_abs_of [of st A] by (simp add: alloc_inv_def)

section \<open>Blocks in use\<close>

lemma sorted_wrt_cases:
  "sorted_wrt R xs \<Longrightarrow> x \<in> set xs \<Longrightarrow> y \<in> set xs \<Longrightarrow> x = y \<or> R x y \<or> R y x"
  by (induction xs) auto

lemma arenas_apart:
  assumes "abs_inv A" "x \<in> set (a_arenas A)" "y \<in> set (a_arenas A)" "x \<noteq> y"
  shows "fst x + ARENA_SIZE \<le> fst y \<or> fst y + ARENA_SIZE \<le> fst x"
proof -
  have "sorted_wrt (\<lambda>x y. fst x + ARENA_SIZE \<le> fst y) (a_arenas A)"
    using assms(1) by (simp add: abs_inv_def)
  from sorted_wrt_cases [OF this assms(2,3)] assms(4) show ?thesis by blast
qed

lemma arena_live_bounds:
  assumes "(p, n) \<in> arena_live x" "total (snd x) = BLOCKS_IN_ARENA"
  shows "fst x \<le> p \<and> p + n * BLOCK_SIZE_MMAP \<le> fst x + ARENA_SIZE"
proof -
  obtain k where "p = fst x + k * BLOCK_SIZE_MMAP" "(k, n) \<in> occ_blocks 0 (snd x)"
    using assms(1) by (auto simp: arena_live_def)
  moreover from this(2) have "k + n \<le> BLOCKS_IN_ARENA"
    using occ_blocks_bounds assms(2) by fastforce
  ultimately show ?thesis by (simp add: arena_consts)
qed

lemma arena_live_disjoint:
  assumes "r \<in> arena_live x" "s \<in> arena_live x"
  shows "r = s \<or> \<not> overlap r s"
proof -
  obtain k n k' n' where rs: "r = (fst x + k * BLOCK_SIZE_MMAP, n)" "(k, n) \<in> occ_blocks 0 (snd x)"
      "s = (fst x + k' * BLOCK_SIZE_MMAP, n')" "(k', n') \<in> occ_blocks 0 (snd x)"
    using assms by (auto simp: arena_live_def)
  from occ_blocks_disjoint [OF rs(2,4)] show ?thesis
    using rs(1,3) by (auto simp: overlap_def arena_consts)
qed

lemma live_disjoint:
  assumes inv: "abs_inv A" and r: "r \<in> live A" and s: "s \<in> live A"
  shows "r = s \<or> \<not> overlap r s"
proof -
  have arena_custom: "\<not> overlap r (c, m)" if "x \<in> set (a_arenas A)" "r \<in> arena_live x"
      "a_custom A c = Some m" for r x c m
  proof -
    have "\<not> overlap (c, m) (fst x, BLOCKS_IN_ARENA)" "total (snd x) = BLOCKS_IN_ARENA"
      using inv that unfolding abs_inv_def by blast+
    with arena_live_bounds [of "fst r" "snd r" x] that(2) show ?thesis
      by (auto simp: overlap_def arena_consts)
  qed
  have arena_arena: "r = s \<or> \<not> overlap r s" if "x \<in> set (a_arenas A)" "r \<in> arena_live x"
      "y \<in> set (a_arenas A)" "s \<in> arena_live y" for r s x y
  proof (cases "x = y")
    case True
    then show ?thesis using arena_live_disjoint that by blast
  next
    case False
    have "fst x + ARENA_SIZE \<le> fst y \<or> fst y + ARENA_SIZE \<le> fst x"
      by (rule arenas_apart [OF inv that(1,3) False])
    moreover have "total (snd x) = BLOCKS_IN_ARENA" "total (snd y) = BLOCKS_IN_ARENA"
      using inv that unfolding abs_inv_def by blast+
    ultimately show ?thesis
      using arena_live_bounds [of "fst r" "snd r" x] arena_live_bounds [of "fst s" "snd s" y] that
      by (auto simp: overlap_def)
  qed
  have custom_custom: "c = c' \<and> m = m' \<or> \<not> overlap (c, m) (c', m')"
    if "a_custom A c = Some m" "a_custom A c' = Some m'" for c m c' m'
    using inv that unfolding abs_inv_def by (metis option.inject)
  have split: "(\<exists>x \<in> set (a_arenas A). r \<in> arena_live x) \<or> (\<exists>c n. r = (c, n) \<and> a_custom A c = Some n)"
    if "r \<in> live A" for r
    using that by (auto simp: live_def)
  from split [OF r] split [OF s] show ?thesis
  proof (elim disjE bexE exE conjE)
    fix x y assume "x \<in> set (a_arenas A)" "r \<in> arena_live x" "y \<in> set (a_arenas A)" "s \<in> arena_live y"
    then show ?thesis by (rule arena_arena)
  next
    fix x c n assume "x \<in> set (a_arenas A)" "r \<in> arena_live x" "s = (c, n)" "a_custom A c = Some n"
    then show ?thesis using arena_custom by blast
  next
    fix x c n assume "x \<in> set (a_arenas A)" "s \<in> arena_live x" "r = (c, n)" "a_custom A c = Some n"
    then show ?thesis using arena_custom overlap_sym by blast
  next
    fix c n c' n' assume "r = (c, n)" "a_custom A c = Some n" "s = (c', n')" "a_custom A c' = Some n'"
    then show ?thesis using custom_custom by blast
  qed
qed

text \<open>The new block of \<open>abs_bmalloc\<close>.\<close>

lemma arena_live_append:
  "arena_live (a, xs @ ys) = arena_live (a, xs) \<union>
     (\<lambda>(k, n). (a + k * BLOCK_SIZE_MMAP, n)) ` occ_blocks (total xs) ys"
  by (simp add: arena_live_def image_Un)

lemma live_replace:
  "live (A\<lparr>a_arenas := pre @ x # post\<rparr>) =
     arena_live x \<union> live (A\<lparr>a_arenas := pre @ post\<rparr>)"
  by (auto simp: live_def)

lemma live_insert_arena:
  "live (A\<lparr>a_arenas := insert_arena mm ss (a_arenas A)\<rparr>) = arena_live (mm, ss) \<union> live A"
  unfolding live_def by (simp add: set_insert_arena Un_assoc)

lemma arena_live_carve_seg [simp]: "arena_live (mm, carve_seg num n) = {(mm, num)}"
  by (simp add: arena_live_def)

lemma abs_bmalloc_live:
  assumes rel: "alloc_rel st A" and num: "0 < num"
    and fresh: "mmap_fresh A mm (max num BLOCKS_IN_ARENA)"
    and eq: "abs_bmalloc mm num A = (p, A')"
  shows "live A' = insert (p, num) (live A)"
proof (cases "BLOCKS_IN_ARENA < num")
  case True
  then have "a_custom A mm = None"
    using mmap_fresh_custom [OF _ _ num] rel fresh by (simp add: alloc_rel_def max_def)
  then show ?thesis using True eq by (auto simp: abs_bmalloc_def live_def split: if_splits)
next
  case False
  have inv: "abs_inv A" using rel by (simp add: alloc_rel_def)
  have "\<forall>x \<in> set (a_arenas A). custom_arenas st (fst x) = None \<and> arena_ok (arr_of st (fst x)) (snd x)"
    using arena_not_custom [OF inv] rel by (auto simp: alloc_rel_def)
  from search_arenas_abs [OF this, of num] show ?thesis
  proof (elim disjE exE conjE)
    assume "abs_search num (a_arenas A) = None"
    then show ?thesis
      using False eq by (auto simp: abs_bmalloc_def live_insert_arena)
  next
    fix pre a ss k ss' post
    assume *: "a_arenas A = pre @ (a, ss) # post" "alloc_last num ss = Some (k, ss')"
      "abs_search num (a_arenas A) = Some (a + k * BLOCK_SIZE_MMAP, pre @ (a, ss') # post)"
    obtain p1 n p2 where ss: "ss = p1 @ (n, False) # p2" "k = total p1" "num \<le> n"
        "ss' = p1 @ carve_seg num n @ p2"
      using alloc_last_split [OF *(2)] by blast
    have "arena_live (a, ss') = insert (a + k * BLOCK_SIZE_MMAP, num) (arena_live (a, ss))"
      using ss num by (auto simp: arena_live_append)
    moreover have "live A = live (A\<lparr>a_arenas := pre @ (a, ss) # post\<rparr>)"
      using *(1) by (simp add: live_def)
    ultimately show ?thesis
      using False eq * by (auto simp: abs_bmalloc_def live_replace)
  qed
qed

lemma live_mapped:
  assumes inv: "abs_inv A" and r: "(p, n) \<in> live A"
  shows "\<exists>m \<in> mapped A. fst m \<le> p \<and> p + n * BLOCK_SIZE_MMAP \<le> fst m + snd m * BLOCK_SIZE_MMAP"
proof -
  consider x where "x \<in> set (a_arenas A)" "(p, n) \<in> arena_live x" | "a_custom A p = Some n"
    using r by (auto simp: live_def)
  then show ?thesis
  proof cases
    case 1
    then have "total (snd x) = BLOCKS_IN_ARENA" using inv unfolding abs_inv_def by blast
    from arena_live_bounds [OF 1(2) this] have
      "fst x \<le> p \<and> p + n * BLOCK_SIZE_MMAP \<le> fst x + BLOCKS_IN_ARENA * BLOCK_SIZE_MMAP"
      by (simp add: arena_consts)
    moreover have "(fst x, BLOCKS_IN_ARENA) \<in> mapped A" using 1(1) by (auto simp: mapped_def)
    ultimately show ?thesis by force
  next
    case 2
    then have "(p, n) \<in> mapped A" by (simp add: mapped_def)
    then show ?thesis by force
  qed
qed

lemma mmap_fresh_not_live:
  assumes "abs_inv A" "mmap_fresh A mm m" "0 < m" "0 < n"
  shows "(mm, n) \<notin> live A"
proof
  assume "(mm, n) \<in> live A"
  from live_mapped [OF assms(1) this] obtain r where
    r: "r \<in> mapped A" "fst r \<le> mm" "mm + n * BLOCK_SIZE_MMAP \<le> fst r + snd r * BLOCK_SIZE_MMAP"
    by blast
  then have "\<not> overlap (mm, m) r" using assms(2) by (simp add: mmap_fresh_def)
  then have "fst r + snd r * BLOCK_SIZE_MMAP \<le> mm"
    using r(2) assms(3) by (auto simp: overlap_def arena_consts)
  with r(3) assms(4) show False by (simp add: arena_consts)
qed

text \<open>A free segment of an arena is not in use.\<close>

lemma free_segment_not_live:
  assumes inv: "abs_inv A" and as: "a_arenas A = pre @ (a, p1 @ (n, False) # p2) # post"
    and num: "0 < num" "num \<le> n"
  shows "(a + total p1 * BLOCK_SIZE_MMAP, num) \<notin> live A"
proof
  let ?x = "(a, p1 @ (n, False) # p2)" and ?p = "a + total p1 * BLOCK_SIZE_MMAP"
  assume lv: "(?p, num) \<in> live A"
  have x: "?x \<in> set (a_arenas A)" using as by simp
  have "total p1 + n \<le> BLOCKS_IN_ARENA" using inv as by (simp add: abs_inv_def)
  then have p: "a \<le> ?p" "?p + num * BLOCK_SIZE_MMAP \<le> a + ARENA_SIZE"
    using num by (simp_all add: arena_consts)
  consider y where "y \<in> set (a_arenas A)" "(?p, num) \<in> arena_live y" | "a_custom A ?p = Some num"
    using lv by (auto simp: live_def)
  then show False
  proof cases
    case 1
    show False
    proof (cases "y = ?x")
      case True
      with 1(2) have "(total p1, num) \<in> occ_blocks 0 (p1 @ (n, False) # p2)"
        by (auto simp: arena_live_def arena_consts)
      then show False using num by (auto dest: occ_blocks_bounds)
    next
      case False
      then have "fst y + ARENA_SIZE \<le> a \<or> a + ARENA_SIZE \<le> fst y"
        using arenas_apart [OF inv 1(1) x] by simp
      moreover have "total (snd y) = BLOCKS_IN_ARENA" using inv 1(1) unfolding abs_inv_def by blast
      ultimately show False
        using arena_live_bounds [OF 1(2)] p num by (auto simp: arena_consts)
    qed
  next
    case 2
    then have "\<not> overlap (?p, num) (a, BLOCKS_IN_ARENA)"
      using inv x unfolding abs_inv_def by fastforce
    then show False using p num by (auto simp: overlap_def arena_consts)
  qed
qed

lemma abs_bmalloc_new:
  assumes rel: "alloc_rel st A" and num: "0 < num"
    and fresh: "mmap_fresh A mm (max num BLOCKS_IN_ARENA)"
    and eq: "abs_bmalloc mm num A = (p, A')"
  shows "(p, num) \<notin> live A"
proof -
  have inv: "abs_inv A" using rel by (simp add: alloc_rel_def)
  have mm: "(mm, num) \<notin> live A"
    by (rule mmap_fresh_not_live [OF inv fresh _ num]) (simp add: max_def)
  have "\<forall>x \<in> set (a_arenas A). custom_arenas st (fst x) = None \<and> arena_ok (arr_of st (fst x)) (snd x)"
    using arena_not_custom [OF inv] rel by (auto simp: alloc_rel_def)
  from search_arenas_abs [OF this, of num] show ?thesis
  proof (elim disjE exE conjE)
    assume "abs_search num (a_arenas A) = None"
    then show ?thesis using mm eq by (auto simp: abs_bmalloc_def split: if_splits)
  next
    fix pre a ss k ss' post
    assume *: "a_arenas A = pre @ (a, ss) # post" "alloc_last num ss = Some (k, ss')"
      "abs_search num (a_arenas A) = Some (a + k * BLOCK_SIZE_MMAP, pre @ (a, ss') # post)"
    obtain p1 n p2 where ss: "ss = p1 @ (n, False) # p2" "k = total p1" "num \<le> n"
      using alloc_last_split [OF *(2)] by blast
    have "(a + k * BLOCK_SIZE_MMAP, num) \<notin> live A"
      using free_segment_not_live [OF inv _ num ss(3)] *(1) ss(1,2) by blast
    then show ?thesis using mm eq *(3) by (auto simp: abs_bmalloc_def split: if_splits)
  qed
qed

text \<open>What \<open>abs_bfree\<close> removes.\<close>

lemma occ_blocks_pos: "\<forall>s \<in> set ss. 0 < fst s \<Longrightarrow> (k, n) \<in> occ_blocks i ss \<Longrightarrow> 0 < n"
  by (induction i ss rule: occ_blocks.induct) (auto split: if_splits)

lemma live_pos:
  assumes rel: "alloc_rel st A" and "(p, n) \<in> live A"
  shows "0 < n"
  using assms(2)
proof (cases rule: live_cases)
  case custom
  then have "BLOCKS_IN_ARENA < n" using rel unfolding alloc_rel_defs by blast
  then show ?thesis by simp
next
  case (arena pre a p1 p2 post)
  then have "arena_ok (arr_of st a) (p1 @ (n, True) # p2)" using rel by (simp add: alloc_rel_def)
  from arena_ok_pos(2) [OF this] show ?thesis by simp
qed

lemma live_overlap_unique:
  assumes rel: "alloc_rel st A" and r: "(p, n) \<in> live A" and s: "(p, m) \<in> live A"
  shows "n = m"
  using live_disjoint [OF _ r s] rel live_pos [OF rel r] live_pos [OF rel s]
  by (auto simp: overlap_def alloc_rel_def arena_consts)

lemma arena_live_remove:
  assumes inv: "abs_inv A" and x: "x \<in> set (a_arenas A)" and y: "y \<in> set (a_arenas A)" "x \<noteq> y"
    and r: "(p, n) \<in> arena_live x" and n: "0 < n"
  shows "(p, n) \<notin> arena_live y"
proof
  assume "(p, n) \<in> arena_live y"
  moreover have "total (snd x) = BLOCKS_IN_ARENA" "total (snd y) = BLOCKS_IN_ARENA"
    using inv x y unfolding abs_inv_def by blast+
  ultimately show False
    using arena_live_bounds [OF r] arena_live_bounds [of p n y] arenas_apart [OF inv x y] n
    by (auto simp: arena_consts)
qed

lemma occ_blocks_remove:
  assumes "\<forall>s \<in> set (pre @ (n, True) # post). 0 < fst s"
  shows "occ_blocks 0 (free_between pre n post) =
    occ_blocks 0 (pre @ (n, True) # post) - {(total pre, n)}"
proof -
  have "(total pre, n) \<notin> occ_blocks 0 pre" "(total pre, n) \<notin> occ_blocks (total pre + n) post"
    using assms by (auto dest: occ_blocks_bounds)
  then show ?thesis by auto
qed

lemma arena_live_free:
  assumes "\<forall>s \<in> set (pre @ (n, True) # post). 0 < fst s"
  shows "arena_live (a, free_between pre n post) =
    arena_live (a, pre @ (n, True) # post) - {(a + total pre * BLOCK_SIZE_MMAP, n)}"
proof -
  have inj: "inj (\<lambda>(k, n). (a + k * BLOCK_SIZE_MMAP, n))"
    by (auto simp: inj_def arena_consts)
  have "arena_live (a, free_between pre n post) =
      (\<lambda>(k, n). (a + k * BLOCK_SIZE_MMAP, n)) `
        (occ_blocks 0 (pre @ (n, True) # post) - {(total pre, n)})"
    unfolding arena_live_def fst_conv snd_conv occ_blocks_remove [OF assms] ..
  also have "\<dots> = arena_live (a, pre @ (n, True) # post) -
      (\<lambda>(k, n). (a + k * BLOCK_SIZE_MMAP, n)) ` {(total pre, n)}"
    unfolding image_set_diff [OF inj] by (simp only: arena_live_def fst_conv snd_conv)
  finally show ?thesis by simp
qed

lemma arena_live_all_free [simp]: "arena_live (a, [(n, False)]) = {}"
  by (simp add: arena_live_def)

lemma abs_bfree_live:
  assumes rel: "alloc_rel st A" and lv: "(p, n) \<in> live A" and eq: "abs_bfree A p = Some A'"
  shows "live A' = live A - {(p, n)}"
  using lv
proof (cases rule: live_cases)
  case custom
  have inv: "abs_inv A" using rel by (simp add: alloc_rel_def)
  have "(p, n) \<notin> (\<Union>x \<in> set (a_arenas A). arena_live x)"
  proof
    assume "(p, n) \<in> (\<Union>x \<in> set (a_arenas A). arena_live x)"
    then obtain x where x: "x \<in> set (a_arenas A)" "(p, n) \<in> arena_live x" by blast
    then have "\<not> overlap (p, n) (fst x, BLOCKS_IN_ARENA)" "total (snd x) = BLOCKS_IN_ARENA"
      using inv custom unfolding abs_inv_def by blast+
    with arena_live_bounds [OF x(2)] live_pos [OF rel lv] show False
      by (auto simp: overlap_def arena_consts)
  qed
  then show ?thesis
    using custom eq by (auto simp: abs_bfree_def live_def split: if_splits)
next
  case (arena pre a p1 p2 post)
  let ?x = "(a, p1 @ (n, True) # p2)" and ?ss' = "free_between p1 n p2"
  have ok: "arena_ok (arr_of st a) (p1 @ (n, True) # p2)" and inv: "abs_inv A"
    using rel arena(1) by (simp_all add: alloc_rel_def)
  note pos = arena_ok_pos [OF ok]
  have px: "(p, n) \<in> arena_live ?x"
    using arena(2) by (auto simp: arena_live_def)
  have free: "arena_live (a, ?ss') = arena_live ?x - {(p, n)}"
    using arena_live_free [OF pos(2)] arena(2) by simp
  have n: "0 < n" using pos(2) by simp
  have others: "(p, n) \<notin> arena_live y" if "y \<in> set pre \<union> set post" for y
  proof (rule arena_live_remove [OF inv _ _ _ px n])
    have "sorted_wrt (\<lambda>x y. fst x + ARENA_SIZE \<le> fst y) (pre @ ?x # post)"
      using inv arena(1) by (simp add: abs_inv_def)
    from arenas_distinct [OF this] that have "fst y \<noteq> a" by blast
    then show "?x \<noteq> y" by auto
  qed (use arena(1) that in auto)
  have cu: "a_custom A p = None"
    using abs_bfree_arena(2) [OF inv arena(1) pos] arena(2) by simp
  have A: "A = A\<lparr>a_arenas := pre @ ?x # post\<rparr>" using arena(1) by simp
  have rest: "(p, n) \<notin> live (A\<lparr>a_arenas := pre @ post\<rparr>)"
    using others cu by (auto simp: live_def)
  have "live A = arena_live ?x \<union> live (A\<lparr>a_arenas := pre @ post\<rparr>)"
    by (subst A) (rule live_replace)
  moreover have "live A' = arena_live (a, ?ss') \<union> live (A\<lparr>a_arenas := pre @ post\<rparr>)"
    using eq abs_bfree_arena(1) [OF inv arena(1) pos] arena(2)
    by (cases "?ss' = [(BLOCKS_IN_ARENA, False)] \<and> 3 < length (a_arenas A)")
      (auto simp: live_replace)
  ultimately show ?thesis using rest free by auto
qed

end
