(* ===== verification/Alloc_Spec.thy ===== *)
theory Alloc_Spec
  imports Alloc
begin

text \<open>
  The contract of the block allocator and its properties.  The interface \<open>block_allocator\<close> is
  what a client (\<^verbatim>\<open>TLSSocket\<close>, which takes two blocks in its constructor and gives them back in
  its destructor) relies on; it is interpreted on \<open>bmalloc\<close> and \<open>bfree\<close>.
\<close>

section \<open>The interface\<close>

locale block_allocator =
  fixes take :: "nat \<Rightarrow> 's \<Rightarrow> nat \<Rightarrow> (nat \<times> 's) option"
    and give :: "'s \<Rightarrow> nat \<Rightarrow> 's option"
    and inv :: "'s \<Rightarrow> bool"
    and used :: "'s \<Rightarrow> (nat \<times> nat) set"
    and ready :: "'s \<Rightarrow> nat \<Rightarrow> nat \<Rightarrow> bool"
  assumes take_ok: "inv s \<Longrightarrow> 0 < n \<Longrightarrow> ready s mm n \<Longrightarrow>
      \<exists>p s'. take mm s n = Some (p, s') \<and> inv s' \<and> used s' = insert (p, n) (used s) \<and>
        (\<forall>r \<in> used s. \<not> overlap (p, n) r)"
    and give_ok: "inv s \<Longrightarrow> (p, n) \<in> used s \<Longrightarrow>
      \<exists>s'. give s p = Some s' \<and> inv s' \<and> used s' = used s - {(p, n)}"
begin

text \<open>Giving back what was just taken leaves the blocks in use as they were.\<close>

lemma take_give:
  assumes "inv s" "0 < n" "ready s mm n" "take mm s n = Some (p, s')"
  shows "\<exists>s''. give s' p = Some s'' \<and> inv s'' \<and> used s'' = used s"
proof -
  have s': "inv s'" "used s' = insert (p, n) (used s)" "\<forall>r \<in> used s. \<not> overlap (p, n) r"
    using take_ok [OF assms(1-3)] assms(4) by auto
  then have "(p, n) \<notin> used s" using assms(2) by (auto simp: overlap_def arena_consts)
  moreover obtain s'' where "give s' p = Some s''" "inv s''" "used s'' = used s' - {(p, n)}"
    using give_ok [of s' p n] s' by auto
  ultimately show ?thesis using s'(2) by auto
qed

text \<open>Two blocks taken one after the other do not overlap; both can be given back in the order
  they were taken.\<close>

lemma take_two_give_two:
  assumes "inv s" "0 < n" "0 < m" "ready s mm n" "take mm s n = Some (p, s1)"
    and "ready s1 mm' m" "take mm' s1 m = Some (q, s2)"
  shows "\<not> overlap (p, n) (q, m) \<and>
    (\<exists>s3 s4. give s2 p = Some s3 \<and> give s3 q = Some s4 \<and> inv s4 \<and> used s4 = used s)"
proof -
  have s1: "inv s1" "used s1 = insert (p, n) (used s)" "\<forall>r \<in> used s. \<not> overlap (p, n) r"
    using take_ok [OF assms(1,2,4)] assms(5) by auto
  have s2: "inv s2" "used s2 = insert (q, m) (used s1)" "\<forall>r \<in> used s1. \<not> overlap (q, m) r"
    using take_ok [OF s1(1) assms(3,6)] assms(7) by auto
  have sep: "\<not> overlap (p, n) (q, m)" using s2(3) s1(2) overlap_sym by auto
  then have neq: "(p, n) \<noteq> (q, m)" using assms(2) by (auto simp: overlap_def arena_consts)
  have new: "(p, n) \<notin> used s" "(q, m) \<notin> used s"
    using s1 s2 assms(2,3) by (auto simp: overlap_def arena_consts)
  obtain s3 where s3: "give s2 p = Some s3" "inv s3" "used s3 = used s2 - {(p, n)}"
    using give_ok [of s2 p n] s2 s1(2) by auto
  moreover obtain s4 where "give s3 q = Some s4" "inv s4" "used s4 = used s3 - {(q, m)}"
    using give_ok [of s3 q m] s2 s3 neq by auto
  ultimately show ?thesis using sep neq new s1(2) s2(2) by auto
qed

end

section \<open>The allocator provides it\<close>

definition mmap_ready :: "allocator \<Rightarrow> nat \<Rightarrow> nat \<Rightarrow> bool" where
  "mmap_ready st mm n \<longleftrightarrow> mmap_fresh (abs_of st) mm (max n BLOCKS_IN_ARENA)"

lemma bmalloc_abs:
  assumes "alloc_inv st" "0 < n" "mmap_ready st mm n"
  shows "\<exists>st'. bmalloc mm st n = Some (fst (abs_bmalloc mm n (abs_of st)), st') \<and>
    alloc_inv st' \<and> abs_of st' = snd (abs_bmalloc mm n (abs_of st))"
proof -
  obtain st' where "bmalloc mm st n = Some (fst (abs_bmalloc mm n (abs_of st)), st')"
      "alloc_rel st' (snd (abs_bmalloc mm n (abs_of st)))"
    using bmalloc_refines [OF assms(1) [unfolded alloc_inv_def] assms(2)
        assms(3) [unfolded mmap_ready_def]] by blast
  then show ?thesis using alloc_rel_inv by blast
qed

lemma bfree_abs:
  assumes "alloc_inv st" "(p, n) \<in> live (abs_of st)"
  shows "\<exists>st'. bfree st p = Some st' \<and> alloc_inv st' \<and>
    abs_bfree (abs_of st) p = Some (abs_of st')"
proof -
  obtain st' A' where "bfree st p = Some st'" "abs_bfree (abs_of st) p = Some A'" "alloc_rel st' A'"
    using bfree_refines [OF assms(1) [unfolded alloc_inv_def] assms(2)] by blast
  then show ?thesis using alloc_rel_inv [of st' A'] by simp
qed

interpretation blocks: block_allocator bmalloc bfree alloc_inv "\<lambda>st. live (abs_of st)" mmap_ready
proof unfold_locales
  fix s mm n assume inv: "alloc_inv s" and n: "0 < (n :: nat)" and ready: "mmap_ready s mm n"
  have rel: "alloc_rel s (abs_of s)" and fresh: "mmap_fresh (abs_of s) mm (max n BLOCKS_IN_ARENA)"
    using inv ready by (simp_all add: alloc_inv_def mmap_ready_def)
  obtain p A' where eq: "abs_bmalloc mm n (abs_of s) = (p, A')" by fastforce
  obtain s' where s': "bmalloc mm s n = Some (p, s')" "alloc_inv s'" "abs_of s' = A'"
    using bmalloc_abs [OF inv n ready] eq by auto
  have lv: "live A' = insert (p, n) (live (abs_of s))"
    by (rule abs_bmalloc_live [OF rel n fresh eq])
  have "\<not> overlap (p, n) r" if "r \<in> live (abs_of s)" for r
    using live_disjoint [of A' "(p, n)" r] abs_bmalloc_new [OF rel n fresh eq] lv s' that
    by (auto simp: alloc_inv_def alloc_rel_def)
  with s' lv show "\<exists>p s'. bmalloc mm s n = Some (p, s') \<and> alloc_inv s' \<and>
      live (abs_of s') = insert (p, n) (live (abs_of s)) \<and>
      (\<forall>r \<in> live (abs_of s). \<not> overlap (p, n) r)"
    by auto
next
  fix s p n assume inv: "alloc_inv s" and lv: "(p, n) \<in> live (abs_of s)"
  then obtain s' where s': "bfree s p = Some s'" "alloc_inv s'" "abs_bfree (abs_of s) p = Some (abs_of s')"
    using bfree_abs by blast
  then show "\<exists>s'. bfree s p = Some s' \<and> alloc_inv s' \<and> live (abs_of s') = live (abs_of s) - {(p, n)}"
    using abs_bfree_live [OF _ lv, of s "abs_of s'"] inv by (auto simp: alloc_inv_def)
qed

lemma init_allocator_rel:
  "alloc_rel (init_allocator mm) \<lparr>a_arenas = [(mm, [(BLOCKS_IN_ARENA, False)])], a_custom = Map.empty\<rparr>"
  by (simp add: alloc_rel_defs init_allocator_def add_arena_def empty_allocator_def arr_of_def
      map_at_def default_arena_def arena_ok_def Let_def arena_consts)

lemma init_allocator_inv [simp]: "alloc_inv (init_allocator mm)"
  using alloc_rel_inv [OF init_allocator_rel] by blast

lemma abs_of_init [simp]:
  "abs_of (init_allocator mm) =
     \<lparr>a_arenas = [(mm, [(BLOCKS_IN_ARENA, False)])], a_custom = Map.empty\<rparr>"
  using alloc_rel_inv [OF init_allocator_rel] by blast

section \<open>Properties\<close>

text \<open>
  C22: From a well-formed allocator, \<^verbatim>\<open>bmalloc(num)\<close> with \<open>num > 0\<close> always returns; the state stays
  well formed; exactly the returned block is added to the blocks in use, and it overlaps none of
  them (provided \<^verbatim>\<open>mmap\<close> returns memory that is not mapped yet).
\<close>

theorem bmalloc_correct:
  assumes "alloc_inv st" "0 < num" "mmap_ready st mm num"
  shows "\<exists>p st'. bmalloc mm st num = Some (p, st') \<and> alloc_inv st' \<and>
    live (abs_of st') = insert (p, num) (live (abs_of st)) \<and>
    (\<forall>r \<in> live (abs_of st). \<not> overlap (p, num) r)"
  by (rule blocks.take_ok [OF assms])

lemma mmap_ready_init [simp]:
  "mmap_ready (init_allocator mm) mm' n \<longleftrightarrow> \<not> overlap (mm', max n BLOCKS_IN_ARENA) (mm, BLOCKS_IN_ARENA)"
  by (auto simp: mmap_ready_def mmap_fresh_def mapped_def)

lemma bmalloc_correct_witness:
  "\<exists>p st'. bmalloc 2097152 (init_allocator 1048576) 3 = Some (p, st') \<and> alloc_inv st' \<and>
    live (abs_of st') = insert (p, 3) (live (abs_of (init_allocator 1048576))) \<and>
    (\<forall>r \<in> live (abs_of (init_allocator 1048576)). \<not> overlap (p, 3) r)"
  by (rule bmalloc_correct) (simp_all add: overlap_def arena_consts)

text \<open>
  C3: Freeing a block in use always returns, keeps the allocator well formed, removes exactly that
  block, and leaves each arena as the abstract release does: the freed segment is joined with its
  free neighbours, so no two free segments ever touch, and a completely free arena is unmapped
  only while more than three are held.
\<close>

theorem bfree_correct:
  assumes "alloc_inv st" "(p, n) \<in> live (abs_of st)"
  shows "\<exists>st'. bfree st p = Some st' \<and> alloc_inv st' \<and>
    live (abs_of st') = live (abs_of st) - {(p, n)} \<and>
    abs_bfree (abs_of st) p = Some (abs_of st')"
  using blocks.give_ok [OF assms] bfree_abs [OF assms] by auto

text \<open>A concrete run: three blocks out of a new allocator.\<close>

definition one_arena :: "(nat \<times> bool) list \<Rightarrow> abs_alloc" where
  "one_arena ss = \<lparr>a_arenas = [(1048576, ss)], a_custom = Map.empty\<rparr>"

lemma init_alloc_3:
  "\<exists>st. bmalloc 2097152 (init_allocator 1048576) 3 = Some (1048576, st) \<and> alloc_inv st \<and>
     abs_of st = one_arena [(3, True), (61, False)]"
proof -
  have "mmap_ready (init_allocator 1048576) 2097152 3"
    by (simp add: overlap_def arena_consts)
  from bmalloc_abs [OF init_allocator_inv _ this] show ?thesis
    by (simp add: abs_bmalloc_def carve_seg_def one_arena_def arena_consts)
qed

lemma live_one_arena [simp]:
  "live (one_arena ss) = (\<lambda>(k, n). (1048576 + k * BLOCK_SIZE_MMAP, n)) ` occ_blocks 0 ss"
  by (simp add: live_def one_arena_def arena_live_def)

lemma bfree_correct_witness:
  "\<exists>st st'. bmalloc 2097152 (init_allocator 1048576) 3 = Some (1048576, st) \<and>
     bfree st 1048576 = Some st' \<and> live (abs_of st') = {} \<and>
     abs_of st' = one_arena [(64, False)]"
proof -
  obtain st where st: "bmalloc 2097152 (init_allocator 1048576) 3 = Some (1048576, st)"
      "alloc_inv st" "abs_of st = one_arena [(3, True), (61, False)]"
    using init_alloc_3 by blast
  then have "(1048576, 3) \<in> live (abs_of st)" by simp
  from bfree_correct [OF st(2) this] obtain st' where
    "bfree st 1048576 = Some st'" "live (abs_of st') = live (abs_of st) - {(1048576, 3)}"
    "abs_bfree (abs_of st) 1048576 = Some (abs_of st')" by blast
  with st show ?thesis
    by (auto simp: abs_bfree_def one_arena_def free_cons_def live_def arena_live_def arena_consts)
qed

text \<open>
  C23: The array code computes the abstract allocation: the block is carved out of the last
  free segment that is long enough, of the first arena (in address order) that has one, and only
  when there is none a new arena is mapped.
\<close>

theorem bmalloc_is_abs_bmalloc:
  assumes "alloc_inv st" "0 < num" "mmap_ready st mm num"
  shows "map_option (\<lambda>(p, st'). (p, abs_of st')) (bmalloc mm st num) =
    Some (abs_bmalloc mm num (abs_of st))"
  using bmalloc_abs [OF assms] by auto

lemma bmalloc_is_abs_bmalloc_witness:
  "map_option (\<lambda>(p, st'). (p, abs_of st')) (bmalloc 2097152 (init_allocator 1048576) 5) =
    Some (1048576, one_arena [(5, True), (59, False)])"
proof -
  have "mmap_ready (init_allocator 1048576) 2097152 5"
    by (simp add: overlap_def arena_consts)
  from bmalloc_is_abs_bmalloc [OF init_allocator_inv _ this] show ?thesis
    by (simp add: abs_bmalloc_def carve_seg_def one_arena_def arena_consts)
qed

text \<open>
  C32: \<^verbatim>\<open>bfree\<close> undoes \<^verbatim>\<open>bmalloc\<close>: when some arena had room for the request and at most three
  arenas are held, freeing the block just taken gives back exactly the segments there were.
\<close>

theorem bfree_undoes_bmalloc:
  assumes inv: "alloc_inv st" and num: "0 < num" "num \<le> BLOCKS_IN_ARENA"
    and ready: "mmap_ready st mm num" and room: "abs_search num (a_arenas (abs_of st)) \<noteq> None"
    and few: "length (arenas st) \<le> 3"
  shows "\<exists>p st' st''. bmalloc mm st num = Some (p, st') \<and> bfree st' p = Some st'' \<and>
    abs_of st'' = abs_of st"
proof -
  let ?A = "abs_of st"
  have rel: "alloc_rel st ?A" using inv by (simp add: alloc_inv_def)
  then have ainv: "abs_inv ?A" by (simp add: alloc_rel_def)
  have "\<forall>x \<in> set (a_arenas ?A). custom_arenas st (fst x) = None \<and> arena_ok (arr_of st (fst x)) (snd x)"
    using arena_not_custom [OF ainv] rel by (auto simp: alloc_rel_def)
  from search_arenas_abs [OF this, of num] room obtain pre a ss k ss' post where
    *: "a_arenas ?A = pre @ (a, ss) # post" "alloc_last num ss = Some (k, ss')"
      "abs_search num (a_arenas ?A) = Some (a + k * BLOCK_SIZE_MMAP, pre @ (a, ss') # post)"
    by blast
  obtain p1 n p2 where ss: "ss = p1 @ (n, False) # p2" "k = total p1" "num \<le> n"
      "ss' = p1 @ carve_seg num n @ p2"
    using alloc_last_split [OF *(2)] by blast
  let ?rest = "(if n = num then [] else [(n - num, False)]) @ p2"
  have ss': "ss' = p1 @ (num, True) # ?rest" using ss(4) by (simp add: carve_seg_def)
  obtain st' where st': "bmalloc mm st num = Some (a + k * BLOCK_SIZE_MMAP, st')" "alloc_inv st'"
      "abs_of st' = ?A\<lparr>a_arenas := pre @ (a, ss') # post\<rparr>"
    using bmalloc_abs [OF inv num(1) ready] num(2) *(3) by (auto simp: abs_bmalloc_def)
  have rel': "alloc_rel st' (abs_of st')" using st'(2) by (simp add: alloc_inv_def)
  have ok: "arena_ok (arr_of st a) ss" "arena_ok (arr_of st' a) ss'"
    using rel rel' * st'(3) by (simp_all add: alloc_rel_def)
  have joined: "free_between p1 num ?rest = ss"
    using coalesced_free_between_carve [of p1 n p2 num] arena_ok_pos(1) [OF ok(1)] num(1) ss by simp
  have lv: "(a + k * BLOCK_SIZE_MMAP, num) \<in> live (abs_of st')"
    using st'(3) ss' ss(2) by (auto simp: live_def arena_live_def image_def)
  have "abs_bfree (abs_of st') (a + k * BLOCK_SIZE_MMAP) = Some ?A"
    using abs_bfree_arena(1) [of "abs_of st'" pre a p1 num ?rest post] rel' arena_ok_pos [OF ok(2)]
      joined ss' ss(2) st'(3) few *(1) rel
    by (simp add: alloc_rel_def)
  with bfree_abs [OF st'(2) lv] st'(1) show ?thesis by fastforce
qed

lemma bfree_undoes_bmalloc_witness:
  "\<exists>p st' st''. bmalloc 2097152 (init_allocator 1048576) 64 = Some (p, st') \<and>
     bfree st' p = Some st'' \<and> abs_of st'' = one_arena [(64, False)]"
proof -
  have "mmap_ready (init_allocator 1048576) 2097152 64"
    by (simp add: overlap_def arena_consts)
  moreover have "length (arenas (init_allocator 1048576)) \<le> 3"
    by (simp add: init_allocator_def add_arena_def empty_allocator_def Let_def arena_consts)
  ultimately have "\<exists>p st' st''. bmalloc 2097152 (init_allocator 1048576) 64 = Some (p, st') \<and>
      bfree st' p = Some st'' \<and> abs_of st'' = abs_of (init_allocator 1048576)"
    by (intro bfree_undoes_bmalloc) (simp_all add: arena_consts)
  then show ?thesis by (simp add: one_arena_def arena_consts)
qed

text \<open>
  \<^verbatim>\<open>bmalloc(0)\<close> is not rejected: on a new allocator it returns, but leaves a segment of length
  0 behind, and after that no \<^verbatim>\<open>bmalloc\<close> of up to 64 blocks returns any more.
\<close>

theorem bmalloc_zero_breaks:
  "\<exists>st. bmalloc mm' (init_allocator mm) 0 = Some (mm, st) \<and>
     (\<forall>mm'' num. num \<le> BLOCKS_IN_ARENA \<longrightarrow> bmalloc mm'' st num = None)"
proof -
  let ?seg = "\<lparr>seg_length = 64, seg_back = 0, seg_occupied = False, seg_interior = False\<rparr>"
  let ?arr = "default_arena[0 := ?seg]"
  let ?st = "init_allocator mm"
  have arr: "arr_of ?st mm = ?arr" "length ?arr = 64"
    by (simp_all add: init_allocator_def add_arena_def empty_allocator_def arr_of_def map_at_def
        Let_def arena_consts default_arena_def)
  have st: "arenas ?st = [mm]" "custom_arenas ?st = Map.empty"
    by (simp_all add: init_allocator_def add_arena_def empty_allocator_def Let_def)
  have scan: "scan_arena ?arr 0 0 None 0 = Some (Some 0, 0)"
    using arr(2) by (simp add: scan_arena.simps)
  let ?arr' = "?arr[0 := ?seg\<lparr>seg_length := 0, seg_occupied := True\<rparr>]"
  have "carve_block ?arr 0 0 = Some ?arr'"
    using arr(2) by (simp add: carve_block_def set_back_def upd_at_def)
  then have "bmalloc mm' ?st 0 = Some (mm, put_arr mm ?arr' ?st)"
    using arr st scan by (simp add: bmalloc_def)
  moreover have "scan_arena ?arr' num 0 None 0 = None" for num
    using arr(2) by (intro scan_arena_stuck) simp_all
  then have "bmalloc mm'' (put_arr mm ?arr' ?st) num = None" if "num \<le> BLOCKS_IN_ARENA" for mm'' num
    using st that by (simp add: bmalloc_def)
  ultimately show ?thesis by blast
qed

lemma bmalloc_zero_breaks_witness:
  "\<exists>st. bmalloc 0 (init_allocator 1048576) 0 = Some (1048576, st) \<and> bmalloc 0 st 1 = None"
proof -
  have "(1::nat) \<le> BLOCKS_IN_ARENA" by (simp add: arena_consts)
  then show ?thesis using bmalloc_zero_breaks [of 0 1048576] by blast
qed

end
