(* ===== verification/App_Types.thy ===== *)
theory App_Types
  imports Event_Props
begin

unbundle bit_operations_syntax

text \<open>
  The types the program's own subclasses of \<^verbatim>\<open>Event\<close> share: the classes, the constructor calls and
  member calls they queue on each other, and what they use of Boost.Beast's HTTP messages.
  Descriptors are integers (the RAII wrapper \<^verbatim>\<open>File\<close> is in \<open>File_Handle\<close>), buffer pointers are
  addresses, strings are lists of characters and byte buffers lists of 8-bit words.
\<close>

section \<open>HTTP messages\<close>

datatype verb = Get | Post | Head | Other_Verb string

datatype http_status = Ok | Not_Found | Method_Not_Allowed | Switching_Protocols | Unauthorized | No_Content | Other_Status nat

record http_request =
  req_method :: verb
  req_target :: string
  req_version :: nat
  req_fields :: "(string \<times> string) list"
  req_body :: string

record http_response =
  res_status :: http_status
  res_version :: nat
  res_fields :: "(string \<times> string) list"
  res_body :: string

text \<open>
  What the program calls of Boost.Beast on messages: \<^verbatim>\<open>fields::set\<close>, \<^verbatim>\<open>fields::operator[]\<close> (none: no such
  field) and \<^verbatim>\<open>prepare_payload\<close>.  The library is a parameter of every definition that uses it.
\<close>

record beast =
  fields_set :: "string \<Rightarrow> string \<Rightarrow> (string \<times> string) list \<Rightarrow> (string \<times> string) list"
  fields_find :: "string \<Rightarrow> (string \<times> string) list \<Rightarrow> string option"
  prepare_payload :: "http_response \<Rightarrow> http_response"

text \<open>An instance for evaluation: names are compared as they are.\<close>

definition list_beast :: beast where
  "list_beast = \<lparr>fields_set = (\<lambda>n v fs. filter (\<lambda>f. fst f \<noteq> n) fs @ [(n, v)]),
                 fields_find = (\<lambda>n fs. map_option snd (find (\<lambda>f. fst f = n) fs)),
                 prepare_payload = id\<rparr>"

section \<open>Classes, constructors, calls\<close>

datatype cls =
    ReadWriteBytes | TLSSocket | ReadWriteHTTP | WebsocketSocket | BandwidthDataTimer
  | AioLandingHTTP | LandingAccept | BandwidthMonitoringServer | BandwidthMonitorAccept

datatype ctor =
    Ctor_ReadWriteBytes "int list"
  | Ctor_TLSSocket "int list" bool
  | Ctor_ReadWriteHTTP "int list" bool
  | Ctor_WebsocketSocket bool
  | Ctor_BandwidthDataTimer
  | Ctor_AioLandingHTTP "int list" bool
  | Ctor_BandwidthMonitoringServer "int list" bool
  | Ctor_LandingAccept "int list" bool string
  | Ctor_BandwidthMonitorAccept "int list" bool string

text \<open>A call carries its arguments: address, length, \<^verbatim>\<open>read_all\<close>; the text of a frame; a response.\<close>

datatype member_call =
    Bytes_Read nat u64 bool
  | Bytes_Write nat u64
  | Tls_Read nat u64 bool
  | Tls_Write nat u64
  | Read_Http
  | Write_Http http_response
  | Write_Frame nat u64
  | Write_Frame2 "u8 list"
  | Landing_Start
  | Monitor_Start
  | Prepare_Timer
  | Landing_Init
  | Monitor_Init

type_synonym app_event = "(cls, ctor, member_call) event"

type_synonym yield = "(bool \<times> int) option"

text \<open>Pointer arithmetic on \<^verbatim>\<open>char*\<close>.\<close>

definition ptr_add :: "nat \<Rightarrow> u64 \<Rightarrow> nat" where
  "ptr_add p n = p + unat n"

definition mk_response :: "string \<Rightarrow> u32 \<Rightarrow> call_response" where
  "mk_response d h = \<lparr>description = d, success = True, ret = None, op_hint = h\<rparr>"

text \<open>\<^verbatim>\<open>files_[i]->get()\<close>: the index is not checked.\<close>

definition file_at :: "int list \<Rightarrow> nat \<Rightarrow> int result" where
  "file_at fs i = (if i < length fs then Inr (fs ! i) else Inl Undefined_Behaviour)"

lemma file_at_simps [simp]:
  "i < length fs \<Longrightarrow> file_at fs i = Inr (fs ! i)"
  by (simp add: file_at_def)

text \<open>A call on the first live child of a class.\<close>

definition has_child :: "cls \<Rightarrow> app_event \<Rightarrow> bool" where
  "has_child cl ev \<longleftrightarrow> (\<exists>e \<in> set (slots cl ev). e \<noteq> None)"

definition first_child :: "cls \<Rightarrow> app_event \<Rightarrow> nat" where
  "first_child cl ev = index_where (\<lambda>e. e \<noteq> None) (slots cl ev)"

lemma index_where_less: "index_where P xs < length xs \<longleftrightarrow> (\<exists>x \<in> set xs. P x)"
  by (induction xs) auto

lemma index_where_le: "index_where P xs \<le> length xs"
  by (induction xs) auto

lemma c_first_child: "has_child cl ev \<Longrightarrow> c_first cl f ev = Inr (c_at cl (first_child cl ev) f ev)"
  using index_where_less [of "\<lambda>e. e \<noteq> None" "slots cl ev"]
  by (auto simp: c_first_def has_child_def first_child_def slots_def map_at_def split: option.splits)

lemma slots_c_at [simp]: "slots cl (snd (c_at ty k f ev)) = slots cl ev"
  by (simp add: slots_def c_at_def Let_def)

lemma has_child_c_at [simp]:
  "has_child cl (snd (c_at ty k f ev)) \<longleftrightarrow> has_child cl ev"
  "first_child cl (snd (c_at ty k f ev)) = first_child cl ev"
  by (simp_all add: has_child_def first_child_def)

lemma function_q_c_at:
  "map qf_fun (function_q (snd (c_at ty k f ev))) = map qf_fun (function_q ev) @ [f]"
  by (simp add: c_at_def Let_def)

lemma has_child_construct [simp]: "has_child cl (snd (construct_ev cl sh k ev))"
proof -
  let ?v = "slots cl ev" and ?e = "Some \<lparr>ev_locator = None, ev_event = None\<rparr>"
  let ?n = "index_where (\<lambda>e. e = None) ?v"
  have sl: "slots cl (snd (construct_ev cl sh k ev)) = (if ?n = length ?v then ?v @ [?e] else ?v[?n := ?e])"
    unfolding construct_ev_def Let_def snd_conv by (simp add: slots_def set_slots_def)
  have "?e \<in> set (if ?n = length ?v then ?v @ [?e] else ?v[?n := ?e])"
    using le_neq_implies_less [OF index_where_le, of "\<lambda>e. e = None" ?v] by (simp add: set_update_memI)
  then show ?thesis unfolding has_child_def sl by blast
qed

end
