(* ===== verification/Bytes_IO.thy ===== *)
theory Bytes_IO
  imports App_Types
begin

text \<open>
  \<^verbatim>\<open>ReadWriteBytes\<close> (\<^verbatim>\<open>src/common/readwrite_bytes.{h,cpp}\<close>): reads into or writes from a buffer through
  the ring, re-arming the request until everything is transferred (a read may be told to stop at
  the first data).  A transfer is described by a cursor: how far it has come.
\<close>

section \<open>Model\<close>

record rw_bytes =
  rb_files :: "int list"
  rb_sticky :: bool
  read_buffer :: nat
  read_left :: u64
  read_total :: u64
  write_buffer :: nat
  write_left :: u64
  write_total :: u64

definition MSG_NOSIGNAL :: int where "MSG_NOSIGNAL = 16384"

definition bytes_new :: "int list \<Rightarrow> rw_bytes" where
  "bytes_new fs = \<lparr>rb_files = fs, rb_sticky = False, read_buffer = 0, read_left = 0, read_total = 0,
                   write_buffer = 0, write_left = 0, write_total = 0\<rparr>"

definition bytes_read ::
  "nat \<Rightarrow> u64 \<Rightarrow> bool \<Rightarrow> rw_bytes \<times> app_event \<Rightarrow> (call_response \<times> rw_bytes \<times> app_event) result"
where
  "bytes_read buf len read_all = (\<lambda>(s, ev).
     let s' = s\<lparr>rb_sticky := read_all, read_buffer := buf, read_left := len, read_total := 0\<rparr>
     in ebind (file_at (rb_files s') 0) (\<lambda>fd.
          Inr (mk_response ''Read len bytes into buf'' (OP_HINT_READ OR OP_HINT_NETWORK), s',
               c_uring ID_READ (Prep_recv fd (read_buffer s') (read_left s') 0) ev)))"

definition bytes_write ::
  "nat \<Rightarrow> u64 \<Rightarrow> rw_bytes \<times> app_event \<Rightarrow> (call_response \<times> rw_bytes \<times> app_event) result"
where
  "bytes_write buf len = (\<lambda>(s, ev).
     let s' = s\<lparr>write_buffer := buf, write_left := len, write_total := 0\<rparr>
     in ebind (file_at (rb_files s') 0) (\<lambda>fd.
          Inr (mk_response ''Write len bytes from buf'' (OP_HINT_WRITE OR OP_HINT_NETWORK), s',
               c_uring ID_WRITE (Prep_send fd (write_buffer s') (write_left s') MSG_NOSIGNAL) ev)))"

definition bytes_get_data :: "u64 \<Rightarrow> rw_bytes \<Rightarrow> bool \<times> nat" where
  "bytes_get_data i s = (if i = word_of_int ID_READ then (True, read_buffer s) else (False, 0))"

definition prepare_read :: "int \<Rightarrow> rw_bytes \<times> app_event \<Rightarrow> (yield \<times> rw_bytes \<times> app_event) result" where
  "prepare_read r = (\<lambda>(s, ev).
     let s' = s\<lparr>read_left := read_left s - int_to_size r, read_total := read_total s + int_to_size r\<rparr>
     in if rb_sticky s' \<and> read_left s' > 0
        then ebind (file_at (rb_files s') 0) (\<lambda>fd.
               Inr (None, s', c_uring ID_READ
                 (Prep_recv fd (ptr_add (read_buffer s') (read_total s')) (read_left s') 0) ev))
        else Inr (Some (False, size_to_int (read_total s')), s', ev))"

definition prepare_write :: "int \<Rightarrow> rw_bytes \<times> app_event \<Rightarrow> (yield \<times> rw_bytes \<times> app_event) result" where
  "prepare_write r = (\<lambda>(s, ev).
     let s' = s\<lparr>write_left := write_left s - int_to_size r, write_total := write_total s + int_to_size r\<rparr>
     in if write_left s' > 0
        then ebind (file_at (rb_files s') 0) (\<lambda>fd.
               Inr (None, s', c_uring ID_WRITE
                 (Prep_send fd (ptr_add (write_buffer s') (write_total s')) (write_left s') MSG_NOSIGNAL) ev))
        else Inr (Some (False, size_to_int (write_total s')), s', ev))"

fun bytes_on_yield ::
  "cls event_type \<Rightarrow> rw_bytes \<times> app_event \<Rightarrow> (yield \<times> rw_bytes \<times> app_event) result"
where
  "bytes_on_yield (IoUringResult _ o' r) (s, ev) =
     (if r \<le> 0 then Inr (Some (True, r), s, ev)
      else if o' = ID_READ then prepare_read r (s, ev)
      else if o' = ID_WRITE then prepare_write r (s, ev)
      else Inr (None, s, ev))"
| "bytes_on_yield _ _ = Inl Bad_Variant_Access"

section \<open>Whole transfers\<close>

text \<open>The results the ring reports one after the other, until a result of the call.\<close>

fun feed ::
  "(int \<Rightarrow> 's \<times> app_event \<Rightarrow> (yield \<times> 's \<times> app_event) result) \<Rightarrow> int list \<Rightarrow> 's \<times> app_event \<Rightarrow>
    (yield \<times> 's \<times> app_event) result"
where
  "feed step [] (s, ev) = Inr (None, s, ev)"
| "feed step (r # rs) (s, ev) =
     ebind (step r (s, ev)) (\<lambda>(y, s', ev').
       case y of None \<Rightarrow> feed step rs (s', ev') | Some v \<Rightarrow> Inr (Some v, s', ev'))"

text \<open>Reference: the requests that transfer \<open>len\<close> bytes at \<open>buf\<close> in pieces \<open>rs\<close>, after the first.\<close>

fun rest_requests :: "(nat \<Rightarrow> u64 \<Rightarrow> uring_prep) \<Rightarrow> int \<Rightarrow> nat \<Rightarrow> nat \<Rightarrow> int list \<Rightarrow> queued_uring list" where
  "rest_requests prep o' buf len [] = []"
| "rest_requests prep o' buf len [r] = []"
| "rest_requests prep o' buf len (r # rs) =
     \<lparr>qu_op = o', qu_prep = prep (buf + nat r) (word_of_nat (len - nat r))\<rparr> #
       rest_requests prep o' (buf + nat r) (len - nat r) rs"

text \<open>What the ring may report: positive counts, never more than was asked for, the whole in the end.\<close>

fun pieces :: "nat \<Rightarrow> int list \<Rightarrow> bool" where
  "pieces len [] = False"
| "pieces len [r] = (r = int len \<and> 0 < r)"
| "pieces len (r # rs) = (0 < r \<and> r < int len \<and> pieces (len - nat r) rs)"

lemma pieces_pos: "pieces len rs \<Longrightarrow> 0 < len \<and> rs \<noteq> []"
  by (induction len rs rule: pieces.induct) auto

lemma pieces_bound: "pieces len rs \<Longrightarrow> length rs \<le> len"
proof (induction len rs rule: pieces.induct)
  case (3 len r r' rs)
  then have "length (r' # rs) \<le> len - nat r" "0 < r" by simp_all
  moreover from this have "nat r \<ge> 1" by simp
  moreover have "0 < len - nat r" using 3(2) pieces_pos [of "len - nat r" "r' # rs"] by simp
  ultimately show ?case by simp
qed auto

lemma int_to_size_nat: "0 \<le> r \<Longrightarrow> int_to_size r = word_of_nat (nat r)"
  by (metis int_to_size_def nat_0_le of_int_of_nat_eq)

lemma word_sub_nat:
  assumes "0 < r" "r \<le> int len" "len < 2 ^ 64"
  shows "(word_of_nat len :: u64) - int_to_size r = word_of_nat (len - nat r)"
proof -
  have "int_to_size r = word_of_nat (nat r)"
    using assms(1) by (simp add: int_to_size_nat)
  then show ?thesis using assms(2) by (simp add: of_nat_diff)
qed

lemma word_pos_nat: "0 < n \<Longrightarrow> n < 2 ^ 64 \<Longrightarrow> (0 :: u64) < word_of_nat n"
  by (simp add: word_less_nat_alt unsigned_of_nat take_bit_nat_eq_self)

text \<open>
  The interface of a transfer in one direction: a result that leaves something to do re-arms the
  request at the right place, the last one ends the call with the total.
\<close>

locale transfer =
  fixes step :: "int \<Rightarrow> 's \<times> app_event \<Rightarrow> (yield \<times> 's \<times> app_event) result"
    and at :: "nat \<Rightarrow> nat \<Rightarrow> nat \<Rightarrow> 's \<Rightarrow> bool"
    and op' :: int
    and prep :: "nat \<Rightarrow> u64 \<Rightarrow> uring_prep"
  assumes step_more: "at buf left done_n s \<Longrightarrow> left + done_n < 2 ^ 31 \<Longrightarrow> 0 < r \<Longrightarrow> r < int left \<Longrightarrow>
      \<exists>s'. step r (s, ev) = Inr (None, s', c_uring op' (prep (buf + (done_n + nat r)) (word_of_nat (left - nat r))) ev) \<and>
        at buf (left - nat r) (done_n + nat r) s'"
    and step_last: "at buf left done_n s \<Longrightarrow> left + done_n < 2 ^ 31 \<Longrightarrow> 0 < left \<Longrightarrow>
      \<exists>s'. step (int left) (s, ev) = Inr (Some (False, int (done_n + left)), s', ev)"
begin

lemma transfer_all:
  assumes "pieces left rs" "at buf left done_n s" "left + done_n < 2 ^ 31"
  shows "\<exists>s' ev'. feed step rs (s, ev) = Inr (Some (False, int (done_n + left)), s', ev') \<and>
    uring_q ev' = uring_q ev @ rest_requests prep op' (buf + done_n) left rs"
  using assms
proof (induction left rs arbitrary: s ev done_n rule: pieces.induct)
  case (1 len)
  then show ?case by simp
next
  case (2 len r)
  then show ?case using step_last [of buf len done_n s ev] by fastforce
next
  case (3 len r r' rs)
  then have r: "0 < r" "r < int len" and p: "pieces (len - nat r) (r' # rs)" by simp_all
  obtain s' where s': "at buf (len - nat r) (done_n + nat r) s'"
    "step r (s, ev) = Inr (None, s', c_uring op' (prep (buf + (done_n + nat r)) (word_of_nat (len - nat r))) ev)"
    using step_more [OF 3(3,4) r] by blast
  have "len - nat r + (done_n + nat r) < 2 ^ 31" using r 3(4) by simp
  from 3(1) [OF p s'(1) this] s'(2) r show ?case
    by (fastforce simp: c_uring_def add.assoc)
qed

end

definition read_at :: "int \<Rightarrow> nat \<Rightarrow> nat \<Rightarrow> nat \<Rightarrow> rw_bytes \<Rightarrow> bool" where
  "read_at fd buf left done_n s \<longleftrightarrow> rb_files s \<noteq> [] \<and> hd (rb_files s) = fd \<and> rb_sticky s \<and>
     read_buffer s = buf \<and> read_left s = word_of_nat left \<and> read_total s = word_of_nat done_n"

definition write_at :: "int \<Rightarrow> nat \<Rightarrow> nat \<Rightarrow> nat \<Rightarrow> rw_bytes \<Rightarrow> bool" where
  "write_at fd buf left done_n s \<longleftrightarrow> rb_files s \<noteq> [] \<and> hd (rb_files s) = fd \<and>
     write_buffer s = buf \<and> write_left s = word_of_nat left \<and> write_total s = word_of_nat done_n"

lemma cursor_words:
  assumes "0 < r" "r \<le> int left" "left + done_n < 2 ^ 31"
  shows "(word_of_nat left :: u64) - int_to_size r = word_of_nat (left - nat r)"
    "(word_of_nat done_n :: u64) + int_to_size r = word_of_nat (done_n + nat r)"
    "r < int left \<Longrightarrow> (0 :: u64) < word_of_nat (left - nat r)"
    "unat (word_of_nat (done_n + nat r) :: u64) = done_n + nat r"
    "size_to_int (word_of_nat (done_n + nat r)) = int (done_n + nat r)"
proof -
  show "(word_of_nat left :: u64) - int_to_size r = word_of_nat (left - nat r)"
    using assms by (intro word_sub_nat) simp_all
  show "(word_of_nat done_n :: u64) + int_to_size r = word_of_nat (done_n + nat r)"
    using assms(1) by (simp add: int_to_size_nat)
  show "r < int left \<Longrightarrow> (0 :: u64) < word_of_nat (left - nat r)"
    using assms by (intro word_pos_nat) simp_all
  have lt: "done_n + nat r < 2 ^ 31" using assms by simp
  then show *: "unat (word_of_nat (done_n + nat r) :: u64) = done_n + nat r"
    by (intro unat_word_nat) simp
  show "size_to_int (word_of_nat (done_n + nat r)) = int (done_n + nat r)"
    using size_to_int_small [of "word_of_nat (done_n + nat r)"] lt unfolding * by simp
qed

interpretation reading: transfer "\<lambda>r. bytes_on_yield (IoUringResult c ID_READ r)" "read_at fd" ID_READ
  "\<lambda>p n. Prep_recv fd p n 0"
proof
  fix buf left done_n s r and ev :: app_event
  assume a: "read_at fd buf left done_n s" "left + done_n < 2 ^ 31"
  show "\<exists>s'. bytes_on_yield (IoUringResult c ID_READ r) (s, ev) =
      Inr (None, s', c_uring ID_READ (Prep_recv fd (buf + (done_n + nat r)) (word_of_nat (left - nat r)) 0) ev) \<and>
      read_at fd buf (left - nat r) (done_n + nat r) s'"
    if "0 < r" "r < int left"
    using a that cursor_words [of r left done_n]
    by (auto simp: prepare_read_def read_at_def ptr_add_def Let_def hd_conv_nth)
  show "\<exists>s'. bytes_on_yield (IoUringResult c ID_READ (int left)) (s, ev) =
      Inr (Some (False, int (done_n + left)), s', ev)" if "0 < left"
    using a that cursor_words [of "int left" left done_n]
    by (auto simp: prepare_read_def read_at_def Let_def)
qed

interpretation writing: transfer "\<lambda>r. bytes_on_yield (IoUringResult c ID_WRITE r)" "write_at fd" ID_WRITE
  "\<lambda>p n. Prep_send fd p n MSG_NOSIGNAL"
proof
  fix buf left done_n s r and ev :: app_event
  assume a: "write_at fd buf left done_n s" "left + done_n < 2 ^ 31"
  show "\<exists>s'. bytes_on_yield (IoUringResult c ID_WRITE r) (s, ev) =
      Inr (None, s', c_uring ID_WRITE (Prep_send fd (buf + (done_n + nat r)) (word_of_nat (left - nat r)) MSG_NOSIGNAL) ev) \<and>
      write_at fd buf (left - nat r) (done_n + nat r) s'"
    if "0 < r" "r < int left"
    using a that cursor_words [of r left done_n]
    by (auto simp: prepare_write_def write_at_def ptr_add_def Let_def hd_conv_nth ID_READ_def ID_WRITE_def)
  show "\<exists>s'. bytes_on_yield (IoUringResult c ID_WRITE (int left)) (s, ev) =
      Inr (Some (False, int (done_n + left)), s', ev)" if "0 < left"
    using a that cursor_words [of "int left" left done_n]
    by (auto simp: prepare_write_def write_at_def Let_def ID_READ_def ID_WRITE_def)
qed

section \<open>Properties\<close>

text \<open>
  \<^verbatim>\<open>write(buf, len)\<close> sends the whole buffer whatever pieces the ring accepts: the
  requests cover \<open>buf\<close> to \<open>buf + len\<close> without gap or overlap, and the call ends with the last piece
  and reports \<open>len\<close>.
\<close>

theorem write_transfers_all:
  assumes "pieces len rs" "len < 2 ^ 31" "rb_files s = fd # fds"
  shows "\<exists>s1 ev1 s2 ev2. bytes_write buf (word_of_nat len) (s, ev) =
      Inr (mk_response ''Write len bytes from buf'' (OP_HINT_WRITE OR OP_HINT_NETWORK), s1, ev1) \<and>
    feed (\<lambda>r. bytes_on_yield (IoUringResult c ID_WRITE r)) rs (s1, ev1) = Inr (Some (False, int len), s2, ev2) \<and>
    uring_q ev2 = uring_q ev @ \<lparr>qu_op = ID_WRITE, qu_prep = Prep_send fd buf (word_of_nat len) MSG_NOSIGNAL\<rparr> #
      rest_requests (\<lambda>p n. Prep_send fd p n MSG_NOSIGNAL) ID_WRITE buf len rs"
proof -
  let ?s1 = "s\<lparr>write_buffer := buf, write_left := word_of_nat len, write_total := 0\<rparr>"
  let ?ev1 = "c_uring ID_WRITE (Prep_send fd buf (word_of_nat len) MSG_NOSIGNAL) ev"
  have "write_at fd buf len 0 ?s1" using assms(3) by (simp add: write_at_def)
  from writing.transfer_all [OF assms(1) this, of c ?ev1] assms(2,3) show ?thesis
    by (auto simp: bytes_write_def file_at_def c_uring_def Let_def)
qed

lemma write_transfers_all_witness:
  "\<exists>s1 ev1 s2 ev2. bytes_write 1000 (word_of_nat 10) (bytes_new [5], new_event empty_uring_data) =
      Inr (mk_response ''Write len bytes from buf'' (OP_HINT_WRITE OR OP_HINT_NETWORK), s1, ev1) \<and>
    feed (\<lambda>r. bytes_on_yield (IoUringResult 0 ID_WRITE r)) [3, 5, 2] (s1, ev1) = Inr (Some (False, 10), s2, ev2) \<and>
    map qu_prep (uring_q ev2) = [Prep_send 5 1000 10 MSG_NOSIGNAL, Prep_send 5 1003 7 MSG_NOSIGNAL,
      Prep_send 5 1008 2 MSG_NOSIGNAL]"
proof -
  have "pieces 10 [3, 5, 2]" "(10 :: nat) < 2 ^ 31" "rb_files (bytes_new [5]) = 5 # []"
    by (simp_all add: bytes_new_def)
  from write_transfers_all [OF this, of 1000 "new_event empty_uring_data" 0] show ?thesis
    by (fastforce simp: new_event_def)
qed

text \<open>
  \<^verbatim>\<open>read(buf, len)\<close> with \<^verbatim>\<open>read_all\<close> fills the whole buffer in the same way; without
  \<^verbatim>\<open>read_all\<close> the first piece ends the call and is reported.  A result of zero or less ends either
  kind of call as failed with that result and arms nothing.
\<close>

theorem read_transfers_all:
  assumes "pieces len rs" "len < 2 ^ 31" "rb_files s = fd # fds"
  shows "\<exists>s1 ev1 s2 ev2. bytes_read buf (word_of_nat len) read_all (s, ev) =
      Inr (mk_response ''Read len bytes into buf'' (OP_HINT_READ OR OP_HINT_NETWORK), s1, ev1) \<and>
    uring_q ev1 = uring_q ev @ [\<lparr>qu_op = ID_READ, qu_prep = Prep_recv fd buf (word_of_nat len) 0\<rparr>] \<and>
    (\<forall>r \<le> 0. bytes_on_yield (IoUringResult c ID_READ r) (s1, ev1) = Inr (Some (True, r), s1, ev1)) \<and>
    feed (\<lambda>r. bytes_on_yield (IoUringResult c ID_READ r)) rs (s1, ev1) =
      Inr (Some (False, if read_all then int len else hd rs), s2, ev2) \<and>
    uring_q ev2 = uring_q ev1 @
      (if read_all then rest_requests (\<lambda>p n. Prep_recv fd p n 0) ID_READ buf len rs else [])"
proof -
  let ?s1 = "s\<lparr>rb_sticky := read_all, read_buffer := buf, read_left := word_of_nat len, read_total := 0\<rparr>"
  let ?ev1 = "c_uring ID_READ (Prep_recv fd buf (word_of_nat len) 0) ev"
  have start: "bytes_read buf (word_of_nat len) read_all (s, ev) =
      Inr (mk_response ''Read len bytes into buf'' (OP_HINT_READ OR OP_HINT_NETWORK), ?s1, ?ev1)"
    "uring_q ?ev1 = uring_q ev @ [\<lparr>qu_op = ID_READ, qu_prep = Prep_recv fd buf (word_of_nat len) 0\<rparr>]"
    using assms(3) by (simp_all add: bytes_read_def c_uring_def Let_def)
  have "\<exists>s2 ev2. feed (\<lambda>r. bytes_on_yield (IoUringResult c ID_READ r)) rs (?s1, ?ev1) =
      Inr (Some (False, if read_all then int len else hd rs), s2, ev2) \<and>
    uring_q ev2 = uring_q ?ev1 @
      (if read_all then rest_requests (\<lambda>p n. Prep_recv fd p n 0) ID_READ buf len rs else [])"
  proof (cases read_all)
    case True
    then have "read_at fd buf len 0 ?s1" using assms(3) by (simp add: read_at_def)
    from reading.transfer_all [OF assms(1) this, of c ?ev1] assms(2) True show ?thesis by simp
  next
    case False
    obtain r rs' where rs: "rs = r # rs'" using pieces_pos [OF assms(1)] by (cases rs) auto
    have r: "0 < r" "r \<le> int len" using assms(1) unfolding rs by (cases rs'; simp)+
    have "size_to_int (int_to_size r) = r"
      using cursor_words(5) [of r len 0] r assms(2) by (simp add: int_to_size_nat)
    then show ?thesis using False r(1) by (simp add: rs prepare_read_def Let_def)
  qed
  with start show ?thesis by auto
qed

lemma read_transfers_all_witness:
  "\<exists>s1 ev1 s2 ev2. bytes_read 1000 (word_of_nat 10) True (bytes_new [5], new_event empty_uring_data) =
      Inr (mk_response ''Read len bytes into buf'' (OP_HINT_READ OR OP_HINT_NETWORK), s1, ev1) \<and>
    feed (\<lambda>r. bytes_on_yield (IoUringResult 0 ID_READ r)) [4, 6] (s1, ev1) = Inr (Some (False, 10), s2, ev2)"
proof -
  have "pieces 10 [4, 6]" "(10 :: nat) < 2 ^ 31" "rb_files (bytes_new [5]) = 5 # []"
    by (simp_all add: bytes_new_def)
  from read_transfers_all [OF this, of 1000 True "new_event empty_uring_data" 0] show ?thesis
    by fastforce
qed

end
