(* ===== verification/Tls.thy ===== *)
theory Tls
  imports Bytes_IO
begin

text \<open>
  \<^verbatim>\<open>TLSSocket\<close> (\<^verbatim>\<open>src/common/tls_socket.{h,cpp}\<close>): a socket that encrypts with OpenSSL on top of
  \<^verbatim>\<open>ReadWriteBytes\<close>.

  OpenSSL is the parameter \<open>sl\<close>.  A call into it may call back for encrypted input: it is a term
  of type \<open>bio\<close>, which asks for some bytes and continues with the answer of \<^verbatim>\<open>osslcb_read\<close> (none:
  retry).  The memory BIO for output is part of the library's state.  Memory is a map from addresses
  to bytes; the allocator's two blocks and the caller's buffers are addresses in it.
\<close>

section \<open>Model\<close>

datatype ssl_error = Ssl_Error_None | Ssl_Want_Read | Ssl_Error_Other int

datatype 'r bio = Ret 'r | Bio_Read nat "u8 list option \<Rightarrow> 'r bio"

record 'ssl ssl_lib =
  ssl_handshake :: "bool \<Rightarrow> 'ssl \<Rightarrow> ('ssl \<times> ssl_error) bio"
  ssl_read_ex :: "nat \<Rightarrow> 'ssl \<Rightarrow> ('ssl \<times> ssl_error \<times> u8 list) bio"
  ssl_write_ex :: "u8 list \<Rightarrow> 'ssl \<Rightarrow> ('ssl \<times> ssl_error \<times> nat) bio"
  wbio_pending :: "'ssl \<Rightarrow> nat"
  wbio_read :: "nat \<Rightarrow> 'ssl \<Rightarrow> u8 list \<times> 'ssl"

type_synonym memory = "nat \<Rightarrow> u8"

definition load_bytes :: "nat \<Rightarrow> nat \<Rightarrow> memory \<Rightarrow> u8 list" where
  "load_bytes a n m = map (\<lambda>i. m (a + i)) [0..<n]"

definition store_bytes :: "nat \<Rightarrow> u8 list \<Rightarrow> memory \<Rightarrow> memory" where
  "store_bytes a bs m = (\<lambda>x. if a \<le> x \<and> x < a + length bs then bs ! (x - a) else m x)"

datatype tls_state = WaitHello | Full_Tls | Failed_Tls

record 'ssl tls =
  t_files :: "int list"
  task_bytes_read :: u64
  task_bytes_write :: u64
  task_bytes_r_fin :: bool
  task_bytes_w_fin :: bool
  task_read :: u64
  task_write :: u64
  t_server :: bool
  sticky_read :: bool
  u_read :: nat
  u_write :: nat
  u_readlen :: u64
  u_writelen :: u64
  u_read_p :: u64
  u_write_p :: u64
  t_ssl :: 'ssl
  e_writelen :: u64
  e_read :: nat
  e_write :: nat
  e_read_s :: u64
  t_state :: tls_state
  t_mem :: memory

definition MAXUFRAMELENGTH :: u64 where "MAXUFRAMELENGTH = 16384 - 1024"

text \<open>\<^verbatim>\<open>sizeof(e_read_)\<close> and \<^verbatim>\<open>sizeof(e_write_)\<close>: both are pointers.\<close>

definition SIZEOF_PTR :: u64 where "SIZEOF_PTR = 8"

text \<open>Constructor: \<open>ssl\<close> is what \<^verbatim>\<open>SSL_new\<close> returns, \<open>er\<close> and \<open>ew\<close> the two allocated blocks.\<close>

definition tls_new ::
  "int list \<Rightarrow> bool \<Rightarrow> 'ssl \<Rightarrow> nat \<Rightarrow> nat \<Rightarrow> memory \<Rightarrow> app_event \<Rightarrow> 'ssl tls \<times> app_event"
where
  "tls_new fs srv ssl er ew m ev =
     (\<lparr>t_files = fs, task_bytes_read = 0, task_bytes_write = 0, task_bytes_r_fin = True, task_bytes_w_fin = True,
       task_read = 0, task_write = 0, t_server = srv, sticky_read = False, u_read = 0, u_write = 0,
       u_readlen = 0, u_writelen = 0, u_read_p = 0, u_write_p = 0, t_ssl = ssl, e_writelen = 0,
       e_read = er, e_write = ew, e_read_s = 0, t_state = WaitHello, t_mem = m\<rparr>,
      snd (construct_ev ReadWriteBytes False (Ctor_ReadWriteBytes fs) ev))"

text \<open>The read callback: bytes leave at the front of the block, the rest moves down.\<close>

definition osslcb_read :: "nat \<Rightarrow> 'ssl tls \<Rightarrow> u8 list option \<times> 'ssl tls" where
  "osslcb_read len s =
     (if e_read_s s = 0 then (None, s)
      else let towrite = min (unat (e_read_s s)) len;
               size = e_read_s s - word_of_nat towrite;
               moved = load_bytes (e_read s + towrite) (unat size) (t_mem s)
           in (Some (load_bytes (e_read s) towrite (t_mem s)),
               s\<lparr>e_read_s := size, t_mem := store_bytes (e_read s) moved (t_mem s)\<rparr>))"

primrec run_bio :: "'r bio \<Rightarrow> 'ssl tls \<Rightarrow> 'r \<times> 'ssl tls" where
  "run_bio (Ret r) s = (r, s)"
| "run_bio (Bio_Read len k) s = run_bio (k (fst (osslcb_read len s))) (snd (osslcb_read len s))"

definition tls_arm_read :: "'ssl tls \<times> app_event \<Rightarrow> ('ssl tls \<times> app_event) result" where
  "tls_arm_read = (\<lambda>(s, ev).
     if task_bytes_r_fin s
     then ebind (c_first ReadWriteBytes (Bytes_Read (e_read s) (SIZEOF_PTR - e_read_s s) False) ev)
            (\<lambda>(i, ev'). Inr (s\<lparr>task_bytes_read := i, task_bytes_r_fin := False\<rparr>, ev'))
     else Inr (s, attach (task_bytes_read s) ev))"

definition tls_arm_write :: "'ssl ssl_lib \<Rightarrow> 'ssl tls \<times> app_event \<Rightarrow> ('ssl tls \<times> app_event) result" where
  "tls_arm_write sl = (\<lambda>(s, ev).
     if task_bytes_w_fin s
     then (case wbio_read sl (unat SIZEOF_PTR) (t_ssl s) of (bs, ssl') \<Rightarrow>
       let s' = s\<lparr>t_ssl := ssl', e_writelen := word_of_nat (length bs),
                  t_mem := store_bytes (e_write s) bs (t_mem s)\<rparr>
       in ebind (c_first ReadWriteBytes (Bytes_Write (e_write s') (e_writelen s')) ev)
            (\<lambda>(i, ev'). Inr (s'\<lparr>task_bytes_write := i, task_bytes_w_fin := False\<rparr>, ev')))
     else Inr (s, attach (task_bytes_write s) ev))"

text \<open>What all three operations do when OpenSSL wants input.\<close>

definition tls_want_read ::
  "'ssl ssl_lib \<Rightarrow> 'ssl tls \<times> app_event \<Rightarrow> (yield \<times> 'ssl tls \<times> app_event) result"
where
  "tls_want_read sl = (\<lambda>(s, ev).
     ebind (if wbio_pending sl (t_ssl s) \<noteq> 0 then tls_arm_write sl (s, ev) else tls_arm_read (s, ev))
       (\<lambda>(s', ev'). Inr (None, s', ev')))"

definition tls_handshake ::
  "'ssl ssl_lib \<Rightarrow> 'ssl tls \<times> app_event \<Rightarrow> (yield \<times> 'ssl tls \<times> app_event) result"
where
  "tls_handshake sl = (\<lambda>(s, ev).
     case run_bio (ssl_handshake sl (t_server s) (t_ssl s)) s of ((ssl', ec), s1) \<Rightarrow>
     let s2 = s1\<lparr>t_ssl := ssl'\<rparr> in
     if ec = Ssl_Want_Read then tls_want_read sl (s2, ev)
     else if ec \<noteq> Ssl_Error_None then Inr (Some (True, - 1), s2\<lparr>t_state := Failed_Tls\<rparr>, ev)
     else Inr (None, s2\<lparr>t_state := Full_Tls\<rparr>, ev))"

partial_function (option) tls_read_loop ::
  "'ssl ssl_lib \<Rightarrow> 'ssl tls \<Rightarrow> app_event \<Rightarrow> (yield \<times> 'ssl tls \<times> app_event) run"
where
  "tls_read_loop sl s ev =
     (case run_bio (ssl_read_ex sl (unat (u_readlen s - u_read_p s)) (t_ssl s)) s of ((ssl', ec, bs), s1) \<Rightarrow>
      let s2 = s1\<lparr>t_ssl := ssl', t_mem := store_bytes (ptr_add (u_read s1) (u_read_p s1)) bs (t_mem s1),
                  u_read_p := u_read_p s1 + word_of_nat (length bs)\<rparr> in
      if ec = Ssl_Want_Read then Some (tls_want_read sl (s2, ev))
      else if ec = Ssl_Error_None then
        (if u_readlen s2 - u_read_p s2 = 0 \<or> \<not> sticky_read s2 \<and> u_read_p s2 \<noteq> 0
         then Some (Inr (Some (False, size_to_int (u_read_p s2)), s2, ev))
         else if e_read_s s2 = 0
         then Some (ebind (tls_arm_read (s2, ev)) (\<lambda>(s', ev'). Inr (None, s', ev')))
         else tls_read_loop sl s2 ev)
      else Some (Inr (Some (True, - 1), s2, ev)))"

text \<open>The first part of \<^verbatim>\<open>handle_read\<close> and \<^verbatim>\<open>handle_write\<close>: the handshake, if it is still to be done.\<close>

definition tls_first ::
  "'ssl ssl_lib \<Rightarrow> 'ssl tls \<times> app_event \<Rightarrow> (yield \<times> 'ssl tls \<times> app_event) result"
where
  "tls_first sl = (\<lambda>(s, ev). if t_state s = WaitHello then tls_handshake sl (s, ev) else Inr (None, s, ev))"

definition tls_handle_read ::
  "'ssl ssl_lib \<Rightarrow> 'ssl tls \<times> app_event \<Rightarrow> (yield \<times> 'ssl tls \<times> app_event) run"
where
  "tls_handle_read sl = (\<lambda>(s, ev).
     rbind (Some (tls_first sl (s, ev))) (\<lambda>(y, s', ev').
       if y \<noteq> None then Some (Inr (y, s', ev'))
       else if t_state s' = Full_Tls then tls_read_loop sl s' ev'
       else Some (Inr (None, s', ev'))))"

definition tls_handle_write ::
  "'ssl ssl_lib \<Rightarrow> 'ssl tls \<times> app_event \<Rightarrow> (yield \<times> 'ssl tls \<times> app_event) result"
where
  "tls_handle_write sl = (\<lambda>(s, ev).
     ebind (tls_first sl (s, ev)) (\<lambda>(y, s', ev').
       if y \<noteq> None then Inr (y, s', ev')
       else if t_state s' = Full_Tls then
         (let n = min (u_writelen s' - u_write_p s') MAXUFRAMELENGTH;
              dat = load_bytes (ptr_add (u_write s') (u_write_p s')) (unat n) (t_mem s')
          in case run_bio (ssl_write_ex sl dat (t_ssl s')) s' of ((ssl', ec, numread), s1) \<Rightarrow>
             let s2 = s1\<lparr>t_ssl := ssl', u_write_p := u_write_p s1 + word_of_nat numread\<rparr> in
             if ec = Ssl_Want_Read then tls_want_read sl (s2, ev')
             else if ec = Ssl_Error_None then
               (if wbio_pending sl (t_ssl s2) \<noteq> 0 \<or> u_writelen s2 - u_write_p s2 \<noteq> 0
                then ebind (tls_arm_write sl (s2, ev')) (\<lambda>(s3, ev3). Inr (None, s3, ev3))
                else Inr (Some (False, size_to_int (u_writelen s2)), s2, ev'))
             else Inr (Some (True, - 1), s2, ev'))
       else Inr (None, s', ev')))"

text \<open>\<^verbatim>\<open>read\<close> and \<^verbatim>\<open>write\<close> do not use the result of the handler they call.\<close>

definition tls_read ::
  "'ssl ssl_lib \<Rightarrow> u64 \<Rightarrow> nat \<Rightarrow> u64 \<Rightarrow> bool \<Rightarrow> 'ssl tls \<times> app_event \<Rightarrow>
    (call_response \<times> 'ssl tls \<times> app_event) run"
where
  "tls_read sl i buf len read_all = (\<lambda>(s, ev).
     rbind (tls_handle_read sl (s\<lparr>sticky_read := read_all, task_read := i, u_read := buf, u_readlen := len,
                                  u_read_p := 0\<rparr>, ev))
       (\<lambda>(_, s', ev'). Some (Inr (mk_response ''Read len bytes into buf TLS'' (OP_HINT_READ OR OP_HINT_NETWORK), s', ev'))))"

definition tls_write ::
  "'ssl ssl_lib \<Rightarrow> u64 \<Rightarrow> nat \<Rightarrow> u64 \<Rightarrow> 'ssl tls \<times> app_event \<Rightarrow>
    (call_response \<times> 'ssl tls \<times> app_event) result"
where
  "tls_write sl i buf len = (\<lambda>(s, ev).
     ebind (tls_handle_write sl (s\<lparr>task_write := i, u_write := buf, u_writelen := len, u_write_p := 0\<rparr>, ev))
       (\<lambda>(_, s', ev'). Inr (mk_response ''Write len bytes from buf TLS'' (OP_HINT_WRITE OR OP_HINT_NETWORK), s', ev')))"

fun tls_on_yield ::
  "'ssl ssl_lib \<Rightarrow> cls event_type \<Rightarrow> 'ssl tls \<times> app_event \<Rightarrow> (yield \<times> 'ssl tls \<times> app_event) run"
where
  "tls_on_yield sl (ChildTaskCompletion caller task st rc) (s, ev) =
     (if rc \<le> 0 then Some (Inr (Some (True, rc), s, ev))
      else let s' = (if task = task_bytes_read s \<and> \<not> task_bytes_r_fin s
                     then s\<lparr>task_bytes_r_fin := True, e_read_s := e_read_s s + int_to_size rc\<rparr>
                     else if task = task_bytes_write s then s\<lparr>task_bytes_w_fin := True\<rparr>
                     else s)
           in if caller = task_read s' then tls_handle_read sl (s', ev)
              else if caller = task_write s' then Some (tls_handle_write sl (s', ev))
              else Some (Inl (Runtime_Error ''Unknown task type'')))"
| "tls_on_yield sl _ _ = Some (Inl Bad_Variant_Access)"

section \<open>The contract of OpenSSL\<close>

text \<open>A call that says it wants input was told to retry by the callback last; output taken from the
  memory BIO fits into what was asked for.\<close>

primrec retried :: "('r \<Rightarrow> bool) \<Rightarrow> bool \<Rightarrow> 'r bio \<Rightarrow> bool" where
  "retried P b (Ret r) = (P r \<longrightarrow> b)"
| "retried P b (Bio_Read len k) = (retried P True (k None) \<and> (\<forall>bs. retried P False (k (Some bs))))"

definition ssl_laws :: "'ssl ssl_lib \<Rightarrow> bool" where
  "ssl_laws sl \<longleftrightarrow>
     (\<forall>srv x. retried (\<lambda>(_, ec). ec = Ssl_Want_Read) False (ssl_handshake sl srv x)) \<and>
     (\<forall>n x. retried (\<lambda>(_, ec, _). ec = Ssl_Want_Read) False (ssl_read_ex sl n x)) \<and>
     (\<forall>bs x. retried (\<lambda>(_, ec, _). ec = Ssl_Want_Read) False (ssl_write_ex sl bs x)) \<and>
     (\<forall>n x. length (fst (wbio_read sl n x)) \<le> n)"

lemma run_bio_frame:
  "\<exists>z m. snd (run_bio p s) = s\<lparr>e_read_s := z, t_mem := m\<rparr> \<and> (e_read_s s = 0 \<longrightarrow> z = 0)"
proof (induction p arbitrary: s)
  case (Ret r)
  have "s = s\<lparr>e_read_s := e_read_s s, t_mem := t_mem s\<rparr>" by simp
  then show ?case by (metis run_bio.simps(1) snd_conv)
next
  case (Bio_Read len k)
  let ?s1 = "snd (osslcb_read len s)" and ?p = "k (fst (osslcb_read len s))"
  have "\<exists>z m. ?s1 = s\<lparr>e_read_s := z, t_mem := m\<rparr> \<and> (e_read_s s = 0 \<longrightarrow> z = 0)"
  proof (cases "e_read_s s = 0")
    case True
    then have "?s1 = s\<lparr>e_read_s := 0, t_mem := t_mem s\<rparr>" by (simp add: osslcb_read_def)
    then show ?thesis by blast
  next
    case False
    then have "?s1 = s\<lparr>e_read_s := e_read_s ?s1, t_mem := t_mem ?s1\<rparr>" by (simp add: osslcb_read_def Let_def)
    then show ?thesis using False by blast
  qed
  then obtain z m where o: "?s1 = s\<lparr>e_read_s := z, t_mem := m\<rparr>" "e_read_s s = 0 \<longrightarrow> z = 0" by blast
  obtain z' m' where "snd (run_bio ?p ?s1) = ?s1\<lparr>e_read_s := z', t_mem := m'\<rparr>" "e_read_s ?s1 = 0 \<longrightarrow> z' = 0"
    using Bio_Read.IH [of ?p ?s1] by blast
  moreover from this(1) have "snd (run_bio ?p ?s1) = s\<lparr>e_read_s := z', t_mem := m'\<rparr>" unfolding o(1) by simp
  moreover have "e_read_s ?s1 = z" unfolding o(1) by simp
  ultimately show ?case using o(2) by (metis run_bio.simps(2))
qed

lemma run_bio_retried:
  assumes "retried P b p" "b \<longrightarrow> e_read_s s = 0" "P (fst (run_bio p s))"
  shows "e_read_s (snd (run_bio p s)) = 0"
  using assms
proof (induction p arbitrary: s b)
  case (Ret r)
  then show ?case by simp
next
  case (Bio_Read len k)
  show ?case
  proof (cases "fst (osslcb_read len s)")
    case None
    then have "e_read_s (snd (osslcb_read len s)) = 0" by (auto simp: osslcb_read_def Let_def split: if_splits)
    then show ?thesis using Bio_Read.IH [of "k None" True] Bio_Read.prems None by simp
  next
    case (Some bs)
    then show ?thesis using Bio_Read.IH [of "k (Some bs)" False] Bio_Read.prems by simp
  qed
qed

section \<open>What is asked of the socket\<close>

text \<open>While a read of the socket is under way no unread bytes are in the block.\<close>

definition tls_inv :: "'ssl tls \<Rightarrow> bool" where
  "tls_inv s \<longleftrightarrow> \<not> task_bytes_r_fin s \<longrightarrow> e_read_s s = 0"

definition tls_call :: "'ssl tls \<Rightarrow> member_call \<Rightarrow> bool" where
  "tls_call s f \<longleftrightarrow> f = Bytes_Read (e_read s) 8 False \<or> (\<exists>n \<le> 8. f = Bytes_Write (e_write s) n)"

definition tls_ok :: "'ssl tls \<Rightarrow> app_event \<Rightarrow> 'ssl tls \<Rightarrow> app_event \<Rightarrow> bool" where
  "tls_ok s ev s' ev' \<longleftrightarrow> (tls_inv s \<longrightarrow> tls_inv s') \<and> e_read s' = e_read s \<and> e_write s' = e_write s \<and>
     (\<exists>fs. map qf_fun (function_q ev') = map qf_fun (function_q ev) @ fs \<and> (\<forall>f \<in> set fs. tls_call s f))"

lemma tls_ok_refl [simp]: "tls_ok s ev s ev"
  by (simp add: tls_ok_def)

lemma tls_ok_trans: "tls_ok s ev s1 ev1 \<Longrightarrow> tls_ok s1 ev1 s2 ev2 \<Longrightarrow> tls_ok s ev s2 ev2"
  by (fastforce simp: tls_ok_def tls_call_def)

lemma tls_ok_same:
  assumes "task_bytes_r_fin s' = task_bytes_r_fin s" "e_read_s s = 0 \<longrightarrow> e_read_s s' = 0"
    "e_read s' = e_read s" "e_write s' = e_write s"
  shows "tls_ok s ev s' ev"
  using assms by (simp add: tls_ok_def tls_inv_def)

lemma c_first_q:
  assumes "c_first cl f ev = Inr (i, ev')"
  shows "map qf_fun (function_q ev') = map qf_fun (function_q ev) @ [f]"
  using assms by (auto simp: c_first_def c_at_def Let_def split: option.splits if_splits)

lemma attach_q [simp]: "function_q (attach i ev) = function_q ev"
  by (simp add: attach_def)

lemma tls_arm_read_ok:
  assumes "tls_arm_read (s, ev) = Inr (s', ev')" "e_read_s s = 0"
  shows "tls_ok s ev s' ev'"
  using assms c_first_q
  by (fastforce simp: tls_arm_read_def tls_ok_def tls_inv_def tls_call_def SIZEOF_PTR_def ebind_Inr_iff split: if_splits)

lemma word_length_le: "length bs \<le> 8 \<Longrightarrow> (word_of_nat (length bs) :: u64) \<le> 8"
  by (simp add: word_le_nat_alt unsigned_of_nat take_bit_nat_eq_self)

lemma tls_arm_write_ok:
  assumes "tls_arm_write sl (s, ev) = Inr (s', ev')" "ssl_laws sl"
  shows "tls_ok s ev s' ev'"
proof (cases "task_bytes_w_fin s")
  case True
  obtain bs ssl' where w: "wbio_read sl 8 (t_ssl s) = (bs, ssl')" by fastforce
  have "length bs \<le> 8" using assms(2) w by (metis fst_conv ssl_laws_def)
  then show ?thesis
    using assms(1) True w c_first_q word_length_le
    by (fastforce simp: tls_arm_write_def SIZEOF_PTR_def Let_def tls_ok_def tls_inv_def tls_call_def ebind_Inr_iff)
next
  case False
  then show ?thesis using assms(1) by (auto simp: tls_arm_write_def tls_ok_def)
qed

lemma tls_want_read_ok:
  assumes "tls_want_read sl (s, ev) = Inr (y, s', ev')" "ssl_laws sl" "e_read_s s = 0"
  shows "tls_ok s ev s' ev'"
  using assms tls_arm_read_ok tls_arm_write_ok
  by (fastforce simp: tls_want_read_def ebind_Inr_iff split: if_splits)

text \<open>A call into OpenSSL by itself asks nothing of the socket.\<close>

lemma run_bio_ok:
  assumes "run_bio p s = (r, s1)" "task_bytes_r_fin s2 = task_bytes_r_fin s1" "e_read_s s2 = e_read_s s1"
    "e_read s2 = e_read s1" "e_write s2 = e_write s1"
  shows "tls_ok s ev s2 ev"
proof -
  obtain z m where "s1 = s\<lparr>e_read_s := z, t_mem := m\<rparr>" "e_read_s s = 0 \<longrightarrow> z = 0"
    using run_bio_frame [of p s] assms(1) by auto
  then show ?thesis using assms(2-5) by (intro tls_ok_same) simp_all
qed

lemma tls_handshake_ok:
  assumes "tls_handshake sl (s, ev) = Inr (y, s', ev')" "ssl_laws sl"
  shows "tls_ok s ev s' ev'"
proof -
  obtain ssl' ec s1 where r: "run_bio (ssl_handshake sl (t_server s) (t_ssl s)) s = ((ssl', ec), s1)"
    by (metis prod.exhaust)
  have ok: "tls_ok s ev (s1\<lparr>t_ssl := ssl'\<rparr>) ev" by (rule run_bio_ok [OF r]) simp_all
  have ok': "tls_ok s ev (s1\<lparr>t_ssl := ssl', t_state := st\<rparr>) ev" for st by (rule run_bio_ok [OF r]) simp_all
  show ?thesis
  proof (cases "ec = Ssl_Want_Read")
    case True
    have "retried (\<lambda>(_, ec). ec = Ssl_Want_Read) False (ssl_handshake sl (t_server s) (t_ssl s))"
      using assms(2) by (simp add: ssl_laws_def)
    from run_bio_retried [OF this, of s] have "e_read_s s1 = 0" using r True by simp
    then show ?thesis
      using assms r True tls_want_read_ok [of sl "s1\<lparr>t_ssl := ssl'\<rparr>" ev y s' ev'] tls_ok_trans [OF ok]
      by (simp add: tls_handshake_def)
  next
    case False
    then show ?thesis using assms(1) r ok' by (auto simp: tls_handshake_def Let_def split: if_splits)
  qed
qed

lemma tls_first_ok:
  assumes "tls_first sl (s, ev) = Inr (y, s', ev')" "ssl_laws sl"
  shows "tls_ok s ev s' ev'"
  using assms tls_handshake_ok by (fastforce simp: tls_first_def split: if_splits)

lemma tls_read_ex_want:
  assumes "run_bio (ssl_read_ex sl n x) s = ((ssl', Ssl_Want_Read, bs), s1)" "ssl_laws sl"
  shows "e_read_s s1 = 0"
proof -
  have "retried (\<lambda>(_, ec, _). ec = Ssl_Want_Read) False (ssl_read_ex sl n x)"
    using assms(2) by (simp add: ssl_laws_def)
  from run_bio_retried [OF this, of s] assms(1) show ?thesis by simp
qed

lemma tls_write_ex_want:
  assumes "run_bio (ssl_write_ex sl dat x) s = ((ssl', Ssl_Want_Read, n), s1)" "ssl_laws sl"
  shows "e_read_s s1 = 0"
proof -
  have "retried (\<lambda>(_, ec, _). ec = Ssl_Want_Read) False (ssl_write_ex sl dat x)"
    using assms(2) by (simp add: ssl_laws_def)
  from run_bio_retried [OF this, of s] assms(1) show ?thesis by simp
qed

text \<open>One turn of the read loop.\<close>

definition read_turn ::
  "'ssl ssl_lib \<Rightarrow> 'ssl tls \<Rightarrow> ssl_error \<times> u8 list \<times> 'ssl tls"
where
  "read_turn sl s =
     (case run_bio (ssl_read_ex sl (unat (u_readlen s - u_read_p s)) (t_ssl s)) s of ((ssl', ec, bs), s1) \<Rightarrow>
       (ec, bs, s1\<lparr>t_ssl := ssl', t_mem := store_bytes (ptr_add (u_read s1) (u_read_p s1)) bs (t_mem s1),
                  u_read_p := u_read_p s1 + word_of_nat (length bs)\<rparr>))"

lemma tls_read_loop_turn:
  assumes "read_turn sl s = (ec, bs, s2)"
  shows "tls_read_loop sl s ev =
     (if ec = Ssl_Want_Read then Some (tls_want_read sl (s2, ev))
      else if ec = Ssl_Error_None then
        (if u_readlen s2 - u_read_p s2 = 0 \<or> \<not> sticky_read s2 \<and> u_read_p s2 \<noteq> 0
         then Some (Inr (Some (False, size_to_int (u_read_p s2)), s2, ev))
         else if e_read_s s2 = 0
         then Some (ebind (tls_arm_read (s2, ev)) (\<lambda>(s', ev'). Inr (None, s', ev')))
         else tls_read_loop sl s2 ev)
      else Some (Inr (Some (True, - 1), s2, ev)))"
  using assms by (subst tls_read_loop.simps) (auto simp: read_turn_def Let_def split: prod.splits)

lemma read_turn_frame:
  assumes "read_turn sl s = (ec, bs, s2)" "ssl_laws sl"
  shows "tls_ok s ev s2 ev" "ec = Ssl_Want_Read \<Longrightarrow> e_read_s s2 = 0"
    "u_readlen s2 = u_readlen s" "u_read s2 = u_read s" "sticky_read s2 = sticky_read s"
    "u_read_p s2 = u_read_p s + word_of_nat (length bs)"
proof -
  obtain ssl' s1 where r: "run_bio (ssl_read_ex sl (unat (u_readlen s - u_read_p s)) (t_ssl s)) s = ((ssl', ec, bs), s1)"
    "s2 = s1\<lparr>t_ssl := ssl', t_mem := store_bytes (ptr_add (u_read s1) (u_read_p s1)) bs (t_mem s1),
                  u_read_p := u_read_p s1 + word_of_nat (length bs)\<rparr>"
    using assms(1) by (auto simp: read_turn_def split: prod.splits)
  show "tls_ok s ev s2 ev" by (rule run_bio_ok [OF r(1)]) (simp_all add: r(2))
  show "ec = Ssl_Want_Read \<Longrightarrow> e_read_s s2 = 0"
    using tls_read_ex_want [OF _ assms(2)] r by auto
  obtain z m where "s1 = s\<lparr>e_read_s := z, t_mem := m\<rparr>"
    using run_bio_frame [of "ssl_read_ex sl (unat (u_readlen s - u_read_p s)) (t_ssl s)" s] r(1) by auto
  then show "u_readlen s2 = u_readlen s" "u_read s2 = u_read s" "sticky_read s2 = sticky_read s"
    "u_read_p s2 = u_read_p s + word_of_nat (length bs)" by (simp_all add: r(2))
qed

lemma tls_read_loop_ok:
  assumes "tls_read_loop sl s ev = Some (Inr (y, s', ev'))" "ssl_laws sl"
  shows "tls_ok s ev s' ev'"
proof -
  have "ssl_laws sl \<longrightarrow> (\<forall>y s' ev'. x = Inr (y, s', ev') \<longrightarrow> tls_ok s ev s' ev')"
    if "tls_read_loop sl s ev = Some x" for x
    using that
  proof (induct sl s ev x rule: tls_read_loop.raw_induct [rotated, consumes 1])
    case (1 f sl s ev x)
    show ?case
    proof (intro impI allI)
      fix y s' ev'
      assume laws: "ssl_laws sl" and x: "x = Inr (y, s', ev')"
      obtain ssl' ec bs s1 where r: "run_bio (ssl_read_ex sl (unat (u_readlen s - u_read_p s)) (t_ssl s)) s = ((ssl', ec, bs), s1)"
        by (metis prod.exhaust)
      define s2 where "s2 = s1\<lparr>t_ssl := ssl', t_mem := store_bytes (ptr_add (u_read s1) (u_read_p s1)) bs (t_mem s1),
                  u_read_p := u_read_p s1 + word_of_nat (length bs)\<rparr>"
      have t: "read_turn sl s = (ec, bs, s2)" using r by (simp add: read_turn_def s2_def)
      note fr = read_turn_frame [OF t laws]
      have "Some x = (if ec = Ssl_Want_Read then Some (tls_want_read sl (s2, ev))
          else if ec = Ssl_Error_None then
            (if u_readlen s2 - u_read_p s2 = 0 \<or> \<not> sticky_read s2 \<and> u_read_p s2 \<noteq> 0
             then Some (Inr (Some (False, size_to_int (u_read_p s2)), s2, ev))
             else if e_read_s s2 = 0
             then Some (ebind (tls_arm_read (s2, ev)) (\<lambda>(s', ev'). Inr (None, s', ev')))
             else f sl s2 ev)
          else Some (Inr (Some (True, - 1), s2, ev)))"
        using 1(2) unfolding r prod.case Let_def s2_def [symmetric] by (rule sym)
      then consider "tls_want_read sl (s2, ev) = x" "ec = Ssl_Want_Read" | "\<exists>v. x = Inr (v, s2, ev)"
        | "ebind (tls_arm_read (s2, ev)) (\<lambda>(s', ev'). Inr (None, s', ev')) = x" "e_read_s s2 = 0" | "f sl s2 ev = Some x"
        by (metis (no_types, lifting) option.inject)
      then show "tls_ok s ev s' ev'"
      proof cases
        case 1
        then show ?thesis using tls_want_read_ok [OF _ laws fr(2)] x tls_ok_trans [OF fr(1)] by blast
      next
        case 2
        then show ?thesis using fr(1) x by auto
      next
        case 3
        then have "tls_arm_read (s2, ev) = Inr (s', ev')" by (auto simp: x ebind_Inr_iff)
        then show ?thesis using tls_arm_read_ok [OF _ 3(2)] tls_ok_trans [OF fr(1)] by blast
      next
        case 4
        then show ?thesis using 1(1) [OF 4] laws x tls_ok_trans [OF fr(1)] by blast
      qed
    qed
  qed
  then show ?thesis using assms by blast
qed

lemma tls_handle_read_ok:
  assumes "tls_handle_read sl (s, ev) = Some (Inr (y, s', ev'))" "ssl_laws sl"
  shows "tls_ok s ev s' ev'"
proof (cases "tls_first sl (s, ev)")
  case (Inl e)
  then show ?thesis using assms(1) by (simp add: tls_handle_read_def)
next
  case (Inr r)
  obtain y1 s1 ev1 where r: "r = (y1, s1, ev1)" by (cases r) auto
  have "tls_ok s ev s1 ev1" using tls_first_ok [OF _ assms(2)] Inr r by blast
  then show ?thesis
    using assms Inr r tls_read_loop_ok [of sl s1 ev1 y s' ev'] tls_ok_trans
    by (auto simp: tls_handle_read_def split: if_splits)
qed

lemma tls_handle_write_ok:
  assumes "tls_handle_write sl (s, ev) = Inr (y, s', ev')" "ssl_laws sl"
  shows "tls_ok s ev s' ev'"
proof (cases "tls_first sl (s, ev)")
  case (Inl e)
  then show ?thesis using assms(1) by (simp add: tls_handle_write_def)
next
  case (Inr r)
  obtain y1 s1 ev1 where r: "r = (y1, s1, ev1)" by (cases r) auto
  have ok1: "tls_ok s ev s1 ev1" using tls_first_ok [OF _ assms(2)] Inr r by blast
  let ?n = "min (u_writelen s1 - u_write_p s1) MAXUFRAMELENGTH"
  let ?dat = "load_bytes (ptr_add (u_write s1) (u_write_p s1)) (unat ?n) (t_mem s1)"
  obtain ssl' ec num s2 where w: "run_bio (ssl_write_ex sl ?dat (t_ssl s1)) s1 = ((ssl', ec, num), s2)"
    by (metis prod.exhaust)
  let ?s3 = "s2\<lparr>t_ssl := ssl', u_write_p := u_write_p s2 + word_of_nat num\<rparr>"
  have ok2: "tls_ok s1 ev1 ?s3 ev1" by (rule run_bio_ok [OF w]) simp_all
  have want: "e_read_s ?s3 = 0" if "ec = Ssl_Want_Read"
    using tls_write_ex_want [OF _ assms(2)] w that by auto
  consider "y1 \<noteq> None \<or> t_state s1 \<noteq> Full_Tls" "s' = s1" "ev' = ev1"
    | "tls_want_read sl (?s3, ev1) = Inr (y, s', ev')" "ec = Ssl_Want_Read"
    | "tls_arm_write sl (?s3, ev1) = Inr (s', ev')" | "s' = ?s3" "ev' = ev1"
    using assms(1) w by (auto simp: tls_handle_write_def Inr r Let_def ebind_Inr_iff split: if_splits)
  then show ?thesis
  proof cases
    case 1
    then show ?thesis using ok1 by simp
  next
    case 2
    then show ?thesis using tls_want_read_ok [OF 2(1) assms(2) want] tls_ok_trans [OF ok1 tls_ok_trans [OF ok2]] by simp
  next
    case 3
    then show ?thesis using tls_arm_write_ok [OF 3 assms(2)] tls_ok_trans [OF ok1 tls_ok_trans [OF ok2]] by simp
  next
    case 4
    then show ?thesis using tls_ok_trans [OF ok1 ok2] by simp
  qed
qed

section \<open>Properties\<close>

text \<open>An instance for evaluation: no encryption, input is asked for eight bytes at a time.\<close>

definition null_ssl :: "u8 list ssl_lib" where
  "null_ssl = \<lparr>ssl_handshake = (\<lambda>srv x. Ret (x, Ssl_Error_None)),
     ssl_read_ex = (\<lambda>n x. if x \<noteq> [] then Ret (drop n x, Ssl_Error_None, take n x)
        else Bio_Read 8 (\<lambda>r. case r of None \<Rightarrow> Ret (x, Ssl_Want_Read, [])
             | Some bs \<Rightarrow> if bs = [] then Ret (x, Ssl_Error_Other 1, []) else Ret (drop n bs, Ssl_Error_None, take n bs))),
     ssl_write_ex = (\<lambda>bs x. Ret (x, Ssl_Error_None, length bs)),
     wbio_pending = (\<lambda>x. 0), wbio_read = (\<lambda>n x. ([], x))\<rparr>"

lemma null_ssl_laws: "ssl_laws null_ssl"
  by (simp add: ssl_laws_def null_ssl_def)

definition null_tls :: "u8 list \<Rightarrow> u8 list tls" where
  "null_tls x = (fst (tls_new [5] True x 4096 8192 (\<lambda>a. 0) (new_event empty_uring_data)))\<lparr>t_state := Full_Tls\<rparr>"

definition null_event :: app_event where
  "null_event = snd (tls_new [5] True ([] :: u8 list) 4096 8192 (\<lambda>a. 0) (new_event empty_uring_data))"

lemma null_event_child: "has_child ReadWriteBytes null_event" "function_q null_event = []"
  by (simp add: null_event_def tls_new_def)
    (simp add: null_event_def tls_new_def construct_ev_def set_slots_def new_event_def Let_def)

text \<open>
  C29: Whatever call or completion arrives, a TLS socket only ever asks the socket below to
  read eight bytes into its input block, and only when every byte received before has been taken by
  OpenSSL, or to write at most eight bytes from its output block.
\<close>

theorem tls_requests_bounded:
  assumes "ssl_laws sl" "tls_inv s"
    and "tls_on_yield sl e (s, ev) = Some (Inr (y, s', ev')) \<or>
      tls_read sl i buf len read_all (s, ev) = Some (Inr (resp, s', ev')) \<or>
      tls_write sl i buf len (s, ev) = Inr (resp, s', ev')"
  shows "tls_inv s' \<and> (\<exists>fs. map qf_fun (function_q ev') = map qf_fun (function_q ev) @ fs \<and>
    (\<forall>f \<in> set fs. f = Bytes_Read (e_read s) 8 False \<or> (\<exists>n \<le> 8. f = Bytes_Write (e_write s) n)))"
proof -
  have "tls_ok s ev s' ev'"
    using assms(3)
  proof (elim disjE)
    assume "tls_read sl i buf len read_all (s, ev) = Some (Inr (resp, s', ev'))"
    then obtain y' where "tls_handle_read sl (s\<lparr>sticky_read := read_all, task_read := i, u_read := buf,
        u_readlen := len, u_read_p := 0\<rparr>, ev) = Some (Inr (y', s', ev'))"
      by (auto simp: tls_read_def rbind_def split: option.splits sum.splits)
    from tls_handle_read_ok [OF this assms(1)] show ?thesis
      by (rule tls_ok_trans [OF tls_ok_same, rotated 4]) simp_all
  next
    assume "tls_write sl i buf len (s, ev) = Inr (resp, s', ev')"
    then obtain y' where "tls_handle_write sl (s\<lparr>task_write := i, u_write := buf, u_writelen := len,
        u_write_p := 0\<rparr>, ev) = Inr (y', s', ev')"
      by (auto simp: tls_write_def ebind_Inr_iff)
    from tls_handle_write_ok [OF this assms(1)] show ?thesis
      by (rule tls_ok_trans [OF tls_ok_same, rotated 4]) simp_all
  next
    assume y: "tls_on_yield sl e (s, ev) = Some (Inr (y, s', ev'))"
    then obtain c t st rc where e: "e = ChildTaskCompletion c t st rc" by (cases e) auto
    let ?s = "if t = task_bytes_read s \<and> \<not> task_bytes_r_fin s
              then s\<lparr>task_bytes_r_fin := True, e_read_s := e_read_s s + int_to_size rc\<rparr>
              else if t = task_bytes_write s then s\<lparr>task_bytes_w_fin := True\<rparr> else s"
    have ok: "tls_ok s ev ?s ev" by (simp add: tls_ok_def tls_inv_def)
    have "rc \<le> 0 \<and> s' = s \<and> ev' = ev \<or> tls_handle_read sl (?s, ev) = Some (Inr (y, s', ev')) \<or>
        tls_handle_write sl (?s, ev) = Inr (y, s', ev')"
      using y unfolding e tls_on_yield.simps Let_def by (auto simp del: not_None_eq split: if_split_asm)
    then show ?thesis
      using tls_handle_read_ok [OF _ assms(1)] tls_handle_write_ok [OF _ assms(1)] tls_ok_trans [OF ok] by fastforce
  qed
  then show ?thesis using assms(2) by (auto simp: tls_ok_def tls_call_def)
qed

lemma tls_requests_bounded_witness:
  "\<exists>s' ev'. tls_read null_ssl 1 100 20 True (null_tls [], null_event) =
      Some (Inr (mk_response ''Read len bytes into buf TLS'' (OP_HINT_READ OR OP_HINT_NETWORK), s', ev')) \<and>
    tls_inv s' \<and> map qf_fun (function_q ev') = [Bytes_Read 4096 8 False]"
proof -
  have inv: "tls_inv (null_tls [])" by (simp add: tls_inv_def null_tls_def tls_new_def)
  let ?s = "(null_tls [])\<lparr>sticky_read := True, task_read := 1, u_read := 100, u_readlen := 20, u_read_p := 0\<rparr>"
  have "read_turn null_ssl ?s = (Ssl_Want_Read, [], ?s\<lparr>t_ssl := [], t_mem := store_bytes 100 [] (t_mem ?s), u_read_p := 0\<rparr>)"
    by (simp add: read_turn_def null_ssl_def null_tls_def tls_new_def osslcb_read_def ptr_add_def)
  from tls_read_loop_turn [OF this, of null_event] obtain s'
    where r: "tls_read null_ssl 1 100 20 True (null_tls [], null_event) =
      Some (Inr (mk_response ''Read len bytes into buf TLS'' (OP_HINT_READ OR OP_HINT_NETWORK), s',
        snd (c_at ReadWriteBytes (first_child ReadWriteBytes null_event) (Bytes_Read 4096 8 False) null_event)))"
    by (simp add: tls_read_def tls_handle_read_def tls_first_def null_tls_def tls_new_def tls_want_read_def tls_arm_read_def
        null_ssl_def SIZEOF_PTR_def c_first_child [OF null_event_child(1)] split_beta)
  from tls_requests_bounded [OF null_ssl_laws inv disjI2 [OF disjI1 [OF this]]] have "tls_inv s'" by blast
  then show ?thesis using r null_event_child(2) by (auto simp: function_q_c_at)
qed

text \<open>The encrypted bytes OpenSSL has not taken yet.\<close>

definition unread :: "'ssl tls \<Rightarrow> u8 list" where
  "unread s = load_bytes (e_read s) (unat (e_read_s s)) (t_mem s)"

lemma load_store [simp]: "n \<le> length bs \<Longrightarrow> load_bytes a n (store_bytes a bs m) = take n bs"
  by (rule nth_equalityI) (auto simp: load_bytes_def store_bytes_def)

lemma load_append: "load_bytes a (n + k) m = load_bytes a n m @ load_bytes (a + n) k m"
  by (rule nth_equalityI) (auto simp: load_bytes_def nth_append)

lemma length_load [simp]: "length (load_bytes a n m) = n"
  by (simp add: load_bytes_def)

lemma osslcb_read_unread:
  "unread s = (case fst (osslcb_read len s) of None \<Rightarrow> [] | Some bs \<Rightarrow> bs) @ unread (snd (osslcb_read len s))"
proof (cases "e_read_s s = 0")
  case True
  then show ?thesis by (simp add: osslcb_read_def unread_def load_bytes_def)
next
  case False
  let ?n = "min (unat (e_read_s s)) len"
  have sz: "unat (e_read_s s - word_of_nat ?n) = unat (e_read_s s) - ?n"
  proof -
    have "?n < 2 ^ 64" using unsigned_less [of "e_read_s s", where 'a = nat] by (simp add: min_less_iff_disj)
    then have n: "unat (word_of_nat ?n :: u64) = ?n" by (rule unat_word_nat)
    then have "(word_of_nat ?n :: u64) \<le> e_read_s s" by (simp add: word_le_nat_alt)
    then show ?thesis using n by (simp add: unat_sub)
  qed
  then show ?thesis
    using False load_append [of "e_read s" ?n "unat (e_read_s s) - ?n" "t_mem s"]
    by (simp add: osslcb_read_def unread_def Let_def)
qed

text \<open>
  C10: What the socket has put into the input block reaches OpenSSL completely and in order,
  however many bytes each callback asks for: the answers so far, followed by what is left in the
  block, are the bytes received.
\<close>

theorem tls_input_in_order:
  assumes "e_read_s s = 0" "length bs < 2 ^ 31" "bs \<noteq> []" "task_bytes_r_fin s = False"
    and "t = s\<lparr>t_mem := store_bytes (e_read s) bs (t_mem s)\<rparr>"
    and "t' = t\<lparr>task_bytes_r_fin := True, e_read_s := e_read_s t + int_to_size (int (length bs))\<rparr>"
    and "answers = (\<lambda>lens. fold (\<lambda>len (out, u). (out @ (case fst (osslcb_read len u) of None \<Rightarrow> [] | Some b \<Rightarrow> b),
             snd (osslcb_read len u))) lens ([], t'))"
  shows "fst (answers lens) @ unread (snd (answers lens)) = bs \<and>
    tls_on_yield sl (ChildTaskCompletion (task_read s) (task_bytes_read s) Finished (int (length bs))) (t, ev) =
      tls_handle_read sl (t', ev)"
proof -
  have "fst (fold (\<lambda>len (out, u). (out @ (case fst (osslcb_read len u) of None \<Rightarrow> [] | Some b \<Rightarrow> b),
             snd (osslcb_read len u))) lens (out, u)) @
      unread (snd (fold (\<lambda>len (out, u). (out @ (case fst (osslcb_read len u) of None \<Rightarrow> [] | Some b \<Rightarrow> b),
             snd (osslcb_read len u))) lens (out, u))) = out @ unread u" for out and u :: "'a tls"
    by (induction lens arbitrary: out u) (simp_all add: osslcb_read_unread [symmetric] flip: append_assoc, simp add: osslcb_read_unread [symmetric])
  moreover have "unat (int_to_size (int (length bs))) = length bs"
    using assms(2) by (simp add: unat_int_to_size)
  then have "unread t' = bs" using assms(1,5,6) by (simp add: unread_def)
  ultimately show ?thesis using assms by (simp add: Let_def)
qed

lemma tls_input_in_order_witness:
  "fst (fold (\<lambda>len (out, u). (out @ (case fst (osslcb_read len u) of None \<Rightarrow> [] | Some b \<Rightarrow> b), snd (osslcb_read len u)))
       [5, 2, 4] ([], (null_tls [])\<lparr>t_mem := store_bytes 4096 [1, 2, 3, 4, 5, 6, 7, 8] (\<lambda>a. 0), e_read_s := 8\<rparr>)) =
     [1, 2, 3, 4, 5, 6, 7, 8]"
proof -
  let ?s = "(null_tls [])\<lparr>task_bytes_r_fin := False\<rparr>" and ?bs = "[1, 2, 3, 4, 5, 6, 7, 8] :: u8 list"
  let ?t = "?s\<lparr>t_mem := store_bytes (e_read ?s) ?bs (t_mem ?s)\<rparr>"
  let ?t' = "?t\<lparr>task_bytes_r_fin := True, e_read_s := e_read_s ?t + int_to_size (int (length ?bs))\<rparr>"
  let ?ans = "\<lambda>lens. fold (\<lambda>len (out, u). (out @ (case fst (osslcb_read len u) of None \<Rightarrow> [] | Some b \<Rightarrow> b),
             snd (osslcb_read len u))) lens ([], ?t')"
  have "fst (?ans [5, 2, 4]) @ unread (snd (?ans [5, 2, 4])) = ?bs"
  proof (rule conjunct1 [OF tls_input_in_order [where s = ?s and t = ?t and t' = ?t' and answers = ?ans
            and sl = null_ssl and ev = null_event]])
    show "e_read_s ?s = 0" by (simp add: null_tls_def tls_new_def)
  qed (simp_all only: refl, simp_all)
  moreover have "unread (snd (?ans [5, 2, 4])) = []"
    by (simp add: osslcb_read_def unread_def Let_def null_tls_def tls_new_def int_to_size_def load_bytes_def)
  moreover have "?t' = (null_tls [])\<lparr>t_mem := store_bytes 4096 ?bs (\<lambda>a. 0), e_read_s := 8\<rparr>"
    by (simp add: null_tls_def tls_new_def int_to_size_def)
  ultimately show ?thesis by simp
qed

text \<open>
  When OpenSSL already holds decrypted data for a call to \<^verbatim>\<open>read\<close>, the data is copied
  but the call never completes: \<^verbatim>\<open>read\<close> drops the result of \<^verbatim>\<open>handle_read\<close> and asks nothing of the
  socket below, so no completion will come.
\<close>

theorem buffered_read_lost:
  assumes "t_state s = Full_Tls"
    and "read_turn sl (s\<lparr>sticky_read := read_all, task_read := i, u_read := buf, u_readlen := len, u_read_p := 0\<rparr>) =
      (Ssl_Error_None, bs, s2)"
    and "ssl_laws sl" "word_of_nat (length bs) = len \<or> \<not> read_all \<and> word_of_nat (length bs) \<noteq> (0 :: u64)"
  shows "tls_handle_read sl (s\<lparr>sticky_read := read_all, task_read := i, u_read := buf, u_readlen := len, u_read_p := 0\<rparr>, ev) =
      Some (Inr (Some (False, size_to_int (word_of_nat (length bs))), s2, ev)) \<and>
    tls_read sl i buf len read_all (s, ev) =
      Some (Inr (mk_response ''Read len bytes into buf TLS'' (OP_HINT_READ OR OP_HINT_NETWORK), s2, ev))"
proof -
  let ?s = "s\<lparr>sticky_read := read_all, task_read := i, u_read := buf, u_readlen := len, u_read_p := 0\<rparr>"
  note fr = read_turn_frame(3-6) [OF assms(2,3)]
  have "tls_read_loop sl ?s ev = Some (Inr (Some (False, size_to_int (word_of_nat (length bs))), s2, ev))"
    using assms(4) fr by (subst tls_read_loop_turn [OF assms(2)]) auto
  then show ?thesis using assms(1) by (simp add: tls_handle_read_def tls_first_def tls_read_def)
qed

lemma buffered_read_lost_witness:
  "\<exists>s'. tls_read null_ssl 1 100 2 True (null_tls [7, 8, 9], null_event) =
      Some (Inr (mk_response ''Read len bytes into buf TLS'' (OP_HINT_READ OR OP_HINT_NETWORK), s', null_event)) \<and>
    load_bytes 100 2 (t_mem s') = [7, 8]"
proof -
  let ?s = "(null_tls [7, 8, 9])\<lparr>sticky_read := True, task_read := 1, u_read := 100, u_readlen := 2, u_read_p := 0\<rparr>"
  let ?s2 = "?s\<lparr>t_ssl := [9], t_mem := store_bytes 100 [7, 8] (t_mem ?s), u_read_p := 2\<rparr>"
  have "read_turn null_ssl ?s = (Ssl_Error_None, [7, 8], ?s2)"
    by (simp add: read_turn_def null_ssl_def null_tls_def tls_new_def ptr_add_def)
  moreover have "t_state (null_tls [7, 8, 9]) = Full_Tls" by (simp add: null_tls_def)
  moreover have "load_bytes 100 2 (store_bytes 100 [7, 8] (t_mem ?s)) = take 2 [7, 8]" by (rule load_store) simp
  ultimately show ?thesis
    using buffered_read_lost [OF _ _ null_ssl_laws, where s = "null_tls [7, 8, 9]" and read_all = True and i = 1 and buf = 100
        and len = 2 and bs = "[7, 8]" and ?s2.0 = ?s2 and ev = null_event] by fastforce
qed

text \<open>
  With an OpenSSL whose successful reads return at least one and at most the bytes asked
  for, \<^verbatim>\<open>handle_read\<close> returns: its loop ends whenever there is room left in the caller's buffer.
\<close>

theorem handle_read_returns:
  fixes sl :: "'ssl ssl_lib" and s :: "'ssl tls"
  assumes "ssl_laws sl" "u_read_p s < u_readlen s"
    and "\<And>n x (u :: 'ssl tls) x' bs u'. 0 < n \<Longrightarrow> run_bio (ssl_read_ex sl n x) u = ((x', Ssl_Error_None, bs), u') \<Longrightarrow>
      bs \<noteq> [] \<and> length bs \<le> n"
  shows "tls_handle_read sl (s, ev) \<noteq> None"
proof -
  have loop: "tls_read_loop sl u ev \<noteq> None" if "u_read_p u < u_readlen u" for u :: "'ssl tls" and ev
    using that
  proof (induction "unat (u_readlen u - u_read_p u)" arbitrary: u ev rule: less_induct)
    case less
    obtain ec bs u2 where t: "read_turn sl u = (ec, bs, u2)" by (metis prod.exhaust)
    note fr = read_turn_frame(3-6) [OF t assms(1)]
    show ?case
    proof (cases "ec = Ssl_Error_None \<and> u_readlen u2 - u_read_p u2 \<noteq> 0")
      case True
      let ?n = "unat (u_readlen u - u_read_p u)"
      obtain x' u1 where r: "run_bio (ssl_read_ex sl ?n (t_ssl u)) u = ((x', Ssl_Error_None, bs), u1)"
        using t True by (auto simp: read_turn_def split: prod.splits)
      have n: "?n = unat (u_readlen u) - unat (u_read_p u)" "0 < ?n"
        using less.prems by (simp_all add: unat_sub less_imp_le word_less_nat_alt)
      then have bs: "0 < length bs" "length bs \<le> ?n" using assms(3) [OF _ r] by simp_all
      have "unat (u_readlen u) < 2 ^ 64" using unsigned_less [of "u_readlen u", where 'a = nat] by simp
      then have p: "unat (u_read_p u2) = unat (u_read_p u) + length bs"
        using bs n unfolding fr by (simp add: unat_word_ariths unsigned_of_nat take_bit_eq_mod)
      moreover have "u_read_p u2 \<noteq> u_readlen u2" using True by auto
      ultimately have lt: "unat (u_read_p u2) < unat (u_readlen u2)"
        using bs n less.prems unfolding fr(1) by (metis le_add_diff_inverse less_imp_le_nat le_neq_implies_less
            add_left_mono word_less_nat_alt word_unat_eq_iff)
      then have "unat (u_readlen u2 - u_read_p u2) = unat (u_readlen u) - unat (u_read_p u2)"
        by (simp add: unat_sub word_le_nat_alt fr(1))
      then have "unat (u_readlen u2 - u_read_p u2) < ?n" using p bs n lt fr(1) by linarith
      then have "tls_read_loop sl u2 ev \<noteq> None" using less.hyps lt by (simp add: word_less_nat_alt)
      then show ?thesis by (subst tls_read_loop_turn [OF t]) simp
    next
      case False
      then show ?thesis by (subst tls_read_loop_turn [OF t]) auto
    qed
  qed
  show ?thesis
  proof (cases "tls_first sl (s, ev)")
    case (Inl e)
    then show ?thesis by (simp add: tls_handle_read_def)
  next
    case (Inr r)
    obtain y s1 ev1 where r: "r = (y, s1, ev1)" by (cases r) auto
    have "u_read_p s1 < u_readlen s1" if "y = None" "t_state s1 = Full_Tls"
    proof (cases "t_state s = WaitHello")
      case True
      obtain x' ec s2 where b: "run_bio (ssl_handshake sl (t_server s) (t_ssl s)) s = ((x', ec), s2)"
        by (metis prod.exhaust)
      obtain z m where s2: "s2 = s\<lparr>e_read_s := z, t_mem := m\<rparr>"
        using run_bio_frame [of "ssl_handshake sl (t_server s) (t_ssl s)" s] b by auto
      have "ec \<noteq> Ssl_Want_Read"
      proof
        assume "ec = Ssl_Want_Read"
        then have "tls_want_read sl (s2\<lparr>t_ssl := x'\<rparr>, ev) = Inr (y, s1, ev1)"
          using Inr r True b by (simp add: tls_first_def tls_handshake_def)
        then have "t_state s1 = t_state s2"
          by (auto simp: tls_want_read_def tls_arm_write_def tls_arm_read_def Let_def ebind_Inr_iff split: if_splits prod.splits)
        then show False using that True s2 by simp
      qed
      then show ?thesis
        using Inr r True b that assms(2) s2 by (auto simp: tls_first_def tls_handshake_def Let_def split: if_splits)
    next
      case False
      then show ?thesis using Inr r assms(2) by (simp add: tls_first_def)
    qed
    then show ?thesis using loop Inr r by (auto simp: tls_handle_read_def simp del: not_None_eq)
  qed
qed

lemma handle_read_returns_witness:
  "tls_handle_read null_ssl ((null_tls [])\<lparr>u_readlen := 20, sticky_read := True\<rparr>, null_event) \<noteq> None"
proof (rule handle_read_returns [OF null_ssl_laws])
  show "u_read_p ((null_tls [])\<lparr>u_readlen := 20, sticky_read := True\<rparr>) < u_readlen ((null_tls [])\<lparr>u_readlen := 20, sticky_read := True\<rparr>)"
    by (simp add: null_tls_def tls_new_def)
  fix n x x' bs and u u' :: "u8 list tls"
  assume "0 < n" "run_bio (ssl_read_ex null_ssl n x) u = ((x', Ssl_Error_None, bs), u')"
  then show "bs \<noteq> [] \<and> length bs \<le> n"
    by (auto simp: null_ssl_def split: if_splits option.splits)
qed

end
