(* ===== verification/Tls_Life.thy ===== *)
theory Tls_Life
  imports Alloc_Spec Tls
begin

text \<open>
  What a \<^verbatim>\<open>TLSSocket\<close> owns (\<^verbatim>\<open>src/common/tls_socket.{h,cpp}\<close>): its SSL object, through the move-only class
  \<^verbatim>\<open>SSLCtx\<close>, the BIO method \<^verbatim>\<open>openssl_setup\<close> makes, and two blocks of the thread's allocator.  The
  theorems follow them over any history: an SSL object is freed at most once, the blocks of the
  sockets alive are exactly the blocks in use of the allocator, and destruction gives all of it back
  except the BIO method.
\<close>

section \<open>SSLCtx\<close>

text \<open>\<^verbatim>\<open>ssl_\<close> of every live object (none: null), and the SSL objects freed so far.\<close>

record ssl_world =
  ssl_ptr :: "nat \<rightharpoonup> nat option"
  ssl_freed :: "nat list"

text \<open>\<^verbatim>\<open>SSLCtx()\<close>; \<open>r\<close> is what \<^verbatim>\<open>SSL_new\<close> returns.  The object lives in storage no live object occupies.\<close>

definition ssl_new :: "nat \<Rightarrow> nat option \<Rightarrow> ssl_world \<Rightarrow> ssl_world result" where
  "ssl_new x r w =
     (if ssl_ptr w x \<noteq> None then Inl Undefined_Behaviour
      else case r of
          None \<Rightarrow> Inl (Runtime_Error ''Failed to create ssl object'')
        | Some p \<Rightarrow> Inr (w\<lparr>ssl_ptr := (ssl_ptr w)(x \<mapsto> Some p)\<rparr>))"

text \<open>\<^verbatim>\<open>SSL* operator()()\<close>\<close>

definition ssl_get :: "nat \<Rightarrow> ssl_world \<Rightarrow> nat option result" where
  "ssl_get x w = (case ssl_ptr w x of None \<Rightarrow> Inl Undefined_Behaviour | Some r \<Rightarrow> Inr r)"

definition ssl_move :: "nat \<Rightarrow> nat \<Rightarrow> ssl_world \<Rightarrow> ssl_world result" where
  "ssl_move x other w =
     (if ssl_ptr w x \<noteq> None then Inl Undefined_Behaviour
      else ebind (ssl_get other w) (\<lambda>r. Inr (w\<lparr>ssl_ptr := (ssl_ptr w)(x \<mapsto> r, other \<mapsto> None)\<rparr>)))"

text \<open>The assignment does not look at what it overwrites.\<close>

definition ssl_assign :: "nat \<Rightarrow> nat \<Rightarrow> ssl_world \<Rightarrow> ssl_world result" where
  "ssl_assign x other w =
     ebind (ssl_get x w) (\<lambda>_. ebind (ssl_get other w) (\<lambda>r.
       Inr (w\<lparr>ssl_ptr := (ssl_ptr w)(x \<mapsto> r, other \<mapsto> None)\<rparr>)))"

text \<open>\<^verbatim>\<open>SSL_free\<close> of a null pointer does nothing.\<close>

definition ssl_destroy :: "nat \<Rightarrow> ssl_world \<Rightarrow> ssl_world result" where
  "ssl_destroy x w =
     ebind (ssl_get x w) (\<lambda>r.
       Inr (w\<lparr>ssl_ptr := (ssl_ptr w)(x := None),
              ssl_freed := ssl_freed w @ (case r of None \<Rightarrow> [] | Some p \<Rightarrow> [p])\<rparr>))"

named_theorems ssl_defs

lemmas [ssl_defs] = ssl_new_def ssl_get_def ssl_move_def ssl_assign_def ssl_destroy_def

datatype ssl_op =
    Ssl_Construct nat "nat option"
  | Ssl_Move nat nat
  | Ssl_Assign nat nat
  | Ssl_Destroy nat

fun ssl_step :: "ssl_op \<Rightarrow> ssl_world \<Rightarrow> ssl_world result" where
  "ssl_step (Ssl_Construct x r) = ssl_new x r"
| "ssl_step (Ssl_Move x other) = ssl_move x other"
| "ssl_step (Ssl_Assign x other) = ssl_assign x other"
| "ssl_step (Ssl_Destroy x) = ssl_destroy x"

fun ssl_made1 :: "ssl_op \<Rightarrow> nat list" where
  "ssl_made1 (Ssl_Construct x (Some p)) = [p]"
| "ssl_made1 _ = []"

definition is_assign :: "ssl_op \<Rightarrow> bool" where
  "is_assign c = (case c of Ssl_Assign _ _ \<Rightarrow> True | _ \<Rightarrow> False)"

text \<open>Every SSL object has at most one owner and no freed one has an owner.\<close>

definition ssl_sole :: "nat list \<Rightarrow> ssl_world \<Rightarrow> bool" where
  "ssl_sole made w \<longleftrightarrow> distinct (ssl_freed w) \<and> set (ssl_freed w) \<subseteq> set made \<and>
     (\<forall>x p. ssl_ptr w x = Some (Some p) \<longrightarrow> p \<in> set made \<and> p \<notin> set (ssl_freed w) \<and>
        (\<forall>y. ssl_ptr w y = Some (Some p) \<longrightarrow> y = x))"

definition ssl_held :: "ssl_world \<Rightarrow> nat set" where
  "ssl_held w = {p. \<exists>x. ssl_ptr w x = Some (Some p)}"

lemma ssl_step_sole:
  assumes "ssl_sole made w" "ssl_step c w = Inr w'" "set (ssl_made1 c) \<inter> set made = {}"
  shows "ssl_sole (made @ ssl_made1 c) w'"
proof (cases c)
  case (Ssl_Construct x r)
  then obtain p where "r = Some p" "ssl_ptr w x = None" "w' = w\<lparr>ssl_ptr := (ssl_ptr w)(x \<mapsto> Some p)\<rparr>"
    using assms(2) by (auto simp: ssl_defs split: if_splits option.splits)
  then show ?thesis using assms(1,3) Ssl_Construct unfolding ssl_sole_def by auto
next
  case (Ssl_Move x other)
  then obtain r where "ssl_ptr w x = None" "ssl_ptr w other = Some r"
    "w' = w\<lparr>ssl_ptr := (ssl_ptr w)(x \<mapsto> r, other \<mapsto> None)\<rparr>"
    using assms(2) by (auto simp: ssl_defs split: if_splits option.splits)
  then show ?thesis using assms(1) Ssl_Move unfolding ssl_sole_def by auto
next
  case (Ssl_Assign x other)
  then obtain r where "ssl_ptr w other = Some r" "w' = w\<lparr>ssl_ptr := (ssl_ptr w)(x \<mapsto> r, other \<mapsto> None)\<rparr>"
    using assms(2) by (auto simp: ssl_defs split: option.splits)
  then show ?thesis using assms(1) Ssl_Assign unfolding ssl_sole_def by auto
next
  case (Ssl_Destroy x)
  then obtain r where "ssl_ptr w x = Some r" "w' = w\<lparr>ssl_ptr := (ssl_ptr w)(x := None),
      ssl_freed := ssl_freed w @ (case r of None \<Rightarrow> [] | Some p \<Rightarrow> [p])\<rparr>"
    using assms(2) by (auto simp: ssl_defs split: option.splits)
  then show ?thesis using assms(1) Ssl_Destroy unfolding ssl_sole_def by (cases r) auto
qed

lemma ssl_step_held:
  assumes "ssl_step c w = Inr w'" "\<not> is_assign c"
  shows "ssl_held w' \<union> set (ssl_freed w') = ssl_held w \<union> set (ssl_freed w) \<union> set (ssl_made1 c)"
proof (cases c)
  case (Ssl_Construct x r)
  then obtain p where p: "r = Some p" "ssl_ptr w x = None" "w' = w\<lparr>ssl_ptr := (ssl_ptr w)(x \<mapsto> Some p)\<rparr>"
    using assms(1) by (auto simp: ssl_defs split: if_splits option.splits)
  have "q \<in> ssl_held w' \<longleftrightarrow> q = p \<or> q \<in> ssl_held w" for q
  proof
    assume "q = p \<or> q \<in> ssl_held w"
    show "q \<in> ssl_held w'"
    proof (cases "q = p")
      case True
      then have "ssl_ptr w' x = Some (Some q)" by (simp add: p(3))
      then show ?thesis unfolding ssl_held_def by blast
    next
      case False
      with \<open>q = p \<or> q \<in> ssl_held w\<close> obtain y where y: "ssl_ptr w y = Some (Some q)" by (auto simp: ssl_held_def)
      then have "y \<noteq> x" using p(2) by auto
      then have "ssl_ptr w' y = Some (Some q)" using y by (simp add: p(3))
      then show ?thesis unfolding ssl_held_def by blast
    qed
  qed (auto simp: p(3) ssl_held_def split: if_splits)
  then show ?thesis using p Ssl_Construct by auto
next
  case (Ssl_Move x other)
  then obtain r where r: "ssl_ptr w x = None" "ssl_ptr w other = Some r"
    "w' = w\<lparr>ssl_ptr := (ssl_ptr w)(x \<mapsto> r, other \<mapsto> None)\<rparr>"
    using assms(1) by (auto simp: ssl_defs split: if_splits option.splits)
  then have "x \<noteq> other" by auto
  have at: "ssl_ptr w' y = (if y = other then Some None else if y = x then Some r else ssl_ptr w y)" for y
    using r(3) by simp
  have "q \<in> ssl_held w' \<longleftrightarrow> q \<in> ssl_held w" for q
  proof
    assume "q \<in> ssl_held w"
    then obtain y where y: "ssl_ptr w y = Some (Some q)" by (auto simp: ssl_held_def)
    have "ssl_ptr w' (if y = other then x else y) = Some (Some q)"
      using y r(1,2) \<open>x \<noteq> other\<close> unfolding at by auto
    then show "q \<in> ssl_held w'" unfolding ssl_held_def by blast
  qed (use r(2) in \<open>auto simp: ssl_held_def at split: if_splits\<close>)
  then have "ssl_held w' = ssl_held w" by blast
  then show ?thesis using r(3) Ssl_Move by simp
next
  case (Ssl_Assign x other)
  then show ?thesis using assms(2) by (simp add: is_assign_def)
next
  case (Ssl_Destroy x)
  then obtain r where r: "ssl_ptr w x = Some r" "w' = w\<lparr>ssl_ptr := (ssl_ptr w)(x := None),
      ssl_freed := ssl_freed w @ (case r of None \<Rightarrow> [] | Some p \<Rightarrow> [p])\<rparr>"
    using assms(1) by (auto simp: ssl_defs split: option.splits)
  have "ssl_held w = ssl_held w' \<union> (case r of None \<Rightarrow> {} | Some p \<Rightarrow> {p})"
  proof -
    have "q \<in> ssl_held w' \<or> r = Some q" if "ssl_ptr w y = Some (Some q)" for q y
    proof (cases "y = x")
      case False
      then have "ssl_ptr w' y = Some (Some q)" using that r(2) by simp
      then show ?thesis unfolding ssl_held_def by blast
    qed (use that r(1) in simp)
    moreover have "q \<in> ssl_held w" if "q \<in> ssl_held w' \<or> r = Some q" for q
      using that r by (auto simp: ssl_held_def split: if_splits)
    ultimately have "q \<in> ssl_held w \<longleftrightarrow> q \<in> ssl_held w' \<or> r = Some q" for q
      unfolding ssl_held_def [of w] by blast
    then show ?thesis by (cases r) auto
  qed
  then show ?thesis using r(2) Ssl_Destroy by (cases r) auto
qed

text \<open>
  Whatever \<^verbatim>\<open>SSLCtx\<close> objects are made, moved, assigned and destroyed in whatever order, no SSL object
  has two owners, none is freed twice, and none that is freed is still owned; when no object was
  assigned to, every SSL object made is owned or freed.
\<close>

theorem ssl_freed_once:
  assumes "efold ssl_step os \<lparr>ssl_ptr = Map.empty, ssl_freed = []\<rparr> = Inr w" "distinct (concat (map ssl_made1 os))"
  shows "distinct (ssl_freed w) \<and> (\<forall>x p. ssl_ptr w x = Some (Some p) \<longrightarrow> p \<notin> set (ssl_freed w) \<and>
      (\<forall>y. ssl_ptr w y = Some (Some p) \<longrightarrow> y = x)) \<and>
    (\<not> list_ex is_assign os \<longrightarrow> ssl_held w \<union> set (ssl_freed w) = set (concat (map ssl_made1 os)))"
proof -
  have "ssl_sole (concat (map ssl_made1 os)) w \<and>
      (\<not> list_ex is_assign os \<longrightarrow> ssl_held w \<union> set (ssl_freed w) = set (concat (map ssl_made1 os)))"
    using assms
  proof (induction os arbitrary: w rule: rev_induct)
    case Nil
    then have "w = \<lparr>ssl_ptr = Map.empty, ssl_freed = []\<rparr>" by simp
    then show ?case by (simp add: ssl_sole_def ssl_held_def)
  next
    case (snoc c os)
    then obtain w1 where w1: "efold ssl_step os \<lparr>ssl_ptr = Map.empty, ssl_freed = []\<rparr> = Inr w1" "ssl_step c w1 = Inr w"
      by (auto simp: ebind_Inr_iff)
    have d: "distinct (concat (map ssl_made1 os))" "set (ssl_made1 c) \<inter> set (concat (map ssl_made1 os)) = {}"
      using snoc.prems(2) by auto
    note IH = snoc.IH [OF w1(1) d(1)]
    show ?case using ssl_step_sole [OF conjunct1 [OF IH] w1(2) d(2)] ssl_step_held [OF w1(2)] IH by auto
  qed
  then show ?thesis unfolding ssl_sole_def by blast
qed

lemma ssl_freed_once_witness:
  "\<exists>w. efold ssl_step [Ssl_Construct 0 (Some 7), Ssl_Move 1 0, Ssl_Destroy 0, Ssl_Destroy 1] \<lparr>ssl_ptr = Map.empty, ssl_freed = []\<rparr> = Inr w \<and>
    distinct (ssl_freed w) \<and> ssl_held w \<union> set (ssl_freed w) = {7}"
proof -
  let ?os = "[Ssl_Construct 0 (Some 7), Ssl_Move 1 0, Ssl_Destroy 0, Ssl_Destroy 1]"
  have "\<exists>w. efold ssl_step ?os \<lparr>ssl_ptr = Map.empty, ssl_freed = []\<rparr> = Inr w" by (simp add: ssl_defs)
  then obtain w where w: "efold ssl_step ?os \<lparr>ssl_ptr = Map.empty, ssl_freed = []\<rparr> = Inr w" by blast
  have "distinct (concat (map ssl_made1 ?os))" by simp
  from ssl_freed_once [OF w this] w show ?thesis by (auto simp: is_assign_def)
qed

text \<open>An SSL object that is assigned over is neither owned nor freed any more.\<close>

lemma ssl_assign_leaks:
  assumes "ssl_sole made w" "ssl_ptr w x = Some (Some p)" "x \<noteq> other" "ssl_assign x other w = Inr w'"
  shows "p \<notin> ssl_held w' \<and> p \<notin> set (ssl_freed w')"
  using assms by (auto simp: ssl_defs ssl_sole_def ssl_held_def split: option.splits if_splits)

section \<open>The other callback and the accessor\<close>

text \<open>The control callback of the BIO: only a flush succeeds (\<^verbatim>\<open>BIO_CTRL_FLUSH\<close>).\<close>

definition osslcb_ctrl :: "int \<Rightarrow> int" where
  "osslcb_ctrl cmd = (if cmd = 11 then 1 else 0)"

text \<open>\<^verbatim>\<open>get_e_read\<close>, through which \<^verbatim>\<open>osslcb_read\<close> reaches the block.\<close>

definition get_e_read :: "'ssl tls \<Rightarrow> u64 \<times> nat" where
  "get_e_read s = (e_read_s s, e_read s)"

lemma osslcb_read_empty: "fst (get_e_read s) = 0 \<longleftrightarrow> fst (osslcb_read len s) = None"
  by (simp add: get_e_read_def osslcb_read_def Let_def)

section \<open>The sockets of a thread\<close>

text \<open>
  The SSL objects, the thread's allocator \<^verbatim>\<open>alloc\<close>, \<^verbatim>\<open>e_read_\<close> and \<^verbatim>\<open>e_write_\<close> of every \<^verbatim>\<open>TLSSocket\<close> alive (the
  \<^verbatim>\<open>SSLCtx\<close> member of socket \<open>x\<close> is the object \<open>x\<close>) and the number of BIO methods in existence.
\<close>

record tls_store =
  ts_ssl :: ssl_world
  ts_alloc :: allocator
  ts_blocks :: "nat \<rightharpoonup> nat \<times> nat"
  ts_methods :: nat

text \<open>\<^verbatim>\<open>openssl_setup\<close>, as far as it makes something: nothing calls \<^verbatim>\<open>BIO_meth_free\<close>.\<close>

definition make_bio_method :: "tls_store \<Rightarrow> tls_store" where
  "make_bio_method w = w\<lparr>ts_methods := Suc (ts_methods w)\<rparr>"

text \<open>The constructor: member \<^verbatim>\<open>ssl_\<close>, then the body.  \<open>mm\<close> and \<open>mm'\<close> are the addresses \<^verbatim>\<open>mmap\<close> would return.\<close>

definition tls_construct ::
  "nat \<Rightarrow> nat option \<Rightarrow> nat \<Rightarrow> nat \<Rightarrow> tls_store \<Rightarrow> tls_store run"
where
  "tls_construct x r mm mm' w =
     rbind (Some (ssl_new x r (ts_ssl w))) (\<lambda>sw.
       let w1 = make_bio_method (w\<lparr>ts_ssl := sw\<rparr>) in
       case bmalloc mm (ts_alloc w1) 1 of
         None \<Rightarrow> None
       | Some (p, a1) \<Rightarrow>
           (case bmalloc mm' a1 1 of
              None \<Rightarrow> None
            | Some (q, a2) \<Rightarrow> Some (Inr (w1\<lparr>ts_alloc := a2, ts_blocks := (ts_blocks w1)(x \<mapsto> (p, q))\<rparr>))))"

text \<open>The destructor: its body, then the destructor of the member.\<close>

definition tls_destroy :: "nat \<Rightarrow> tls_store \<Rightarrow> tls_store run" where
  "tls_destroy x w =
     (case ts_blocks w x of
        None \<Rightarrow> Some (Inl Undefined_Behaviour)
      | Some (p, q) \<Rightarrow>
          (case bfree (ts_alloc w) p of
             None \<Rightarrow> None
           | Some a1 \<Rightarrow>
               (case bfree a1 q of
                  None \<Rightarrow> None
                | Some a2 \<Rightarrow>
                    rbind (Some (ssl_destroy x (ts_ssl w))) (\<lambda>sw.
                      Some (Inr (w\<lparr>ts_ssl := sw, ts_alloc := a2, ts_blocks := (ts_blocks w)(x := None)\<rparr>))))))"

text \<open>The histories of a thread: sockets are made (with a new SSL object, and memory from \<^verbatim>\<open>mmap\<close> that was
  not mapped) and destroyed in any order.\<close>

definition init_store :: "nat \<Rightarrow> tls_store" where
  "init_store mm = \<lparr>ts_ssl = \<lparr>ssl_ptr = Map.empty, ssl_freed = []\<rparr>, ts_alloc = init_allocator mm, ts_blocks = Map.empty, ts_methods = 0\<rparr>"

inductive tls_history :: "nat \<Rightarrow> nat list \<Rightarrow> tls_store \<Rightarrow> bool" for mm0 where
  start: "tls_history mm0 [] (init_store mm0)"
| made: "tls_history mm0 ps w \<Longrightarrow> ts_blocks w x = None \<Longrightarrow> p \<notin> set ps \<Longrightarrow> mmap_ready (ts_alloc w) mm 1 \<Longrightarrow>
    (\<And>a b. bmalloc mm (ts_alloc w) 1 = Some (b, a) \<Longrightarrow> mmap_ready a mm' 1) \<Longrightarrow>
    tls_construct x (Some p) mm mm' w = Some (Inr w') \<Longrightarrow> tls_history mm0 (ps @ [p]) w'"
| destroyed: "tls_history mm0 ps w \<Longrightarrow> tls_destroy x w = Some (Inr w') \<Longrightarrow> tls_history mm0 ps w'"

definition own_blocks :: "tls_store \<Rightarrow> nat \<Rightarrow> nat set" where
  "own_blocks w x = (case ts_blocks w x of None \<Rightarrow> {} | Some (p, q) \<Rightarrow> {p, q})"

text \<open>The invariant: the blocks in use are those of the sockets, two each and none shared; each socket
  holds an SSL object, and every SSL object made is held or freed.\<close>

definition store_inv :: "nat list \<Rightarrow> tls_store \<Rightarrow> bool" where
  "store_inv ps w \<longleftrightarrow> alloc_inv (ts_alloc w) \<and>
     live (abs_of (ts_alloc w)) = {(a, 1) | a x. a \<in> own_blocks w x} \<and>
     (\<forall>x p q. ts_blocks w x = Some (p, q) \<longrightarrow> p \<noteq> q) \<and>
     (\<forall>x y. x \<noteq> y \<longrightarrow> own_blocks w x \<inter> own_blocks w y = {}) \<and>
     ssl_sole ps (ts_ssl w) \<and> ssl_held (ts_ssl w) \<union> set (ssl_freed (ts_ssl w)) = set ps \<and>
     (\<forall>x. (ts_blocks w x \<noteq> None) = (\<exists>p. ssl_ptr (ts_ssl w) x = Some (Some p))) \<and>
     dom (ts_blocks w) = dom (ssl_ptr (ts_ssl w)) \<and> ts_methods w = length ps"

lemma not_overlap_neq: "\<not> overlap (p, 1) (q, 1) \<Longrightarrow> p \<noteq> q"
  by (auto simp: overlap_def arena_consts)

lemma tls_construct_ok:
  assumes "store_inv ps w" "ts_blocks w x = None" "p \<notin> set ps" "mmap_ready (ts_alloc w) mm 1"
    and "\<And>a b. bmalloc mm (ts_alloc w) 1 = Some (b, a) \<Longrightarrow> mmap_ready a mm' 1"
  shows "\<exists>w'. tls_construct x (Some p) mm mm' w = Some (Inr w') \<and> store_inv (ps @ [p]) w'"
proof -
  note inv = assms(1) [unfolded store_inv_def]
  obtain b a1 where b: "bmalloc mm (ts_alloc w) 1 = Some (b, a1)" "alloc_inv a1"
    "live (abs_of a1) = insert (b, 1) (live (abs_of (ts_alloc w)))" "\<forall>r \<in> live (abs_of (ts_alloc w)). \<not> overlap (b, 1) r"
    using blocks.take_ok [of "ts_alloc w" 1 mm] inv assms(4) by auto
  obtain c a2 where c: "bmalloc mm' a1 1 = Some (c, a2)" "alloc_inv a2"
    "live (abs_of a2) = insert (c, 1) (live (abs_of a1))" "\<forall>r \<in> live (abs_of a1). \<not> overlap (c, 1) r"
    using blocks.take_ok [of a1 1 mm'] b(2) assms(5) [OF b(1)] by auto
  have lw: "(a, 1) \<in> live (abs_of (ts_alloc w))" if "a \<in> own_blocks w y" for a y using inv that by auto
  have "(b, 1) \<notin> live (abs_of (ts_alloc w))" using b(4) not_overlap_neq [of b b] by auto
  moreover have "(c, 1) \<notin> live (abs_of a1)" using c(4) not_overlap_neq [of c c] by auto
  ultimately have fresh: "b \<notin> own_blocks w y" "c \<notin> own_blocks w y" "c \<noteq> b" for y
    using lw b(3) by auto
  have nx: "ssl_ptr (ts_ssl w) x = None" using inv assms(2) by (metis domIff)
  let ?sw = "(ts_ssl w)\<lparr>ssl_ptr := (ssl_ptr (ts_ssl w))(x \<mapsto> Some p)\<rparr>"
  let ?w = "w\<lparr>ts_ssl := ?sw, ts_alloc := a2, ts_blocks := (ts_blocks w)(x \<mapsto> (b, c)), ts_methods := Suc (ts_methods w)\<rparr>"
  have s: "ssl_step (Ssl_Construct x (Some p)) (ts_ssl w) = Inr ?sw" using nx by (simp add: ssl_new_def)
  have w': "tls_construct x (Some p) mm mm' w = Some (Inr ?w)"
    using nx b(1) c(1) by (simp add: tls_construct_def ssl_new_def make_bio_method_def)
  have own: "own_blocks ?w y = (if y = x then {b, c} else own_blocks w y)" for y by (simp add: own_blocks_def)
  have ox: "own_blocks w x = {}" using assms(2) by (simp add: own_blocks_def)
  have "store_inv (ps @ [p]) ?w"
    unfolding store_inv_def
  proof (intro conjI)
    show "alloc_inv (ts_alloc ?w)" using c(2) by simp
    have lv: "live (abs_of a2) = {(b, 1), (c, 1)} \<union> {(a, 1) | a x. a \<in> own_blocks w x}" using b(3) c(3) inv by auto
    have "z \<in> live (abs_of a2) \<longleftrightarrow> z \<in> {(a, 1) | a x. a \<in> own_blocks ?w x}" for z
    proof
      assume "z \<in> live (abs_of a2)"
      then consider "z = (b, 1) \<or> z = (c, 1)" | a y where "z = (a, 1)" "a \<in> own_blocks w y" unfolding lv by auto
      then show "z \<in> {(a, 1) | a x. a \<in> own_blocks ?w x}"
      proof cases
        case 2
        then have "a \<in> own_blocks ?w y" unfolding own using ox by auto
        then show ?thesis using 2(1) by blast
      qed (use own [of x] in auto)
    qed (auto simp: lv own split: if_splits)
    then show "live (abs_of (ts_alloc ?w)) = {(a, 1) | a x. a \<in> own_blocks ?w x}" by auto
    show "\<forall>y p q. ts_blocks ?w y = Some (p, q) \<longrightarrow> p \<noteq> q" using inv fresh(3) by auto
    show "\<forall>y z. y \<noteq> z \<longrightarrow> own_blocks ?w y \<inter> own_blocks ?w z = {}" unfolding own using fresh inv by auto
    show "ssl_sole (ps @ [p]) (ts_ssl ?w)" using ssl_step_sole [OF _ s] inv assms(3) by simp
    show "ssl_held (ts_ssl ?w) \<union> set (ssl_freed (ts_ssl ?w)) = set (ps @ [p])"
      using ssl_step_held [OF s] inv by (simp add: is_assign_def)
    show "\<forall>y. (ts_blocks ?w y \<noteq> None) = (\<exists>p. ssl_ptr (ts_ssl ?w) y = Some (Some p))" using inv by simp
    show "dom (ts_blocks ?w) = dom (ssl_ptr (ts_ssl ?w))" using inv by simp
    show "ts_methods ?w = length (ps @ [p])" using inv by simp
  qed
  then show ?thesis using w' by blast
qed

lemma tls_destroy_ok:
  assumes "store_inv ps w" "ts_blocks w x \<noteq> None"
  shows "\<exists>w'. tls_destroy x w = Some (Inr w') \<and> store_inv ps w'"
proof -
  note inv = assms(1) [unfolded store_inv_def]
  obtain b c where bc0: "ts_blocks w x = Some (b, c)" using assms(2) by (cases "ts_blocks w x") auto
  then have bc: "ts_blocks w x = Some (b, c)" "b \<noteq> c" using inv by blast+
  have own: "own_blocks w x = {b, c}" using bc(1) by (simp add: own_blocks_def)
  have lv: "(b, 1) \<in> live (abs_of (ts_alloc w))" "(c, 1) \<in> live (abs_of (ts_alloc w))" using inv own by auto
  obtain a1 where a1: "bfree (ts_alloc w) b = Some a1" "alloc_inv a1" "live (abs_of a1) = live (abs_of (ts_alloc w)) - {(b, 1)}"
    using blocks.give_ok [OF _ lv(1)] inv by auto
  have "(c, 1) \<in> live (abs_of a1)" using lv(2) a1(3) bc(2) by simp
  then obtain a2 where a2: "bfree a1 c = Some a2" "alloc_inv a2" "live (abs_of a2) = live (abs_of a1) - {(c, 1)}"
    using blocks.give_ok [OF a1(2)] by meson
  obtain p where p: "ssl_ptr (ts_ssl w) x = Some (Some p)" using inv assms(2) by blast
  let ?sw = "(ts_ssl w)\<lparr>ssl_ptr := (ssl_ptr (ts_ssl w))(x := None), ssl_freed := ssl_freed (ts_ssl w) @ [p]\<rparr>"
  let ?w = "w\<lparr>ts_ssl := ?sw, ts_alloc := a2, ts_blocks := (ts_blocks w)(x := None)\<rparr>"
  have s: "ssl_step (Ssl_Destroy x) (ts_ssl w) = Inr ?sw" using p by (simp add: ssl_defs)
  have w': "tls_destroy x w = Some (Inr ?w)"
    using p bc(1) a1(1) a2(1) by (simp add: tls_destroy_def ssl_defs)
  have ow: "own_blocks ?w y = (if y = x then {} else own_blocks w y)" for y by (simp add: own_blocks_def)
  have "store_inv ps ?w"
    unfolding store_inv_def
  proof (intro conjI)
    show "alloc_inv (ts_alloc ?w)" using a2(2) by simp
    have sep: "a \<notin> {b, c}" if "y \<noteq> x" "a \<in> own_blocks w y" for a y
    proof -
      have "own_blocks w y \<inter> own_blocks w x = {}" using inv that(1) by simp
      then show ?thesis using that(2) own by auto
    qed
    have lw: "live (abs_of (ts_alloc w)) = {(a, 1) | a x. a \<in> own_blocks w x}" using inv by blast
    have lv': "live (abs_of a2) = live (abs_of (ts_alloc w)) - {(b, 1), (c, 1)}" using a1(3) a2(3) by auto
    have "z \<in> live (abs_of a2) \<longleftrightarrow> z \<in> {(a, 1) | a x. a \<in> own_blocks ?w x}" for z
    proof
      assume "z \<in> live (abs_of a2)"
      then obtain a y where "z = (a, 1)" "a \<in> own_blocks w y" "a \<notin> {b, c}" unfolding lv' lw by auto
      moreover from this have "y \<noteq> x" using own by auto
      ultimately show "z \<in> {(a, 1) | a x. a \<in> own_blocks ?w x}" unfolding ow by auto
    next
      assume "z \<in> {(a, 1) | a x. a \<in> own_blocks ?w x}"
      then obtain a y where "z = (a, 1)" "y \<noteq> x" "a \<in> own_blocks w y" unfolding ow by (auto split: if_splits)
      with sep [of y a] show "z \<in> live (abs_of a2)" unfolding lv' lw by auto
    qed
    then show "live (abs_of (ts_alloc ?w)) = {(a, 1) | a x. a \<in> own_blocks ?w x}" by auto
    show "\<forall>y p q. ts_blocks ?w y = Some (p, q) \<longrightarrow> p \<noteq> q" using inv by simp
    show "\<forall>y z. y \<noteq> z \<longrightarrow> own_blocks ?w y \<inter> own_blocks ?w z = {}" unfolding ow using inv by auto
    show "ssl_sole ps (ts_ssl ?w)" using ssl_step_sole [OF _ s] inv by simp
    show "ssl_held (ts_ssl ?w) \<union> set (ssl_freed (ts_ssl ?w)) = set ps"
      using ssl_step_held [OF s] inv by (simp add: is_assign_def)
    show "\<forall>y. (ts_blocks ?w y \<noteq> None) = (\<exists>p. ssl_ptr (ts_ssl ?w) y = Some (Some p))" using inv by simp
    show "dom (ts_blocks ?w) = dom (ssl_ptr (ts_ssl ?w))" using inv by auto
    show "ts_methods ?w = length ps" using inv by simp
  qed
  then show ?thesis using w' by blast
qed

lemma store_inv_start: "store_inv [] (init_store mm)"
  by (simp add: store_inv_def init_store_def own_blocks_def ssl_sole_def ssl_held_def live_def)

lemma tls_history_inv: "tls_history mm0 ps w \<Longrightarrow> store_inv ps w"
proof (induction rule: tls_history.induct)
  case start
  then show ?case by (rule store_inv_start)
next
  case (made ps w x p mm mm' w')
  from tls_construct_ok [OF made.IH made.hyps(2-5)] made.hyps(6) show ?case by auto
next
  case (destroyed ps w x w')
  have "ts_blocks w x \<noteq> None" using destroyed.hyps(2)
    by (cases "ts_blocks w x") (simp_all add: tls_destroy_def)
  from tls_destroy_ok [OF destroyed.IH this] destroyed.hyps(2) show ?case by auto
qed

text \<open>
  C16: After any history of TLS sockets on a thread, the blocks in use of its allocator are exactly the
  two of each socket alive; destroying a socket always returns, and when no socket is left every
  block and every SSL object has been given back, but one BIO method remains for every socket there
  ever was.
\<close>

theorem sockets_give_back:
  assumes "tls_history mm0 ps w"
  shows "live (abs_of (ts_alloc w)) = {(a, 1) | a x. a \<in> own_blocks w x} \<and>
    (\<forall>x. ts_blocks w x \<noteq> None \<longrightarrow> (\<exists>w'. tls_destroy x w = Some (Inr w'))) \<and>
    (ts_blocks w = Map.empty \<longrightarrow> live (abs_of (ts_alloc w)) = {} \<and> set (ssl_freed (ts_ssl w)) = set ps) \<and>
    distinct (ssl_freed (ts_ssl w)) \<and> ts_methods w = length ps"
proof -
  have inv: "store_inv ps w" by (rule tls_history_inv [OF assms])
  note i = inv [unfolded store_inv_def]
  have "live (abs_of (ts_alloc w)) = {} \<and> set (ssl_freed (ts_ssl w)) = set ps" if "ts_blocks w = Map.empty"
  proof -
    have "own_blocks w x = {}" for x using that by (simp add: own_blocks_def)
    moreover have "dom (ssl_ptr (ts_ssl w)) = {}" using i that by (metis dom_empty)
    then have "ssl_ptr (ts_ssl w) = Map.empty" by simp
    then have "ssl_held (ts_ssl w) = {}" by (simp add: ssl_held_def)
    ultimately show ?thesis using i by simp
  qed
  moreover have "\<exists>w'. tls_destroy x w = Some (Inr w')" if "ts_blocks w x \<noteq> None" for x
    using tls_destroy_ok [OF inv that] by blast
  ultimately show ?thesis using i by (simp add: ssl_sole_def)
qed

lemma sockets_give_back_witness:
  "\<exists>w. tls_history 1048576 [7] w \<and> ts_blocks w = Map.empty \<and> live (abs_of (ts_alloc w)) = {} \<and>
    set (ssl_freed (ts_ssl w)) = {7} \<and> ts_methods w = 1"
proof -
  let ?w = "init_store 1048576"
  have r: "mmap_ready (ts_alloc ?w) 2097152 1" by (simp add: init_store_def overlap_def arena_consts)
  have a: "ts_alloc ?w = init_allocator 1048576" by (simp add: init_store_def)
  have r2: "mmap_ready a 2097152 1" if "bmalloc 2097152 (ts_alloc ?w) 1 = Some (b, a)" for a b
  proof -
    have "alloc_inv (ts_alloc ?w)" by (simp add: a)
    from bmalloc_abs [OF this _ r] that have "abs_of a = snd (abs_bmalloc 2097152 1 (abs_of (ts_alloc ?w)))" by auto
    then show ?thesis
      by (simp add: a mmap_ready_def mmap_fresh_def mapped_def abs_bmalloc_def carve_seg_def overlap_def arena_consts)
  qed
  have e: "ts_blocks ?w 3 = None" by (simp add: init_store_def)
  have "\<exists>w1. tls_construct 3 (Some 7) 2097152 2097152 ?w = Some (Inr w1) \<and> store_inv ([] @ [7]) w1"
    by (rule tls_construct_ok [OF store_inv_start e _ r]) (simp, erule r2)
  then obtain w1 where w1: "tls_construct 3 (Some 7) 2097152 2097152 ?w = Some (Inr w1)" by blast
  then have h: "tls_history 1048576 ([] @ [7]) w1"
    by - (rule tls_history.made [OF tls_history.start e _ r _ w1], simp, erule r2)
  have b: "ts_blocks w1 3 \<noteq> None" "ts_blocks w1 = (ts_blocks ?w)(3 := ts_blocks w1 3)"
    using w1 by (auto simp: tls_construct_def ssl_new_def make_bio_method_def Let_def rbind_def split: option.splits sum.splits if_splits)
  obtain w2 where w2: "tls_destroy 3 w1 = Some (Inr w2)" using tls_destroy_ok [OF tls_history_inv [OF h] b(1)] by blast
  have "ts_blocks w2 = (ts_blocks w1)(3 := None)"
    using w2 by (auto simp: tls_destroy_def rbind_def split: option.splits sum.splits)
  also have "\<dots> = Map.empty" by (subst b(2)) (auto simp: init_store_def)
  finally have "ts_blocks w2 = Map.empty" .
  moreover from tls_history.destroyed [OF h w2] have h2: "tls_history 1048576 [7] w2" by simp
  ultimately show ?thesis using sockets_give_back [OF h2] by auto
qed

end
