(* ===== verification/File_Handle.thy ===== *)
theory File_Handle
  imports Prelude
begin

text \<open>
  \<^verbatim>\<open>File\<close> (\<^verbatim>\<open>src/common/file.{h,cpp}\<close>): the move-only owner of a descriptor.  The state holds the
  descriptor of every live object and the descriptors closed so far, in order; using an object that
  is not alive is undefined.
\<close>

section \<open>Model\<close>

record fd_world =
  fd_of :: "nat \<rightharpoonup> int"
  closed :: "int list"

definition close_fd :: "int \<Rightarrow> fd_world \<Rightarrow> fd_world" where
  "close_fd fd w = w\<lparr>closed := closed w @ [fd]\<rparr>"

text \<open>A new object lives in storage no live object occupies.\<close>

definition file_new :: "nat \<Rightarrow> int \<Rightarrow> fd_world \<Rightarrow> fd_world result" where
  "file_new x fd w =
     (if fd_of w x = None then Inr (w\<lparr>fd_of := (fd_of w)(x \<mapsto> fd)\<rparr>) else Inl Undefined_Behaviour)"

definition file_get :: "nat \<Rightarrow> fd_world \<Rightarrow> int result" where
  "file_get x w = (case fd_of w x of None \<Rightarrow> Inl Undefined_Behaviour | Some fd \<Rightarrow> Inr fd)"

definition file_destroy :: "nat \<Rightarrow> fd_world \<Rightarrow> fd_world result" where
  "file_destroy x w =
     ebind (file_get x w) (\<lambda>fd.
       let w' = (if fd \<noteq> - 1 then close_fd fd w else w) in Inr (w'\<lparr>fd_of := (fd_of w')(x := None)\<rparr>))"

text \<open>\<^verbatim>\<open>File(File&& other)\<close>\<close>

definition file_move :: "nat \<Rightarrow> nat \<Rightarrow> fd_world \<Rightarrow> fd_world result" where
  "file_move x other w =
     ebind (file_get other w) (\<lambda>fd.
     ebind (file_new x fd w) (\<lambda>w'. Inr (w'\<lparr>fd_of := (fd_of w')(other \<mapsto> - 1)\<rparr>)))"

definition file_assign :: "nat \<Rightarrow> nat \<Rightarrow> fd_world \<Rightarrow> fd_world result" where
  "file_assign x other w =
     ebind (file_get x w) (\<lambda>fd. ebind (file_get other w) (\<lambda>fd'.
       if x = other then Inr w
       else let w' = (if fd \<noteq> - 1 then close_fd fd w else w)
            in Inr (w'\<lparr>fd_of := (fd_of w')(x \<mapsto> fd', other \<mapsto> - 1)\<rparr>)))"

section \<open>Histories\<close>

datatype file_op =
    Construct nat int
  | Destroy nat
  | Move_Construct nat nat
  | Move_Assign nat nat

fun file_step :: "file_op \<Rightarrow> fd_world \<Rightarrow> fd_world result" where
  "file_step (Construct x fd) = file_new x fd"
| "file_step (Destroy x) = file_destroy x"
| "file_step (Move_Construct x other) = file_move x other"
| "file_step (Move_Assign x other) = file_assign x other"

fun opened :: "file_op list \<Rightarrow> int list" where
  "opened [] = []"
| "opened (Construct x fd # os) = fd # opened os"
| "opened (_ # os) = opened os"

lemma opened_append [simp]: "opened (xs @ ys) = opened xs @ opened ys"
  by (induction xs rule: opened.induct) auto

text \<open>Each opened descriptor has one owner or was closed, once; nothing else has an owner.\<close>

definition owner :: "fd_world \<Rightarrow> nat \<Rightarrow> int \<Rightarrow> bool" where
  "owner w x fd \<longleftrightarrow> fd_of w x = Some fd \<and> fd \<noteq> - 1"

definition held :: "fd_world \<Rightarrow> int \<Rightarrow> bool" where
  "held w fd \<longleftrightarrow> (\<exists>x. owner w x fd)"

definition owned :: "int list \<Rightarrow> fd_world \<Rightarrow> bool" where
  "owned fds w \<longleftrightarrow> distinct (closed w) \<and> - 1 \<notin> set (closed w) \<and>
     (\<forall>x y fd. owner w x fd \<and> owner w y fd \<longrightarrow> x = y) \<and>
     (\<forall>fd. held w fd \<longrightarrow> fd \<in> set fds \<and> fd \<notin> set (closed w)) \<and>
     (\<forall>fd \<in> set fds. fd \<noteq> - 1 \<longrightarrow> fd \<in> set (closed w) \<or> held w fd) \<and> set (closed w) \<subseteq> set fds"

named_theorems fd_defs

lemmas [fd_defs] = file_new_def file_get_def file_destroy_def file_move_def file_assign_def close_fd_def

lemma owned_new:
  assumes "owned fds w" "fd \<notin> set fds" "file_new x fd w = Inr w'"
  shows "owned (fds @ [fd]) w'"
proof -
  have w': "w' = w\<lparr>fd_of := (fd_of w)(x \<mapsto> fd)\<rparr>" "fd_of w x = None"
    using assms(3) by (auto simp: file_new_def split: if_splits)
  have ow: "owner w' y f \<longleftrightarrow> (if y = x then f = fd \<and> fd \<noteq> - 1 else owner w y f)" for y f
    by (auto simp: owner_def w')
  have x: "\<not> owner w x f" for f using w'(2) by (simp add: owner_def)
  have h: "held w' f \<longleftrightarrow> f = fd \<and> fd \<noteq> - 1 \<or> held w f" for f
    unfolding held_def ow using x by metis
  have "y = z" if "owner w' y f" "owner w' z f" for y z f
    using that assms(1,2) x unfolding ow owned_def held_def by (metis (no_types, lifting))
  then show ?thesis
    using assms(1,2) unfolding owned_def h by (auto simp: w'(1))
qed

lemma owned_destroy:
  assumes "owned fds w" "file_destroy x w = Inr w'"
  shows "owned fds w'"
proof -
  obtain fd where fd: "fd_of w x = Some fd"
    "w' = (if fd \<noteq> - 1 then close_fd fd w else w)\<lparr>fd_of := (fd_of w)(x := None)\<rparr>"
    using assms(2) by (auto simp: fd_defs Let_def split: option.splits if_splits)
  have ow: "owner w' y f \<longleftrightarrow> y \<noteq> x \<and> owner w y f" for y f
    by (auto simp: owner_def fd(2))
  have x: "owner w x f \<longleftrightarrow> f = fd \<and> fd \<noteq> - 1" for f using fd(1) by (auto simp: owner_def)
  have cl: "closed w' = (if fd \<noteq> - 1 then closed w @ [fd] else closed w)" by (simp add: fd(2) close_fd_def)
  have h: "held w' f \<longleftrightarrow> held w f \<and> \<not> owner w x f" for f
    using assms(1) unfolding held_def ow owned_def by metis
  have "y = z" if "owner w' y f" "owner w' z f" for y z f
    using that assms(1) unfolding ow owned_def by blast
  moreover have "held w fd" if "fd \<noteq> - 1" using x that by (auto simp: held_def)
  ultimately show ?thesis
    using assms(1) unfolding owned_def h x cl by auto
qed

text \<open>Taking over a descriptor: the old owner gives it up, the new one held none.\<close>

lemma owned_transfer:
  assumes "owned fds w" "fd_of w other = Some fd" "x \<noteq> other" "\<forall>f. \<not> owner w x f"
  shows "owned fds (w\<lparr>fd_of := (fd_of w)(x \<mapsto> fd, other \<mapsto> - 1)\<rparr>)"
proof -
  let ?w = "w\<lparr>fd_of := (fd_of w)(x \<mapsto> fd, other \<mapsto> - 1)\<rparr>"
  have ow: "owner ?w y f \<longleftrightarrow> y \<noteq> other \<and> owner w (if y = x then other else y) f" for y f
    using assms(2,3) by (auto simp: owner_def)
  have h: "held ?w f \<longleftrightarrow> held w f" for f
    unfolding held_def ow using assms(3,4) by metis
  have "y = z" if "owner ?w y f" "owner ?w z f" for y z f
  proof -
    have "(if y = x then other else y) = (if z = x then other else z)"
      using that assms(1) unfolding ow owned_def by blast
    then show ?thesis using that unfolding ow by (auto split: if_splits)
  qed
  then show ?thesis
    using assms(1) unfolding owned_def h by auto
qed

lemma owned_step:
  assumes "owned fds w" "file_step a w = Inr w'" "\<And>x fd. a = Construct x fd \<Longrightarrow> fd \<notin> set fds"
  shows "owned (fds @ opened [a]) w'"
proof (cases a)
  case (Construct x fd)
  then show ?thesis using assms owned_new [of fds w fd x w'] by simp
next
  case (Destroy x)
  then show ?thesis using assms owned_destroy by simp
next
  case (Move_Construct x other)
  then obtain fd where "fd_of w other = Some fd" "fd_of w x = None"
    "w' = w\<lparr>fd_of := (fd_of w)(x \<mapsto> fd, other \<mapsto> - 1)\<rparr>"
    using assms(2) by (auto simp: fd_defs split: option.splits if_splits)
  moreover from this have "x \<noteq> other" by auto
  ultimately show ?thesis using owned_transfer [OF assms(1), of other fd x] Move_Construct by (auto simp: owner_def)
next
  case (Move_Assign x other)
  show ?thesis
  proof (cases "x = other")
    case True
    then show ?thesis using assms Move_Assign by (auto simp: fd_defs split: option.splits)
  next
    case False
    obtain fd fd' where fds: "fd_of w x = Some fd" "fd_of w other = Some fd'"
      using assms(2) Move_Assign by (auto simp: fd_defs split: option.splits)
    let ?w1 = "if fd \<noteq> - 1 then close_fd fd w else w"
    obtain w2 where w2: "file_destroy x w = Inr w2" "w2 = ?w1\<lparr>fd_of := (fd_of w)(x := None)\<rparr>"
      using fds by (auto simp: fd_defs Let_def)
    have "w' = w2\<lparr>fd_of := (fd_of w2)(x \<mapsto> fd', other \<mapsto> - 1)\<rparr>"
      using assms(2) Move_Assign False fds by (auto simp: fd_defs Let_def w2(2) fun_upd_twist split: if_splits)
    then show ?thesis
      using owned_transfer [OF owned_destroy [OF assms(1) w2(1)], of other fd' x] fds False w2(2) Move_Assign
      by (simp add: owner_def)
  qed
qed

text \<open>
  C35: Whatever sequence of constructions, moves, assignments and destructions of \<^verbatim>\<open>File\<close>
  objects a program runs on freshly opened descriptors, no descriptor is ever closed twice or while
  it has an owner, and when no object owns it any more it has been closed.
\<close>

theorem descriptors_closed_once:
  assumes "efold file_step os \<lparr>fd_of = Map.empty, closed = []\<rparr> = Inr w"
    and "distinct (opened os)" "fd \<in> set (opened os)" "fd \<noteq> - 1"
  shows "distinct (closed w) \<and> (fd \<in> set (closed w) \<longleftrightarrow> (\<nexists>x. fd_of w x = Some fd)) \<and>
    (\<forall>x y. fd_of w x = Some fd \<longrightarrow> fd_of w y = Some fd \<longrightarrow> x = y)"
proof -
  have "owned (opened os) w"
    using assms(1,2)
  proof (induction os arbitrary: w rule: rev_induct)
    case Nil
    then show ?case by (auto simp: owned_def owner_def held_def)
  next
    case (snoc a os)
    then obtain v where v: "efold file_step os \<lparr>fd_of = Map.empty, closed = []\<rparr> = Inr v" "file_step a v = Inr w"
      by (auto simp: ebind_Inr_iff)
    have "owned (opened os) v" using snoc v(1) by simp
    moreover have "fd \<notin> set (opened os)" if "a = Construct x fd" for x fd using snoc.prems(2) that by simp
    ultimately show ?case using owned_step [OF _ v(2)] by (metis opened_append)
  qed
  then show ?thesis using assms(3,4) unfolding owned_def owner_def held_def by blast
qed

lemma descriptors_closed_once_witness:
  "\<exists>w. efold file_step [Construct 0 7, Construct 1 8, Move_Construct 2 0, Move_Assign 2 1, Destroy 0, Destroy 2]
      \<lparr>fd_of = Map.empty, closed = []\<rparr> = Inr w \<and> closed w = [7, 8] \<and> (\<nexists>x. fd_of w x = Some 7)"
proof -
  let ?os = "[Construct 0 7, Construct 1 8, Move_Construct 2 0, Move_Assign 2 1, Destroy 0, Destroy 2]"
  obtain w where w: "efold file_step ?os \<lparr>fd_of = Map.empty, closed = []\<rparr> = Inr w" "closed w = [7, 8]"
    by (simp add: fd_defs)
  moreover have "distinct (opened ?os)" "7 \<in> set (opened ?os)" "7 \<noteq> (- 1 :: int)" by simp_all
  ultimately show ?thesis using descriptors_closed_once [OF w(1)] by auto
qed

end
