(* ===== verification/Workers.thy ===== *)
theory Workers
  imports Prelude
begin

text \<open>
  \<^verbatim>\<open>AsyncHandler::start\<close> (\<^verbatim>\<open>src/common/async_handler.cpp\<close>) and the vector \<^verbatim>\<open>private_per_thread_data\<close> whose
  elements it gives to the threads by address.  The constructor has filled the vector with one element
  per thread; \<^verbatim>\<open>start\<close> appends another one in every turn and starts the next thread on the element of
  the constructor.  A pointer into a vector is valid as long as the vector keeps its storage: the
  model numbers the storages and grows the way the standard library of the build does, by doubling.
\<close>

section \<open>Model\<close>

record vec =
  vec_store :: nat
  vec_cap :: nat
  vec_size :: nat

definition empty_vec :: vec where
  "empty_vec = \<lparr>vec_store = 0, vec_cap = 0, vec_size = 0\<rparr>"

definition emplace_back :: "vec \<Rightarrow> vec" where
  "emplace_back v =
     (if vec_size v < vec_cap v then v\<lparr>vec_size := Suc (vec_size v)\<rparr>
      else \<lparr>vec_store = Suc (vec_store v), vec_cap = max 1 (2 * vec_cap v), vec_size = Suc (vec_size v)\<rparr>)"

text \<open>The constructor's loop.\<close>

definition handler_vec :: "nat \<Rightarrow> vec" where
  "handler_vec ts = fold (\<lambda>_. emplace_back) [0..<ts] empty_vec"

text \<open>The loop of \<^verbatim>\<open>start\<close>: the pointers given to the threads, as storage and index.\<close>

definition start_threads :: "nat \<Rightarrow> (nat \<times> nat) list \<times> vec" where
  "start_threads ts =
     fold (\<lambda>i (ps, v). let v' = emplace_back v in (ps @ [(vec_store v', i)], v')) [0..<ts] ([], handler_vec ts)"

definition ptr_valid :: "vec \<Rightarrow> nat \<times> nat \<Rightarrow> bool" where
  "ptr_valid v p \<longleftrightarrow> fst p = vec_store v \<and> snd p < vec_size v"

section \<open>Storages\<close>

definition pushes :: "nat \<Rightarrow> vec" where
  "pushes n = (emplace_back ^^ n) empty_vec"

lemma handler_vec_pushes: "handler_vec ts = pushes ts"
  unfolding handler_vec_def pushes_def by (induction ts) auto

lemma pushes_shape:
  "\<exists>k. pushes (Suc n) = \<lparr>vec_store = Suc k, vec_cap = 2 ^ k, vec_size = Suc n\<rparr> \<and> Suc n \<le> 2 ^ k \<and> 2 ^ k < 2 * Suc n"
proof (induction n)
  case 0
  then show ?case by (simp add: pushes_def emplace_back_def empty_vec_def)
next
  case (Suc n)
  then obtain k where k: "pushes (Suc n) = \<lparr>vec_store = Suc k, vec_cap = 2 ^ k, vec_size = Suc n\<rparr>"
    "Suc n \<le> 2 ^ k" "2 ^ k < 2 * Suc n" by blast
  have e: "pushes (Suc (Suc n)) = emplace_back (pushes (Suc n))" by (simp add: pushes_def)
  show ?case
  proof (cases "Suc n < 2 ^ k")
    case True
    then show ?thesis using k(3) by (intro exI [of _ k]) (simp add: e k(1) emplace_back_def)
  next
    case False
    then have "pushes (Suc (Suc n)) = \<lparr>vec_store = Suc (Suc k), vec_cap = 2 ^ Suc k, vec_size = Suc (Suc n)\<rparr>"
      by (simp add: e k(1) emplace_back_def max_def)
    moreover have "Suc n = 2 ^ k" using False k(2) by simp
    ultimately show ?thesis by (intro exI [of _ "Suc k"]) simp
  qed
qed

lemma start_threads_pushes:
  "start_threads ts = (map (\<lambda>i. (vec_store (pushes (ts + Suc i)), i)) [0..<ts], pushes (ts + ts))"
proof -
  have "fold (\<lambda>i (ps, v). let v' = emplace_back v in (ps @ [(vec_store v', i)], v')) [0..<n] ([], pushes ts) =
      (map (\<lambda>i. (vec_store (pushes (ts + Suc i)), i)) [0..<n], pushes (ts + n))" for n
    by (induction n) (simp_all add: pushes_def Let_def)
  then show ?thesis by (simp add: start_threads_def handler_vec_pushes)
qed

lemma pushes_store_mono:
  assumes "m \<le> n"
  shows "vec_store (pushes m) \<le> vec_store (pushes n)"
  using assms by (induction rule: dec_induct) (auto simp: pushes_def emplace_back_def)

lemma pushes_store:
  assumes "0 < n"
  obtains k where "vec_store (pushes n) = Suc k" "n \<le> 2 ^ k" "2 ^ k < 2 * n"
  using pushes_shape [of "n - 1"] assms that by auto

text \<open>The storage after the first turn is the last one exactly for powers of two.\<close>

lemma storage_kept:
  assumes "0 < ts"
  shows "vec_store (pushes (Suc ts)) = vec_store (pushes (ts + ts)) \<longleftrightarrow> (\<exists>k. ts = 2 ^ k)"
proof -
  obtain a where a: "vec_store (pushes (Suc ts)) = Suc a" "Suc ts \<le> 2 ^ a" "2 ^ a < 2 * Suc ts"
    using pushes_store [of "Suc ts"] by auto
  obtain b where b: "vec_store (pushes (ts + ts)) = Suc b" "ts + ts \<le> 2 ^ b" "2 ^ b < 2 * (ts + ts)"
    using pushes_store [of "ts + ts"] assms by auto
  show ?thesis
  proof
    assume "vec_store (pushes (Suc ts)) = vec_store (pushes (ts + ts))"
    then have e: "a = b" using a(1) b(1) by simp
    have "b \<noteq> 0" using b(2) assms by (cases b) auto
    then obtain c where c: "b = Suc c" by (cases b) auto
    have "ts = 2 ^ c" using a(3) b(2) unfolding e c by simp
    then show "\<exists>k. ts = 2 ^ k" ..
  next
    assume "\<exists>k. ts = 2 ^ k"
    then obtain k where k: "ts = 2 ^ k" ..
    have "(2 :: nat) ^ k < 2 ^ a" using a(2) unfolding k by (rule Suc_le_lessD)
    then have "Suc k \<le> a" by simp
    have "(2 :: nat) ^ b < 2 ^ (Suc (Suc k))" using b(3) k by simp
    then have "b \<le> Suc k" using power_less_imp_less_exp [of "2 :: nat" b "Suc (Suc k)"] by simp
    moreover have "Suc a \<le> Suc b" using pushes_store_mono [of "Suc ts" "ts + ts"] a(1) b(1) assms by simp
    ultimately show "vec_store (pushes (Suc ts)) = vec_store (pushes (ts + ts))"
      using \<open>Suc k \<le> a\<close> a(1) b(1) by simp
  qed
qed

text \<open>
  C21: The addresses \<^verbatim>\<open>start\<close> gives to its threads stay valid exactly when their number is a power of two:
  then the first turn makes room for all that follow.  For any other number a later turn moves the
  vector while the first threads run on it.  The program starts one thread.
\<close>

theorem workers_keep_their_data:
  assumes "0 < ts"
  shows "(\<forall>p \<in> set (fst (start_threads ts)). ptr_valid (snd (start_threads ts)) p) \<longleftrightarrow> (\<exists>k. ts = 2 ^ k)"
proof -
  let ?s = "\<lambda>n. vec_store (pushes n)"
  have sz: "vec_size (pushes (ts + ts)) = ts + ts" using pushes_shape [of "ts + ts - 1"] assms by auto
  have "(\<forall>p \<in> set (fst (start_threads ts)). ptr_valid (snd (start_threads ts)) p) \<longleftrightarrow> (\<forall>i < ts. ?s (ts + Suc i) = ?s (ts + ts))"
    by (auto simp: start_threads_pushes ptr_valid_def sz)
  also have "\<dots> \<longleftrightarrow> ?s (Suc ts) = ?s (ts + ts)"
  proof
    assume "\<forall>i < ts. ?s (ts + Suc i) = ?s (ts + ts)"
    then have "?s (ts + Suc 0) = ?s (ts + ts)" using assms by blast
    then show "?s (Suc ts) = ?s (ts + ts)" by simp
  next
    assume e: "?s (Suc ts) = ?s (ts + ts)"
    have "?s (ts + Suc i) = ?s (ts + ts)" if "i < ts" for i
      using pushes_store_mono [of "Suc ts" "ts + Suc i"] pushes_store_mono [of "ts + Suc i" "ts + ts"] e that by simp
    then show "\<forall>i < ts. ?s (ts + Suc i) = ?s (ts + ts)" by blast
  qed
  finally show ?thesis using storage_kept [OF assms] by simp
qed

lemma workers_keep_their_data_witness:
  "list_all (ptr_valid (snd (start_threads 1))) (fst (start_threads 1)) \<and>
   \<not> list_all (ptr_valid (snd (start_threads 3))) (fst (start_threads 3))"
proof -
  have "\<nexists>k. (3 :: nat) = 2 ^ k"
  proof
    assume "\<exists>k. (3 :: nat) = 2 ^ k"
    then obtain k where "(3 :: nat) = 2 ^ k" ..
    then show False
    proof (cases k)
      case (Suc n)
      then have "(3 :: nat) = 2 * 2 ^ n" using \<open>3 = 2 ^ k\<close> by simp
      then have "even (3 :: nat)" by (metis dvd_triv_left)
      then show False by simp
    qed simp
  qed
  moreover have "\<exists>k. (1 :: nat) = 2 ^ k" by (rule exI [of _ 0]) simp
  ultimately show ?thesis using workers_keep_their_data [of 1] workers_keep_their_data [of 3] by (simp add: list_all_iff)
qed

end
