(* ===== verification/Http_IO.thy ===== *)
theory Http_IO
  imports Bytes_IO "HOL-Library.Sublist"
begin

text \<open>
  \<^verbatim>\<open>ReadWriteHTTP\<close> (\<^verbatim>\<open>src/common/readwrite_http.{h,cpp}\<close>): HTTP requests and responses over a byte
  or TLS socket.

  Boost.Beast is the parameter \<open>hl\<close>: the flat buffer, the request parser and the response
  serializer.  \<open>fb_store bs b\<close> is not called by the program: it is the buffer after the socket has
  stored \<open>bs\<close> at the address \<open>fb_prepare\<close> returned.  The loops of \<^verbatim>\<open>try_parse\<close> and \<^verbatim>\<open>write_http\<close> run
  until the library says so, hence the type \<^typ>\<open>'a run\<close>.
\<close>

section \<open>Model\<close>

datatype parse_error = No_Error | Need_More | Parse_Error nat

record ('b, 'p, 'z) http_lib =
  fb_prepare :: "nat \<Rightarrow> 'b \<Rightarrow> nat \<times> 'b"
  fb_store :: "u8 list \<Rightarrow> 'b \<Rightarrow> 'b"
  fb_commit :: "nat \<Rightarrow> 'b \<Rightarrow> 'b"
  fb_consume :: "nat \<Rightarrow> 'b \<Rightarrow> 'b"
  fb_data :: "'b \<Rightarrow> u8 list"
  fb_addr :: "'b \<Rightarrow> nat"
  fb_empty :: "'b"
  ps_new :: "'p"
  ps_put :: "u8 list \<Rightarrow> 'p \<Rightarrow> nat \<times> parse_error \<times> 'p"
  ps_done :: "'p \<Rightarrow> bool"
  sr_new :: "http_response \<Rightarrow> 'z"
  sr_done :: "'z \<Rightarrow> bool"
  sr_next :: "'z \<Rightarrow> u8 list option"
  sr_consume :: "nat \<Rightarrow> 'z \<Rightarrow> 'z"

record ('b, 'p) http_io =
  hi_files :: "int list"
  hi_tls :: bool
  hi_read_op :: bool
  hi_writer :: u64
  hi_reader :: u64
  hi_parser :: "'p option"
  hi_buffer :: 'b
  hi_wbuffer :: 'b

definition http_new ::
  "('b, 'p, 'z) http_lib \<Rightarrow> int list \<Rightarrow> bool \<Rightarrow> app_event \<Rightarrow> ('b, 'p) http_io \<times> app_event"
where
  "http_new hl fs use_ssl ev =
     (\<lparr>hi_files = fs, hi_tls = use_ssl, hi_read_op = False, hi_writer = 0, hi_reader = 0, hi_parser = None,
       hi_buffer = fb_empty hl, hi_wbuffer = fb_empty hl\<rparr>,
      snd (if use_ssl then construct_ev TLSSocket False (Ctor_TLSSocket fs True) ev
           else construct_ev ReadWriteBytes False (Ctor_ReadWriteBytes fs) ev))"

definition http_arm_read ::
  "('b, 'p, 'z) http_lib \<Rightarrow> ('b, 'p) http_io \<times> app_event \<Rightarrow> (('b, 'p) http_io \<times> app_event) result"
where
  "http_arm_read hl = (\<lambda>(s, ev).
     let (buf, b) = fb_prepare hl 4096 (hi_buffer s) in
     ebind (if hi_tls s then c_first TLSSocket (Tls_Read buf 4096 False) ev
            else c_first ReadWriteBytes (Bytes_Read buf 4096 False) ev)
       (\<lambda>(i, ev'). Inr (s\<lparr>hi_buffer := b, hi_reader := i\<rparr>, ev')))"

definition http_arm_write ::
  "('b, 'p, 'z) http_lib \<Rightarrow> ('b, 'p) http_io \<times> app_event \<Rightarrow> (('b, 'p) http_io \<times> app_event) result"
where
  "http_arm_write hl = (\<lambda>(s, ev).
     let n = length (fb_data hl (hi_wbuffer s)); buf = fb_addr hl (hi_wbuffer s) in
     if n = 0 then Inr (s, ev)
     else ebind (if hi_tls s then c_first TLSSocket (Tls_Write buf (word_of_nat n)) ev
                 else c_first ReadWriteBytes (Bytes_Write buf (word_of_nat n)) ev)
       (\<lambda>(i, ev'). Inr (s\<lparr>hi_writer := i\<rparr>, ev')))"

definition read_http ::
  "('b, 'p, 'z) http_lib \<Rightarrow> ('b, 'p) http_io \<times> app_event \<Rightarrow>
    (call_response \<times> ('b, 'p) http_io \<times> app_event) result"
where
  "read_http hl = (\<lambda>(s, ev).
     ebind (http_arm_read hl (s\<lparr>hi_read_op := True, hi_parser := Some (ps_new hl)\<rparr>, ev)) (\<lambda>(s', ev').
       Inr (mk_response ''Read HTTP'' OP_HINT_READ, s', ev')))"

definition http_get_data :: "('b, 'p) http_io \<Rightarrow> 'p option \<times> ('b, 'p) http_io" where
  "http_get_data s = (hi_parser s, s\<lparr>hi_parser := None\<rparr>)"

text \<open>One visit of the serializer: \<^verbatim>\<open>prepare\<close>, copy, \<^verbatim>\<open>commit\<close>.\<close>

definition append_chunk :: "('b, 'p, 'z) http_lib \<Rightarrow> u8 list \<Rightarrow> 'b \<Rightarrow> 'b" where
  "append_chunk hl src b =
     fb_commit hl (length src) (fb_store hl src (snd (fb_prepare hl (length src) b)))"

partial_function (option) serialize_loop ::
  "('b, 'p, 'z) http_lib \<Rightarrow> 'z \<Rightarrow> 'b \<Rightarrow> 'b option"
where
  "serialize_loop hl sr b =
     (if sr_done hl sr then Some b
      else case sr_next hl sr of
          None \<Rightarrow> Some b
        | Some src \<Rightarrow> serialize_loop hl (sr_consume hl (length src) sr) (append_chunk hl src b))"

definition write_http ::
  "('b, 'p, 'z) http_lib \<Rightarrow> http_response \<Rightarrow> ('b, 'p) http_io \<times> app_event \<Rightarrow>
    (call_response \<times> ('b, 'p) http_io \<times> app_event) run"
where
  "write_http hl resp = (\<lambda>(s, ev).
     case serialize_loop hl (sr_new hl resp) (hi_wbuffer s) of
       None \<Rightarrow> None
     | Some b \<Rightarrow>
         Some (ebind (http_arm_write hl (s\<lparr>hi_read_op := False, hi_wbuffer := b\<rparr>, ev)) (\<lambda>(s', ev').
           Inr (mk_response ''HTTP Write'' OP_HINT_WRITE, s', ev'))))"

text \<open>The function has no return statement.\<close>

definition write_http_with_file_body ::
  "('b, 'p) http_io \<times> app_event \<Rightarrow> (call_response \<times> ('b, 'p) http_io \<times> app_event) result"
where
  "write_http_with_file_body = (\<lambda>_. Inl Undefined_Behaviour)"

partial_function (option) parse_loop ::
  "('b, 'p, 'z) http_lib \<Rightarrow> parse_error \<Rightarrow> 'p \<Rightarrow> 'b \<Rightarrow> (parse_error \<times> 'p \<times> 'b) option"
where
  "parse_loop hl ec p b =
     (if ec = No_Error \<and> \<not> ps_done hl p \<and> fb_data hl b \<noteq> [] then
        (case ps_put hl (fb_data hl b) p of (consumed, ec', p') \<Rightarrow>
           parse_loop hl ec' p' (fb_consume hl consumed b))
      else Some (ec, p, b))"

definition try_parse :: "('b, 'p, 'z) http_lib \<Rightarrow> ('b, 'p) http_io \<Rightarrow> (bool \<times> ('b, 'p) http_io) run" where
  "try_parse hl s =
     (case hi_parser s of
        None \<Rightarrow> Some (Inl Undefined_Behaviour)
      | Some p \<Rightarrow>
          (case ps_put hl (fb_data hl (hi_buffer s)) p of (consumed, ec, p') \<Rightarrow>
            (case parse_loop hl ec p' (fb_consume hl consumed (hi_buffer s)) of
               None \<Rightarrow> None
             | Some (ec, p, b) \<Rightarrow>
                 Some (Inr (if ec \<noteq> No_Error \<and> ec \<noteq> Need_More then True else ps_done hl p,
                            s\<lparr>hi_parser := Some p, hi_buffer := b\<rparr>)))))"

definition http_handle_read ::
  "('b, 'p, 'z) http_lib \<Rightarrow> int \<Rightarrow> ('b, 'p) http_io \<times> app_event \<Rightarrow>
    (yield \<times> ('b, 'p) http_io \<times> app_event) run"
where
  "http_handle_read hl r = (\<lambda>(s, ev).
     let s' = (if r > 0 then s\<lparr>hi_buffer := fb_commit hl (nat r) (hi_buffer s)\<rparr> else s) in
     rbind (try_parse hl s') (\<lambda>(fin, s'').
       if fin then Some (Inr (Some (False, 1), s'', ev))
       else Some (ebind (http_arm_read hl (s'', ev)) (\<lambda>(s''', ev'). Inr (None, s''', ev')))))"

definition http_handle_write ::
  "('b, 'p, 'z) http_lib \<Rightarrow> int \<Rightarrow> ('b, 'p) http_io \<times> app_event \<Rightarrow>
    (yield \<times> ('b, 'p) http_io \<times> app_event) result"
where
  "http_handle_write hl r = (\<lambda>(s, ev).
     let s' = (if r > 0 then s\<lparr>hi_wbuffer := fb_consume hl (nat r) (hi_wbuffer s)\<rparr> else s) in
     if fb_data hl (hi_wbuffer s') \<noteq> []
     then ebind (http_arm_write hl (s', ev)) (\<lambda>(s'', ev'). Inr (None, s'', ev'))
     else Inr (Some (False, 1), s', ev))"

fun http_on_yield ::
  "('b, 'p, 'z) http_lib \<Rightarrow> cls event_type \<Rightarrow> ('b, 'p) http_io \<times> app_event \<Rightarrow>
    (yield \<times> ('b, 'p) http_io \<times> app_event) run"
where
  "http_on_yield hl (ChildTaskCompletion _ _ _ rc) (s, ev) =
     (if rc \<le> 0 then Some (Inr (Some (True, rc), s, ev))
      else if hi_read_op s then http_handle_read hl rc (s, ev)
      else Some (http_handle_write hl rc (s, ev)))"
| "http_on_yield hl _ _ = Some (Inl Bad_Variant_Access)"

section \<open>The contract of the library\<close>

text \<open>
  What the program relies on.  A buffer: \<^verbatim>\<open>prepare\<close> keeps the readable bytes, \<^verbatim>\<open>commit\<close> appends the
  first bytes stored in the prepared area, \<^verbatim>\<open>consume\<close> drops bytes at the front.
\<close>

definition buffer_laws :: "('b, 'p, 'z) http_lib \<Rightarrow> bool" where
  "buffer_laws hl \<longleftrightarrow> fb_data hl (fb_empty hl) = [] \<and>
     (\<forall>n b. fb_data hl (snd (fb_prepare hl n b)) = fb_data hl b) \<and>
     (\<forall>n b bs k. k \<le> length bs \<longrightarrow> length bs \<le> n \<longrightarrow>
        fb_data hl (fb_commit hl k (fb_store hl bs (snd (fb_prepare hl n b)))) = fb_data hl b @ take k bs) \<and>
     (\<forall>n b. fb_data hl (fb_consume hl n b) = drop n (fb_data hl b))"

text \<open>
  A parser on a stream that begins with the message \<open>m\<close>: its state depends on the bytes it has
  consumed (\<open>st\<close>); \<^verbatim>\<open>put\<close> takes bytes from the front and never beyond the message, makes progress
  unless it needs more input, does not need more when the whole message is there, and is done at
  the end of the message and not before.
\<close>

definition parser_reads ::
  "('b, 'p, 'z) http_lib \<Rightarrow> (u8 list \<Rightarrow> 'p) \<Rightarrow> u8 list \<Rightarrow> u8 list \<Rightarrow> bool"
where
  "parser_reads hl st m stream \<longleftrightarrow> st [] = ps_new hl \<and> prefix m stream \<and> ps_done hl (st m) \<and>
     (\<forall>k < length m. \<not> ps_done hl (st (take k stream)) \<and>
       (\<forall>t \<ge> k. t \<le> length stream \<longrightarrow> (\<exists>n ec.
          ps_put hl (drop k (take t stream)) (st (take k stream)) = (n, ec, st (take (k + n) stream)) \<and>
          k + n \<le> t \<and> k + n \<le> length m \<and>
          (ec = No_Error \<and> (k < t \<longrightarrow> 0 < n) \<or> ec = Need_More \<and> t < length m))))"

lemma buffer_simps:
  assumes "buffer_laws hl"
  shows "fb_data hl (fb_empty hl) = []" "fb_data hl (snd (fb_prepare hl n b)) = fb_data hl b"
    "k \<le> length bs \<Longrightarrow> length bs \<le> n \<Longrightarrow>
       fb_data hl (fb_commit hl k (fb_store hl bs (snd (fb_prepare hl n b)))) = fb_data hl b @ take k bs"
    "fb_data hl (fb_consume hl n b) = drop n (fb_data hl b)"
  using assms by (simp_all add: buffer_laws_def)

lemma append_chunk_data: "buffer_laws hl \<Longrightarrow> fb_data hl (append_chunk hl src b) = fb_data hl b @ src"
  by (simp add: append_chunk_def buffer_simps)

text \<open>The loop consumes the message as far as it has arrived.\<close>

lemma parse_loop_reads:
  assumes laws: "buffer_laws hl" "parser_reads hl st m stream"
    and "fb_data hl b = drop k (take t stream)" "t \<le> length stream" "k \<le> t" "k \<le> length m"
    and "ec = No_Error \<or> ec = Need_More \<and> t < length m \<and> k < length m"
  shows "\<exists>ec' k' b'. parse_loop hl ec (st (take k stream)) b = Some (ec', st (take k' stream), b') \<and>
    ec' \<in> {No_Error, Need_More} \<and> fb_data hl b' = drop k' (take t stream) \<and> k' \<le> t \<and> k' \<le> length m \<and>
    (k' = length m \<longleftrightarrow> length m \<le> t)"
  using assms(3-7)
proof (induction "t - k" arbitrary: k b ec rule: less_induct)
  case less
  note m = laws(2) [unfolded parser_reads_def]
  show ?case
  proof (cases "ec = No_Error \<and> k < length m \<and> k < t")
    case True
    have nd: "\<not> ps_done hl (st (take k stream))" using m True by blast
    have ne: "fb_data hl b \<noteq> []" using True less.prems by simp
    obtain n ec' where put: "ps_put hl (drop k (take t stream)) (st (take k stream)) = (n, ec', st (take (k + n) stream))"
      "k + n \<le> t" "k + n \<le> length m" "ec' = No_Error \<and> 0 < n \<or> ec' = Need_More \<and> t < length m"
      using m True less.prems(2,3) by blast
    have eq: "parse_loop hl ec (st (take k stream)) b =
        parse_loop hl ec' (st (take (k + n) stream)) (fb_consume hl n b)"
      using True nd ne put(1) less.prems(1) by (subst parse_loop.simps) simp
    have data: "fb_data hl (fb_consume hl n b) = drop (k + n) (take t stream)"
      using less.prems(1) by (simp add: buffer_simps [OF laws(1)] add.commute)
    show ?thesis
    proof (cases "ec' = No_Error")
      case ok: True
      then have "t - (k + n) < t - k" using put(2,4) True by auto
      from less.hyps [OF this data less.prems(2) put(2,3)] ok show ?thesis unfolding eq by simp
    next
      case False
      then have ec': "ec' = Need_More" "t < length m" using put(4) by auto
      then have "parse_loop hl ec' (st (take (k + n) stream)) (fb_consume hl n b) =
          Some (ec', st (take (k + n) stream), fb_consume hl n b)"
        by (subst parse_loop.simps) simp
      then show ?thesis unfolding eq using ec' data put(2,3) by auto
    qed
  next
    case False
    have "take (length m) stream = m" using m by (auto simp: prefix_def)
    then have "k = length m \<Longrightarrow> ps_done hl (st (take k stream))" using m by simp
    moreover have "k = t \<Longrightarrow> fb_data hl b = []" using less.prems(1) by simp
    moreover have "ec \<noteq> No_Error \<or> k = length m \<or> k = t" using False less.prems(3,4) by linarith
    ultimately have "parse_loop hl ec (st (take k stream)) b = Some (ec, st (take k stream), b)"
      by (subst parse_loop.simps) auto
    then show ?thesis
      using less.prems \<open>ec \<noteq> No_Error \<or> k = length m \<or> k = t\<close> by fastforce
  qed
qed

section \<open>Reading a request in pieces\<close>

definition carrier :: "('b, 'p) http_io \<Rightarrow> cls" where
  "carrier s = (if hi_tls s then TLSSocket else ReadWriteBytes)"

text \<open>The socket stores a piece in the prepared area and its read completes with the length.\<close>

definition received :: "('b, 'p, 'z) http_lib \<Rightarrow> u8 list \<Rightarrow> ('b, 'p) http_io \<Rightarrow> ('b, 'p) http_io" where
  "received hl bs s = s\<lparr>hi_buffer := fb_store hl bs (hi_buffer s)\<rparr>"

fun http_receive ::
  "('b, 'p, 'z) http_lib \<Rightarrow> u8 list list \<Rightarrow> ('b, 'p) http_io \<times> app_event \<Rightarrow>
    (yield \<times> ('b, 'p) http_io \<times> app_event) run"
where
  "http_receive hl [] (s, ev) = Some (Inr (None, s, ev))"
| "http_receive hl (bs # rest) (s, ev) =
     rbind (http_on_yield hl (ChildTaskCompletion 0 (hi_reader s) Finished (int (length bs))) (received hl bs s, ev))
       (\<lambda>(y, s', ev'). case y of None \<Rightarrow> http_receive hl rest (s', ev') | Some v \<Rightarrow> Some (Inr (Some v, s', ev')))"

text \<open>A read is armed, \<open>d\<close> is in the buffer and the parser has consumed \<open>take k stream\<close>.\<close>

definition reading_at ::
  "('b, 'p, 'z) http_lib \<Rightarrow> (u8 list \<Rightarrow> 'p) \<Rightarrow> u8 list \<Rightarrow> nat \<Rightarrow> nat \<Rightarrow> ('b, 'p) http_io \<Rightarrow> bool"
where
  "reading_at hl st stream k t s \<longleftrightarrow> hi_read_op s \<and> hi_parser s = Some (st (take k stream)) \<and>
     (\<exists>b. hi_buffer s = snd (fb_prepare hl 4096 b) \<and> fb_data hl b = drop k (take t stream))"

lemma http_arm_read_child:
  assumes "has_child (carrier s) ev"
  shows "\<exists>s' f. http_arm_read hl (s, ev) = Inr (s', snd (c_at (carrier s) (first_child (carrier s) ev) f ev)) \<and>
    s' = s\<lparr>hi_buffer := snd (fb_prepare hl 4096 (hi_buffer s)), hi_reader := hi_reader s'\<rparr>"
proof -
  obtain buf b where b: "fb_prepare hl 4096 (hi_buffer s) = (buf, b)" by fastforce
  let ?f = "if hi_tls s then Tls_Read buf 4096 False else Bytes_Read buf 4096 False"
  have "\<exists>i. c_at (carrier s) (first_child (carrier s) ev) ?f ev =
      (i, snd (c_at (carrier s) (first_child (carrier s) ev) ?f ev))"
    by (metis prod.collapse)
  then obtain i where "c_first (carrier s) ?f ev = Inr (i, snd (c_at (carrier s) (first_child (carrier s) ev) ?f ev))"
    using c_first_child [OF assms] by metis
  then have "http_arm_read hl (s, ev) =
      Inr (s\<lparr>hi_buffer := b, hi_reader := i\<rparr>, snd (c_at (carrier s) (first_child (carrier s) ev) ?f ev))"
    using b by (auto simp: http_arm_read_def carrier_def)
  then show ?thesis using b by fastforce
qed

text \<open>One piece: either the message is complete and the call ends, or the next read is armed.\<close>

lemma http_on_yield_piece:
  assumes laws: "buffer_laws hl" "parser_reads hl st m stream"
    and at: "reading_at hl st stream k t s" "k \<le> t" "k < length m" "has_child (carrier s) ev"
    and bs: "bs \<noteq> []" "length bs \<le> 4096" "bs = take (length bs) (drop t stream)" "t + length bs \<le> length stream"
  shows "\<exists>y s' ev'. http_on_yield hl (ChildTaskCompletion c i cs (int (length bs))) (received hl bs s, ev) = Some (Inr (y, s', ev')) \<and>
    carrier s' = carrier s \<and>
    (if length m \<le> t + length bs
     then y = Some (False, 1) \<and> ev' = ev \<and> hi_parser s' = Some (st m) \<and>
       fb_data hl (hi_buffer s') = drop (length m) (take (t + length bs) stream)
     else y = None \<and> length (function_q ev') = Suc (length (function_q ev)) \<and> has_child (carrier s) ev' \<and>
       (\<exists>k'. reading_at hl st stream k' (t + length bs) s' \<and> k' \<le> t + length bs \<and> k' < length m))"
proof -
  note m = laws(2) [unfolded parser_reads_def]
  obtain b where b: "hi_buffer s = snd (fb_prepare hl 4096 b)" "fb_data hl b = drop k (take t stream)"
    "hi_read_op s" "hi_parser s = Some (st (take k stream))"
    using at(1) by (auto simp: reading_at_def)
  let ?t = "t + length bs" and ?b = "fb_commit hl (length bs) (fb_store hl bs (hi_buffer s))"
  have "fb_data hl ?b = drop k (take t stream) @ bs"
    using b bs(2) by (simp add: buffer_simps [OF laws(1)])
  also have "\<dots> = drop k (take ?t stream)"
    using at(2) bs(3,4) by (simp add: take_add drop_append)
  finally have data: "fb_data hl ?b = drop k (take ?t stream)" .
  have "k \<le> ?t" using at(2) by simp
  with m at(3) bs(4) obtain n ec
    where put: "ps_put hl (drop k (take ?t stream)) (st (take k stream)) = (n, ec, st (take (k + n) stream))"
      "k + n \<le> ?t" "k + n \<le> length m" "ec = No_Error \<and> (k < ?t \<longrightarrow> 0 < n) \<or> ec = Need_More \<and> ?t < length m"
    by blast
  have ec: "ec = No_Error \<or> ec = Need_More \<and> ?t < length m \<and> k + n < length m" using put(2,4) by linarith
  have d2: "fb_data hl (fb_consume hl n ?b) = drop (k + n) (take ?t stream)"
    by (simp add: buffer_simps [OF laws(1)] data add.commute)
  obtain ec' k' b' where loop: "parse_loop hl ec (st (take (k + n) stream)) (fb_consume hl n ?b) = Some (ec', st (take k' stream), b')"
    "ec' \<in> {No_Error, Need_More}" "fb_data hl b' = drop k' (take ?t stream)" "k' \<le> ?t" "k' \<le> length m"
    "k' = length m \<longleftrightarrow> length m \<le> ?t"
    using parse_loop_reads [OF laws d2 bs(4) put(2,3) ec] by blast
  have tk: "take (length m) stream = m" using m by (auto simp: prefix_def)
  have fin: "ps_done hl (st (take k' stream)) \<longleftrightarrow> length m \<le> ?t"
    using m tk loop(5,6) by (metis le_neq_implies_less)
  let ?s' = "s\<lparr>hi_buffer := b', hi_parser := Some (st (take k' stream))\<rparr>"
  have tp: "try_parse hl (s\<lparr>hi_buffer := ?b\<rparr>) = Some (Inr (length m \<le> ?t, ?s'))"
    using put(1) loop(1,2) fin by (auto simp: try_parse_def b(4) data)
  have hr: "http_on_yield hl (ChildTaskCompletion c i cs (int (length bs))) (received hl bs s, ev) =
      (if length m \<le> ?t then Some (Inr (Some (False, 1), ?s', ev))
       else Some (ebind (http_arm_read hl (?s', ev)) (\<lambda>(s''', ev'). Inr (None, s''', ev'))))"
    using bs(1) b(3) tp by (simp add: http_handle_read_def received_def)
  show ?thesis
  proof (cases "length m \<le> ?t")
    case True
    then show ?thesis using hr loop tk by (auto simp: carrier_def)
  next
    case False
    have "has_child (carrier ?s') ev" using at(4) by (simp add: carrier_def)
    from http_arm_read_child [OF this, of hl]
    obtain s'' f where s'': "http_arm_read hl (?s', ev) = Inr (s'', snd (c_at (carrier s) (first_child (carrier s) ev) f ev))"
      "s'' = ?s'\<lparr>hi_buffer := snd (fb_prepare hl 4096 b'), hi_reader := hi_reader s''\<rparr>"
      by (auto simp: carrier_def)
    have "reading_at hl st stream k' ?t s''" using b(3) loop(3) by (subst s''(2)) (auto simp: reading_at_def)
    moreover have "k' < length m" using False loop(5,6) by auto
    moreover have "carrier s'' = carrier s" by (subst s''(2)) (simp add: carrier_def)
    moreover have "length (function_q (snd (c_at (carrier s) (first_child (carrier s) ev) f ev))) = Suc (length (function_q ev))"
      by (simp add: c_at_def Let_def)
    ultimately show ?thesis using hr s''(1) False loop(4) at(4) by auto
  qed
qed

lemma http_receive_pieces:
  assumes laws: "buffer_laws hl" "parser_reads hl st m stream"
    and "reading_at hl st stream k t s" "k \<le> t" "k < length m" "t < length m" "has_child (carrier s) ev"
    and "stream = take t stream @ concat cs" "\<forall>c \<in> set cs. c \<noteq> [] \<and> length c \<le> 4096"
    and "t \<le> length stream" "t + length (concat (butlast cs)) < length m" "length m \<le> length stream"
  shows "\<exists>s' ev'. http_receive hl cs (s, ev) = Some (Inr (Some (False, 1), s', ev')) \<and>
    hi_parser s' = Some (st m) \<and> fb_data hl (hi_buffer s') = drop (length m) stream \<and>
    Suc (length (function_q ev')) = length (function_q ev) + length cs"
  using assms(3-)
proof (induction cs arbitrary: k t s ev)
  case Nil
  have "length stream \<le> t" using arg_cong [OF Nil.prems(6), of length] by simp
  then show ?case using Nil.prems(4,10) by simp
next
  case (Cons c cs)
  have c: "c \<noteq> []" "length c \<le> 4096" using Cons.prems(7) by simp_all
  have dr: "drop t stream = c @ concat cs"
    using Cons.prems(6,8) by (metis append_eq_conv_conj concat.simps(2) length_take min.absorb2)
  have len: "length stream - t = length c + length (concat cs)" by (metis dr length_append length_drop)
  have bs: "c = take (length c) (drop t stream)" "t + length c \<le> length stream"
    using Cons.prems(8) len dr by simp_all
  obtain y s' ev' where step:
    "http_on_yield hl (ChildTaskCompletion 0 (hi_reader s) Finished (int (length c))) (received hl c s, ev) = Some (Inr (y, s', ev'))"
    "carrier s' = carrier s"
    "if length m \<le> t + length c
     then y = Some (False, 1) \<and> ev' = ev \<and> hi_parser s' = Some (st m) \<and>
       fb_data hl (hi_buffer s') = drop (length m) (take (t + length c) stream)
     else y = None \<and> length (function_q ev') = Suc (length (function_q ev)) \<and> has_child (carrier s) ev' \<and>
       (\<exists>k'. reading_at hl st stream k' (t + length c) s' \<and> k' \<le> t + length c \<and> k' < length m)"
    using http_on_yield_piece [OF laws Cons.prems(1-3,5) c bs] by blast
  show ?case
  proof (cases "cs = []")
    case True
    then have all: "t + length c = length stream" using len Cons.prems(8) by simp
    then show ?thesis using step Cons.prems(10) True by simp
  next
    case False
    then have lt: "t + length c + length (concat (butlast cs)) < length m" using Cons.prems(9) by simp
    then obtain k' where k': "reading_at hl st stream k' (t + length c) s'" "k' \<le> t + length c" "k' < length m"
      "y = None" "length (function_q ev') = Suc (length (function_q ev))" "has_child (carrier s') ev'"
      using step(2,3) by auto
    have "stream = take (t + length c) stream @ concat cs"
      using dr by (metis append_eq_conv_conj append_take_drop_id drop_drop add.commute)
    moreover have "\<forall>c \<in> set cs. c \<noteq> [] \<and> length c \<le> 4096" using Cons.prems(7) by simp
    ultimately obtain s2 ev2 where "http_receive hl cs (s', ev') = Some (Inr (Some (False, 1), s2, ev2))"
      "hi_parser s2 = Some (st m)" "fb_data hl (hi_buffer s2) = drop (length m) stream"
      "Suc (length (function_q ev2)) = length (function_q ev') + length cs"
      using Cons.IH [OF k'(1-3) _ k'(6)] lt bs(2) Cons.prems(10) by auto
    then show ?thesis using step(1) k'(4,5) by simp
  qed
qed

section \<open>Properties\<close>

text \<open>
  C9: However the bytes of a request are cut into pieces by the socket, and whatever an
  earlier request left in the buffer, \<^verbatim>\<open>read_http\<close> re-arms a read until the message is complete;
  then the call ends, the parser holds exactly that message and the bytes after it stay in the
  buffer for the next request.
\<close>

theorem request_read_whole:
  assumes "buffer_laws hl" "parser_reads hl st m (fb_data hl (hi_buffer s) @ concat cs)"
    and "has_child (carrier s) ev" "\<forall>c \<in> set cs. c \<noteq> [] \<and> length c \<le> 4096"
    and "length (fb_data hl (hi_buffer s)) + length (concat (butlast cs)) < length m"
  shows "\<exists>s1 ev1 s2 ev2. read_http hl (s, ev) = Inr (mk_response ''Read HTTP'' OP_HINT_READ, s1, ev1) \<and>
    http_receive hl cs (s1, ev1) = Some (Inr (Some (False, 1), s2, ev2)) \<and>
    fst (http_get_data s2) = Some (st m) \<and>
    fb_data hl (hi_buffer s2) = drop (length m) (fb_data hl (hi_buffer s) @ concat cs) \<and>
    length (function_q ev2) = length (function_q ev) + length cs"
proof -
  let ?L = "fb_data hl (hi_buffer s)" and ?s = "s\<lparr>hi_read_op := True, hi_parser := Some (ps_new hl)\<rparr>"
  have m: "length m \<le> length (?L @ concat cs)" "st [] = ps_new hl"
    using assms(2) by (auto simp: parser_reads_def dest: prefix_length_le)
  have "has_child (carrier ?s) ev" using assms(3) by (simp add: carrier_def)
  from http_arm_read_child [OF this, of hl] obtain s1 f
    where s1: "http_arm_read hl (?s, ev) = Inr (s1, snd (c_at (carrier s) (first_child (carrier s) ev) f ev))"
      "s1 = ?s\<lparr>hi_buffer := snd (fb_prepare hl 4096 (hi_buffer s)), hi_reader := hi_reader s1\<rparr>"
    by (auto simp: carrier_def)
  let ?ev1 = "snd (c_at (carrier s) (first_child (carrier s) ev) f ev)"
  have "reading_at hl st (?L @ concat cs) 0 (length ?L) s1"
    using m(2) by (subst s1(2)) (auto simp: reading_at_def)
  moreover have "has_child (carrier s1) ?ev1"
    using assms(3) by (subst s1(2)) (simp add: carrier_def)
  moreover have "length (function_q ?ev1) = Suc (length (function_q ev))" by (simp add: c_at_def Let_def)
  moreover have "m \<noteq> []" using assms(5) by auto
  ultimately show ?thesis
    using http_receive_pieces [OF assms(1,2), of 0 "length ?L" s1 ?ev1 cs] s1(1) assms(4,5) m(1)
    by (auto simp: read_http_def http_get_data_def)
qed

text \<open>An instance for evaluation: a message ends with a line feed.\<close>

definition line_http :: "(u8 list \<times> u8 list, u8 list, u8 list) http_lib" where
  "line_http = \<lparr>fb_prepare = (\<lambda>n b. (4096, b)), fb_store = (\<lambda>bs (d, w). (d, bs)),
     fb_commit = (\<lambda>n (d, w). (d @ take n w, [])), fb_consume = (\<lambda>n (d, w). (drop n d, w)),
     fb_data = fst, fb_addr = (\<lambda>b. 8192), fb_empty = ([], []), ps_new = [],
     ps_put = (\<lambda>bs p. let k = index_where (\<lambda>b. b = 10) bs in
        if k < length bs then (k + 1, No_Error, p @ take (k + 1) bs) else (length bs, Need_More, p @ bs)),
     ps_done = (\<lambda>p. p \<noteq> [] \<and> last p = 10),
     sr_new = (\<lambda>r. map (of_nat \<circ> of_char) (res_body r)), sr_done = (\<lambda>z. z = []),
     sr_next = (\<lambda>z. Some (take 2 z)), sr_consume = drop\<rparr>"

lemma line_buffer_laws: "buffer_laws line_http"
  by (auto simp: buffer_laws_def line_http_def)

lemma request_read_whole_witness:
  "\<exists>s1 ev1 s2 ev2. read_http line_http (fst (http_new line_http [5] False (new_event empty_uring_data)),
        snd (http_new line_http [5] False (new_event empty_uring_data))) = Inr (mk_response ''Read HTTP'' OP_HINT_READ, s1, ev1) \<and>
    http_receive line_http [[71], [10, 72]] (s1, ev1) = Some (Inr (Some (False, 1), s2, ev2)) \<and>
    hi_parser s2 = Some [71, 10] \<and> fb_data line_http (hi_buffer s2) = [72]"
proof -
  let ?s = "fst (http_new line_http [5] False (new_event empty_uring_data))"
  let ?ev = "snd (http_new line_http [5] False (new_event empty_uring_data)) :: app_event"
  have s: "fb_data line_http (hi_buffer ?s) = []" "carrier ?s = ReadWriteBytes"
    by (simp_all add: http_new_def line_http_def carrier_def)
  have ch: "has_child (carrier ?s) ?ev" unfolding s(2) by (simp add: http_new_def)
  have "parser_reads line_http id [71, 10] [71, 10, 72]"
  proof -
    have "k = 0 \<or> k = 1" if "k < length [71, 10 :: u8]" for k using that by auto
    moreover have "t = 0 \<or> t = 1 \<or> t = 2 \<or> t = 3" if "t \<le> length [71, 10, 72 :: u8]" for t using that by auto
    ultimately show ?thesis
      unfolding parser_reads_def by (fastforce simp: line_http_def Let_def)
  qed
  then have "parser_reads line_http id [71, 10] (fb_data line_http (hi_buffer ?s) @ concat [[71], [10, 72]])"
    unfolding s by simp
  moreover have "\<forall>c \<in> set [[71], [10, 72 :: u8]]. c \<noteq> [] \<and> length c \<le> 4096"
    "length (fb_data line_http (hi_buffer ?s)) + length (concat (butlast [[71], [10, 72 :: u8]])) < length [71, 10 :: u8]"
    unfolding s by simp_all
  ultimately show ?thesis
    using request_read_whole [OF line_buffer_laws _ ch, of id "[71, 10]" "[[71], [10, 72]]"]
    unfolding s http_get_data_def fst_conv id_apply append_Nil by (simp del: http_receive.simps) blast
qed

text \<open>
  A request that a client has sent ahead is not looked at: \<^verbatim>\<open>read_http\<close> waits for more
  bytes even when the buffer already holds a complete message, and nothing is parsed until they
  arrive.
\<close>

theorem pipelined_request_waits:
  assumes "buffer_laws hl" "prefix m (fb_data hl (hi_buffer s))" "ps_done hl (st m)" "has_child (carrier s) ev"
  shows "\<exists>s1 ev1. read_http hl (s, ev) = Inr (mk_response ''Read HTTP'' OP_HINT_READ, s1, ev1) \<and>
    hi_parser s1 = Some (ps_new hl) \<and> fb_data hl (hi_buffer s1) = fb_data hl (hi_buffer s) \<and>
    length (function_q ev1) = Suc (length (function_q ev))"
proof -
  let ?s = "s\<lparr>hi_read_op := True, hi_parser := Some (ps_new hl)\<rparr>"
  have "has_child (carrier ?s) ev" using assms(4) by (simp add: carrier_def)
  from http_arm_read_child [OF this, of hl] obtain s1 f
    where s1: "http_arm_read hl (?s, ev) = Inr (s1, snd (c_at (carrier s) (first_child (carrier s) ev) f ev))"
      "s1 = ?s\<lparr>hi_buffer := snd (fb_prepare hl 4096 (hi_buffer s)), hi_reader := hi_reader s1\<rparr>"
    by (auto simp: carrier_def)
  have "hi_parser s1 = Some (ps_new hl) \<and> fb_data hl (hi_buffer s1) = fb_data hl (hi_buffer s)"
    by (subst (1 2) s1(2)) (simp add: buffer_simps [OF assms(1)])
  then show ?thesis using s1(1) by (simp add: read_http_def c_at_def Let_def)
qed

lemma pipelined_request_waits_witness:
  "\<exists>s1 ev1. read_http line_http ((fst (http_new line_http [5] False (new_event empty_uring_data)))\<lparr>hi_buffer := ([71, 10], [])\<rparr>,
      snd (http_new line_http [5] False (new_event empty_uring_data))) = Inr (mk_response ''Read HTTP'' OP_HINT_READ, s1, ev1) \<and>
    fb_data line_http (hi_buffer s1) = [71, 10]"
proof -
  let ?s = "(fst (http_new line_http [5] False (new_event empty_uring_data)))\<lparr>hi_buffer := ([71, 10], [])\<rparr>"
  let ?ev = "snd (http_new line_http [5] False (new_event empty_uring_data)) :: app_event"
  have s: "fb_data line_http (hi_buffer ?s) = [71, 10]" "carrier ?s = ReadWriteBytes"
    by (simp_all add: http_new_def line_http_def carrier_def)
  have "has_child (carrier ?s) ?ev" unfolding s(2) by (simp add: http_new_def)
  moreover have "prefix [71, 10] (fb_data line_http (hi_buffer ?s))" "ps_done line_http (id [71, 10])"
    unfolding s(1) by (simp_all add: line_http_def)
  ultimately show ?thesis using pipelined_request_waits [OF line_buffer_laws] s(1) by metis
qed

text \<open>The chunks a serializer hands out until it is done.\<close>

fun sr_chunks :: "('b, 'p, 'z) http_lib \<Rightarrow> 'z \<Rightarrow> u8 list list \<Rightarrow> bool" where
  "sr_chunks hl sr [] = sr_done hl sr"
| "sr_chunks hl sr (c # cs) =
     (\<not> sr_done hl sr \<and> sr_next hl sr = Some c \<and> sr_chunks hl (sr_consume hl (length c) sr) cs)"

lemma serialize_loop_chunks:
  assumes "buffer_laws hl" "sr_chunks hl sr cs"
  shows "\<exists>b'. serialize_loop hl sr b = Some b' \<and> fb_data hl b' = fb_data hl b @ concat cs"
  using assms(2)
proof (induction cs arbitrary: sr b)
  case Nil
  then show ?case by (subst serialize_loop.simps) simp
next
  case (Cons c cs)
  then obtain b' where b': "serialize_loop hl (sr_consume hl (length c) sr) (append_chunk hl c b) = Some b'"
    "fb_data hl b' = fb_data hl (append_chunk hl c b) @ concat cs" by fastforce
  then show ?case
    using Cons.prems by (subst serialize_loop.simps) (simp add: append_chunk_data [OF assms(1)])
qed

fun http_sent ::
  "('b, 'p, 'z) http_lib \<Rightarrow> int list \<Rightarrow> ('b, 'p) http_io \<times> app_event \<Rightarrow> (yield \<times> ('b, 'p) http_io \<times> app_event) run"
where
  "http_sent hl [] (s, ev) = Some (Inr (None, s, ev))"
| "http_sent hl (r # rs) (s, ev) =
     rbind (http_on_yield hl (ChildTaskCompletion 0 (hi_writer s) Finished r) (s, ev))
       (\<lambda>(y, s', ev'). case y of None \<Rightarrow> http_sent hl rs (s', ev') | Some v \<Rightarrow> Some (Inr (Some v, s', ev')))"

text \<open>The write of everything in a buffer.\<close>

definition write_call :: "('b, 'p, 'z) http_lib \<Rightarrow> bool \<Rightarrow> 'b \<Rightarrow> member_call" where
  "write_call hl tls b = (if tls then Tls_Write else Bytes_Write) (fb_addr hl b) (word_of_nat (length (fb_data hl b)))"

text \<open>What is left to send before each of the results.\<close>

fun remains :: "'x list \<Rightarrow> int list \<Rightarrow> 'x list list" where
  "remains d [] = []"
| "remains d (r # rs) = d # remains (drop (nat r) d) rs"

lemma http_arm_write_child:
  assumes "has_child (carrier s) ev" "fb_data hl (hi_wbuffer s) \<noteq> []"
  shows "\<exists>s' ev'. http_arm_write hl (s, ev) = Inr (s', ev') \<and> s' = s\<lparr>hi_writer := hi_writer s'\<rparr> \<and>
    has_child (carrier s) ev' \<and>
    map qf_fun (function_q ev') = map qf_fun (function_q ev) @ [write_call hl (hi_tls s) (hi_wbuffer s)]"
proof -
  let ?f = "write_call hl (hi_tls s) (hi_wbuffer s)"
  have "http_arm_write hl (s, ev) =
      Inr (s\<lparr>hi_writer := fst (c_at (carrier s) (first_child (carrier s) ev) ?f ev)\<rparr>,
           snd (c_at (carrier s) (first_child (carrier s) ev) ?f ev))"
    using assms(2) c_first_child [OF assms(1)]
    by (cases "hi_tls s") (simp_all add: http_arm_write_def carrier_def write_call_def split_beta)
  then show ?thesis using assms(1) by (fastforce simp: function_q_c_at)
qed

lemma http_sent_pieces:
  assumes "buffer_laws hl" "pieces (length (fb_data hl (hi_wbuffer s))) rs" "\<not> hi_read_op s" "has_child (carrier s) ev"
  shows "\<exists>s' ev' bufs. http_sent hl rs (s, ev) = Some (Inr (Some (False, 1), s', ev')) \<and>
    fb_data hl (hi_wbuffer s') = [] \<and>
    map qf_fun (function_q ev') = map qf_fun (function_q ev) @ map (write_call hl (hi_tls s)) bufs \<and>
    map (fb_data hl) (hi_wbuffer s # bufs) = remains (fb_data hl (hi_wbuffer s)) rs"
  using assms(2-)
proof (induction "length (fb_data hl (hi_wbuffer s))" rs arbitrary: s ev rule: pieces.induct)
  case (1 s ev)
  then show ?case by simp
next
  case (2 r s ev)
  then show ?case by (fastforce simp: http_handle_write_def buffer_simps [OF assms(1)])
next
  case (3 r r' rs s ev)
  let ?s = "s\<lparr>hi_wbuffer := fb_consume hl (nat r) (hi_wbuffer s)\<rparr>"
  have r: "0 < r" "r < int (length (fb_data hl (hi_wbuffer s)))"
    and p: "pieces (length (fb_data hl (hi_wbuffer ?s))) (r' # rs)"
    using 3 by (simp_all add: buffer_simps [OF assms(1)])
  have "fb_data hl (hi_wbuffer ?s) \<noteq> []" using r by (simp add: buffer_simps [OF assms(1)] nat_less_iff)
  moreover have "has_child (carrier ?s) ev" using 3 by (simp add: carrier_def)
  ultimately obtain s' ev' where arm: "http_arm_write hl (?s, ev) = Inr (s', ev')" "s' = ?s\<lparr>hi_writer := hi_writer s'\<rparr>"
    "has_child (carrier ?s) ev'"
    "map qf_fun (function_q ev') = map qf_fun (function_q ev) @ [write_call hl (hi_tls ?s) (hi_wbuffer ?s)]"
    using http_arm_write_child [of ?s ev hl] by blast
  have w: "hi_wbuffer s' = fb_consume hl (nat r) (hi_wbuffer s)" "hi_tls s' = hi_tls s" "\<not> hi_read_op s'" "carrier s' = carrier s"
    using 3 by (subst arm(2), simp add: carrier_def)+
  have len: "length (fb_data hl (hi_wbuffer s)) - nat r = length (fb_data hl (hi_wbuffer s'))"
    by (simp add: w(1) buffer_simps [OF assms(1)])
  have "pieces (length (fb_data hl (hi_wbuffer s'))) (r' # rs)" "has_child (carrier s') ev'"
    using p arm(3) by (simp_all add: w carrier_def)
  from 3(1) [OF len this(1) w(3) this(2)] obtain s2 ev2 bufs where IH:
    "http_sent hl (r' # rs) (s', ev') = Some (Inr (Some (False, 1), s2, ev2))" "fb_data hl (hi_wbuffer s2) = []"
    "map qf_fun (function_q ev2) = map qf_fun (function_q ev') @ map (write_call hl (hi_tls s')) bufs"
    "map (fb_data hl) (hi_wbuffer s' # bufs) = remains (fb_data hl (hi_wbuffer s')) (r' # rs)"
    by blast
  have y: "http_on_yield hl (ChildTaskCompletion 0 (hi_writer s) Finished r) (s, ev) = Some (Inr (None, s', ev'))"
    using r 3(3) arm(1) \<open>fb_data hl (hi_wbuffer ?s) \<noteq> []\<close> by (simp add: http_handle_write_def Let_def)
  have "http_sent hl (r # r' # rs) (s, ev) = Some (Inr (Some (False, 1), s2, ev2))"
    using y IH(1) by (simp only: http_sent.simps(2) [of _ r] rbind_simps prod.case option.case)
  moreover have "map qf_fun (function_q ev2) = map qf_fun (function_q ev) @ map (write_call hl (hi_tls s)) (hi_wbuffer s' # bufs)"
    using IH(3) arm(4) by (simp add: w)
  moreover have "map (fb_data hl) (hi_wbuffer s # hi_wbuffer s' # bufs) = remains (fb_data hl (hi_wbuffer s)) (r # r' # rs)"
    using IH(4) by (simp add: w(1) buffer_simps [OF assms(1)])
  ultimately show ?case using IH(2) by blast
qed

text \<open>
  \<^verbatim>\<open>write_http\<close> puts the serialized response into the write buffer and hands all of it to
  the socket; whatever lengths the socket reports, what is left is handed over again, until every
  byte was sent once and in order, and then the call ends.
\<close>

theorem response_written:
  assumes "buffer_laws hl" "sr_chunks hl (sr_new hl resp) cs" "fb_data hl (hi_wbuffer s) = []"
    and "pieces (length (concat cs)) rs" "has_child (carrier s) ev"
  shows "\<exists>s1 ev1 s2 ev2 bufs. write_http hl resp (s, ev) = Some (Inr (mk_response ''HTTP Write'' OP_HINT_WRITE, s1, ev1)) \<and>
    http_sent hl rs (s1, ev1) = Some (Inr (Some (False, 1), s2, ev2)) \<and> fb_data hl (hi_wbuffer s2) = [] \<and>
    map qf_fun (function_q ev2) = map qf_fun (function_q ev) @ map (write_call hl (hi_tls s)) bufs \<and>
    map (fb_data hl) bufs = remains (concat cs) rs"
proof -
  obtain b where b: "serialize_loop hl (sr_new hl resp) (hi_wbuffer s) = Some b" "fb_data hl b = concat cs"
    using serialize_loop_chunks [OF assms(1,2), of "hi_wbuffer s"] assms(3) by auto
  let ?s = "s\<lparr>hi_read_op := False, hi_wbuffer := b\<rparr>"
  have "fb_data hl (hi_wbuffer ?s) \<noteq> []" using b(2) pieces_pos [OF assms(4)] by (metis http_io.select_convs(8) http_io.surjective http_io.update_convs(8) length_greater_0_conv)
  moreover have "has_child (carrier ?s) ev" using assms(5) by (simp add: carrier_def)
  ultimately obtain s1 ev1 where arm: "http_arm_write hl (?s, ev) = Inr (s1, ev1)" "s1 = ?s\<lparr>hi_writer := hi_writer s1\<rparr>"
    "has_child (carrier ?s) ev1"
    "map qf_fun (function_q ev1) = map qf_fun (function_q ev) @ [write_call hl (hi_tls ?s) (hi_wbuffer ?s)]"
    using http_arm_write_child [of ?s ev hl] by blast
  have w: "hi_wbuffer s1 = b" "hi_tls s1 = hi_tls s" "\<not> hi_read_op s1" "carrier s1 = carrier s"
    by (subst arm(2), simp add: carrier_def)+
  have "has_child (carrier s1) ev1" "pieces (length (fb_data hl (hi_wbuffer s1))) rs"
    using arm(3) w assms(4) b(2) by (simp_all add: carrier_def)
  from http_sent_pieces [OF assms(1) this(2) w(3) this(1)] obtain s2 ev2 bufs
    where "http_sent hl rs (s1, ev1) = Some (Inr (Some (False, 1), s2, ev2))" "fb_data hl (hi_wbuffer s2) = []"
      "map qf_fun (function_q ev2) = map qf_fun (function_q ev1) @ map (write_call hl (hi_tls s1)) bufs"
      "map (fb_data hl) (hi_wbuffer s1 # bufs) = remains (fb_data hl (hi_wbuffer s1)) rs"
    by blast
  moreover have "map qf_fun (function_q ev1) @ map (write_call hl (hi_tls s1)) bufs =
      map qf_fun (function_q ev) @ map (write_call hl (hi_tls s)) (b # bufs)"
    using arm(4) by (simp add: w)
  moreover have "write_http hl resp (s, ev) = Some (Inr (mk_response ''HTTP Write'' OP_HINT_WRITE, s1, ev1))"
    using b(1) arm(1) by (simp add: write_http_def)
  ultimately show ?thesis by (intro exI [of _ s1] exI [of _ ev1] exI [of _ s2] exI [of _ ev2] exI [of _ "b # bufs"]) (simp add: w b(2))
qed

lemma response_written_witness:
  "\<exists>s1 ev1 s2 ev2. write_http line_http \<lparr>res_status = Ok, res_version = 11, res_fields = [], res_body = ''hello''\<rparr>
      (fst (http_new line_http [5] True (new_event empty_uring_data)), snd (http_new line_http [5] True (new_event empty_uring_data))) =
        Some (Inr (mk_response ''HTTP Write'' OP_HINT_WRITE, s1, ev1)) \<and>
    http_sent line_http [2, 3] (s1, ev1) = Some (Inr (Some (False, 1), s2, ev2)) \<and>
    map qf_fun (function_q ev2) = [Tls_Write 8192 5, Tls_Write 8192 3]"
proof -
  let ?r = "\<lparr>res_status = Ok, res_version = 11, res_fields = [], res_body = ''hello''\<rparr>"
  let ?s = "fst (http_new line_http [5] True (new_event empty_uring_data))"
  let ?ev = "snd (http_new line_http [5] True (new_event empty_uring_data)) :: app_event"
  have s: "fb_data line_http (hi_wbuffer ?s) = []" "hi_tls ?s" "carrier ?s = TLSSocket" "map qf_fun (function_q ?ev) = []"
    by (simp_all add: http_new_def line_http_def carrier_def construct_ev_def set_slots_def new_event_def Let_def)
  have "has_child (carrier ?s) ?ev" unfolding s(3) by (simp add: http_new_def)
  moreover have "sr_chunks line_http (sr_new line_http ?r) [[104, 101], [108, 108], [111]]"
    by (simp add: line_http_def of_char_def)
  moreover have "pieces (length (concat [[104, 101], [108, 108], [111 :: u8]])) [2, 3]" by simp
  ultimately obtain s1 ev1 s2 ev2 bufs where
    w: "write_http line_http ?r (?s, ?ev) = Some (Inr (mk_response ''HTTP Write'' OP_HINT_WRITE, s1, ev1))"
      "http_sent line_http [2, 3] (s1, ev1) = Some (Inr (Some (False, 1), s2, ev2))"
      "map qf_fun (function_q ev2) = map (write_call line_http True) bufs"
      "map (fb_data line_http) bufs = remains (concat [[104, 101], [108, 108], [111]]) [2, 3]"
    using response_written [OF line_buffer_laws _ s(1)] s(2,4) by (metis append_Nil)
  have "map (write_call line_http True) bufs = map (\<lambda>d. Tls_Write 8192 (word_of_nat (length d))) (map (fb_data line_http) bufs)"
    by (simp add: write_call_def line_http_def)
  then have "map (write_call line_http True) bufs = [Tls_Write 8192 5, Tls_Write 8192 3]"
    unfolding w(4) by simp
  then show ?thesis using w by metis
qed

text \<open>
  C36: With any parser that takes at least one byte of a non-empty buffer unless it reports
  an error or is done, the loop over the buffered bytes ends: every completion is answered, by a
  result, by another request to the socket or by an exception.
\<close>

theorem on_yield_returns:
  assumes "buffer_laws hl"
    and "\<And>bs p n p'. bs \<noteq> [] \<Longrightarrow> \<not> ps_done hl p \<Longrightarrow> ps_put hl bs p = (n, No_Error, p') \<Longrightarrow> \<not> ps_done hl p' \<Longrightarrow> 0 < n"
  shows "http_on_yield hl e (s, ev) \<noteq> None"
proof -
  have loop: "parse_loop hl ec p b \<noteq> None" for ec p b
  proof (induction "length (fb_data hl b)" arbitrary: ec p b rule: less_induct)
    case less
    obtain n ec' p' where put: "ps_put hl (fb_data hl b) p = (n, ec', p')" by (cases "ps_put hl (fb_data hl b) p") auto
    show ?case
    proof (cases "ec = No_Error \<and> \<not> ps_done hl p \<and> fb_data hl b \<noteq> []")
      case True
      have "parse_loop hl ec' p' (fb_consume hl n b) \<noteq> None"
      proof (cases "ec' = No_Error \<and> \<not> ps_done hl p'")
        case go: True
        then have "0 < n" using assms(2) True put by blast
        then have "length (fb_data hl (fb_consume hl n b)) < length (fb_data hl b)"
          using True by (simp add: buffer_simps [OF assms(1)])
        then show ?thesis by (rule less.hyps)
      qed (subst parse_loop.simps, auto)
      then show ?thesis using True put by (subst parse_loop.simps) simp
    qed (subst parse_loop.simps, auto)
  qed
  have "try_parse hl s \<noteq> None" for s
  proof (cases "hi_parser s")
    case (Some p)
    obtain n ec p' where put: "ps_put hl (fb_data hl (hi_buffer s)) p = (n, ec, p')"
      by (cases "ps_put hl (fb_data hl (hi_buffer s)) p") auto
    obtain r where "parse_loop hl ec p' (fb_consume hl n (hi_buffer s)) = Some r" using loop by blast
    then show ?thesis using Some put by (cases r) (simp add: try_parse_def)
  qed (simp add: try_parse_def)
  then have "http_handle_read hl r (s, ev) \<noteq> None" for r s ev
    by (auto simp: http_handle_read_def Let_def rbind_def split: option.splits sum.splits) (metis option.discI)+
  then show ?thesis by (cases e) (simp_all del: not_None_eq)
qed

lemma on_yield_returns_witness:
  "http_on_yield line_http (ChildTaskCompletion 0 0 Finished 3)
     (fst (http_new line_http [5] True (new_event empty_uring_data)), new_event empty_uring_data) \<noteq> None"
proof (rule on_yield_returns [OF line_buffer_laws])
  fix bs p n p'
  assume "bs \<noteq> []" "ps_put line_http bs p = (n, No_Error, p')"
  then show "0 < n" by (auto simp: line_http_def Let_def split: if_splits)
qed

end
