(* ===== verification/Decimal.thy ===== *)
theory Decimal
  imports Prelude
begin

text \<open>
  Decimal numbers as the streams and \<^verbatim>\<open>sscanf\<close> of the program write and read them; shared by the
  visit statistics, the log and its parser.
\<close>

definition digit_char :: "nat \<Rightarrow> char" where
  "digit_char d = char_of (48 + d)"

definition digit_val :: "char \<Rightarrow> nat option" where
  "digit_val ch = (let n = of_char ch :: nat in if 48 \<le> n \<and> n \<le> 57 then Some (n - 48) else None)"

definition is_digit :: "char \<Rightarrow> bool" where
  "is_digit ch \<longleftrightarrow> digit_val ch \<noteq> None"

fun show_nat :: "nat \<Rightarrow> string" where
  "show_nat n = (if n < 10 then [digit_char n] else show_nat (n div 10) @ [digit_char (n mod 10)])"

declare show_nat.simps [simp del]

definition show_int :: "int \<Rightarrow> string" where
  "show_int i = (if i < 0 then CHR ''-'' # show_nat (nat (- i)) else show_nat (nat i))"

text \<open>The digits at the start of a text: their value and the rest.\<close>

definition digits_value :: "string \<Rightarrow> nat" where
  "digits_value ds = foldl (\<lambda>a ch. a * 10 + the (digit_val ch)) 0 ds"

definition read_nat :: "string \<Rightarrow> (nat \<times> string) option" where
  "read_nat s =
     (let ds = takeWhile is_digit s in if ds = [] then None else Some (digits_value ds, dropWhile is_digit s))"

lemma digit_val_char [simp]: "d < 10 \<Longrightarrow> digit_val (digit_char d) = Some d"
proof -
  assume "d < 10"
  then have "of_char (digit_char d) = 48 + d"
    unfolding digit_char_def by (subst of_char_of) simp
  then show ?thesis using \<open>d < 10\<close> by (simp add: digit_val_def)
qed

lemma is_digit_char [simp]: "d < 10 \<Longrightarrow> is_digit (digit_char d)"
  by (simp add: is_digit_def)

lemma show_nat_digits: "\<forall>ch \<in> set (show_nat n). is_digit ch"
proof (induction n rule: show_nat.induct)
  case (1 n)
  then show ?case by (subst show_nat.simps) (auto split: if_splits)
qed

lemma show_nat_nonempty [simp]: "show_nat n \<noteq> []"
  by (subst show_nat.simps) simp

lemma digits_value_snoc: "digits_value (ds @ [ch]) = digits_value ds * 10 + the (digit_val ch)"
  by (simp add: digits_value_def)

lemma digits_value_show: "digits_value (show_nat n) = n"
proof (induction n rule: show_nat.induct)
  case (1 n)
  show ?case
  proof (cases "n < 10")
    case True
    then show ?thesis by (simp add: show_nat.simps [of n] digits_value_def)
  next
    case False
    then show ?thesis using 1 by (simp add: show_nat.simps [of n] digits_value_snoc)
  qed
qed

lemma digits_value_zero: "digits_value (CHR ''0'' # ds) = digits_value ds"
proof -
  have "digit_val CHR ''0'' = Some 0" by (simp add: digit_val_def)
  then show ?thesis by (simp add: digits_value_def)
qed

lemma read_digits:
  assumes "\<forall>ch \<in> set ds. is_digit ch" "ds \<noteq> []" "rest = [] \<or> \<not> is_digit (hd rest)"
  shows "read_nat (ds @ rest) = Some (digits_value ds, rest)"
proof -
  have "takeWhile is_digit (ds @ rest) = ds" "dropWhile is_digit (ds @ rest) = rest"
    using assms by (cases rest; simp add: takeWhile_append2 dropWhile_append2)+
  then show ?thesis using assms(2) by (simp add: read_nat_def)
qed

lemma read_show_nat:
  assumes "rest = [] \<or> \<not> is_digit (hd rest)"
  shows "read_nat (show_nat n @ rest) = Some (n, rest)"
  using read_digits [OF show_nat_digits show_nat_nonempty assms] by (simp add: digits_value_show)

end
