(* ===== verification/Visit_Stats.thy ===== *)
theory Visit_Stats
  imports Decimal "HOL-Library.Signed_Division"
begin

text \<open>
  \<^verbatim>\<open>VisitStats\<close> (\<^verbatim>\<open>src/logging/visit_stats.{h,cpp}\<close>): accesses per service and endpoint, counted in
  bins of 240 seconds.  The unordered map of a service is an association list; the mutex makes the
  operations atomic.
\<close>

section \<open>Model\<close>

type_synonym bins = "(int \<times> u64) list"

type_synonym visits = "(string \<times> (string \<times> bins) list) list"

definition delta :: int where "delta = 240"

definition current_bin :: "int \<Rightarrow> int" where
  "current_bin now = now sdiv delta * delta"

definition bump :: "int \<Rightarrow> bins \<Rightarrow> bins" where
  "bump curr_bin l =
     (if l = [] then [(curr_bin, 1)]
      else let (time, count) = last l
           in if curr_bin = time then butlast l @ [(time, count + 1)] else l @ [(curr_bin, 1)])"

definition add_access :: "string \<Rightarrow> string \<Rightarrow> int \<Rightarrow> visits \<Rightarrow> visits" where
  "add_access service endpoint now vs =
     map (\<lambda>(s, m). if s = service
                    then (s, AList.map_default endpoint (bump (current_bin now) []) (bump (current_bin now)) m)
                    else (s, m)) vs"

definition register_service :: "string \<Rightarrow> visits \<Rightarrow> visits" where
  "register_service service vs = vs @ [(service, [])]"

text \<open>\<^verbatim>\<open>(signed)end\<close> keeps the low 32 bits.\<close>

definition in_window :: "int \<Rightarrow> u64 \<Rightarrow> int \<Rightarrow> bool" where
  "in_window start end_bins time \<longleftrightarrow> start \<le> time \<and> time \<le> start + delta * size_to_int end_bins"

definition window_total :: "int \<Rightarrow> u64 \<Rightarrow> bins \<Rightarrow> u64" where
  "window_total start end_bins l = fold (\<lambda>(time, count) total. if in_window start end_bins time then total + count else total) l 0"

fun get_endpoint_stats :: "string \<Rightarrow> string \<Rightarrow> int \<Rightarrow> u64 \<Rightarrow> visits \<Rightarrow> u64" where
  "get_endpoint_stats service endpoint start end_bins [] = 0"
| "get_endpoint_stats service endpoint start end_bins ((s, m) # vs) =
     (if s = service
      then (case map_of m endpoint of
              Some l \<Rightarrow> window_total start end_bins l
            | None \<Rightarrow> get_endpoint_stats service endpoint start end_bins vs)
      else get_endpoint_stats service endpoint start end_bins vs)"

text \<open>\<^verbatim>\<open>ctime\<close> is the C library's; its result ends with a newline.\<close>

definition NL :: string where "NL = [char_of (10 :: nat)]"
definition TAB :: string where "TAB = [char_of (9 :: nat)]"

definition get_pretty_stats :: "(int \<Rightarrow> string) \<Rightarrow> string \<Rightarrow> visits \<Rightarrow> string" where
  "get_pretty_stats ctime service vs =
     concat (map (\<lambda>(s, m).
       if service = [] \<or> s = service
       then ''Service: '' @ s @ NL @
         concat (map (\<lambda>(endpoint, l).
           ''Accesses for: '' @ endpoint @ NL @
           concat (map (\<lambda>(time, count). TAB @ ''Time bin: '' @ ctime time @ TAB @ ''Count: '' @ show_nat (unat count) @ NL) l)) m)
       else []) vs)"

section \<open>Counting\<close>

lemma window_total_sum:
  "window_total st en l = (\<Sum>p \<leftarrow> l. if in_window st en (fst p) then snd p else 0)"
proof -
  have "fold (\<lambda>(time, count) total. if in_window st en time then total + count else total) l a =
      a + (\<Sum>p \<leftarrow> l. if in_window st en (fst p) then snd p else 0)" for a :: u64
    by (induction l arbitrary: a) (auto simp: add.assoc)
  then show ?thesis by (simp add: window_total_def)
qed

lemma window_total_bump:
  "window_total st en (bump b l) = window_total st en l + (if in_window st en b then 1 else 0)"
proof (cases l rule: rev_cases)
  case Nil
  then show ?thesis by (simp add: bump_def window_total_def)
next
  case (snoc ys y)
  then show ?thesis
    by (cases y) (auto simp: bump_def window_total_sum)
qed

text \<open>The bins of an endpoint, empty when it was never visited.\<close>

definition bins_at :: "string \<Rightarrow> string \<Rightarrow> visits \<Rightarrow> bins" where
  "bins_at service endpoint vs =
     (case map_of vs service of None \<Rightarrow> []
      | Some m \<Rightarrow> (case map_of m endpoint of None \<Rightarrow> [] | Some l \<Rightarrow> l))"

lemma stats_bins_at:
  "distinct (map fst vs) \<Longrightarrow>
     get_endpoint_stats service endpoint st en vs = window_total st en (bins_at service endpoint vs)"
proof (induction vs)
  case (Cons p vs)
  obtain s m where p: "p = (s, m)" by fastforce
  have "get_endpoint_stats service endpoint st en vs = 0" if "service \<notin> fst ` set vs"
    using that by (induction vs) auto
  then show ?case using Cons by (auto simp: p bins_at_def window_total_def split: option.split)
qed (simp add: bins_at_def window_total_def)

lemma map_fst_add_access [simp]: "map fst (add_access s e t vs) = map fst vs"
  by (simp add: add_access_def comp_def split_beta)

lemma map_of_add_access:
  "map_of (add_access s e t vs) service =
     (if service = s then map_option (AList.map_default e (bump (current_bin t) []) (bump (current_bin t))) (map_of vs service)
      else map_of vs service)"
  by (induction vs) (auto simp: add_access_def)

lemma bins_at_add_access:
  "bins_at service endpoint (add_access s e t vs) =
     (if s = service \<and> e = endpoint \<and> service \<in> fst ` set vs
      then bump (current_bin t) (bins_at service endpoint vs) else bins_at service endpoint vs)"
proof (cases "map_of vs service")
  case None
  then have n: "map_of (add_access s e t vs) service = None" by (auto simp only: map_of_add_access option.map split: if_splits)
  have "service \<notin> fst ` set vs" using None unfolding map_of_eq_None_iff .
  then show ?thesis unfolding bins_at_def None n by simp
next
  case (Some m)
  then have "service \<in> fst ` set vs" by (force dest: map_of_SomeD)
  then show ?thesis
    by (cases "service = s"; cases "map_of m endpoint")
      (use Some in \<open>auto simp: bins_at_def map_of_add_access map_of_map_default\<close>)
qed

section \<open>Properties\<close>

definition register_all :: "string list \<Rightarrow> visits" where
  "register_all services = fold register_service services []"

definition record_all :: "(string \<times> string \<times> int) list \<Rightarrow> visits \<Rightarrow> visits" where
  "record_all accs vs = fold (\<lambda>(s, e, t). add_access s e t) accs vs"

lemma register_all_fst: "map fst (register_all services) = services"
proof -
  have "map fst (fold register_service services vs) = map fst vs @ services" for vs
    by (induction services arbitrary: vs) (simp_all add: register_service_def)
  from this [of "[]"] show ?thesis by (simp add: register_all_def)
qed

lemma map_fst_record_all [simp]: "map fst (record_all accs vs) = map fst vs"
  by (induction accs arbitrary: vs) (auto simp: record_all_def split_beta)

text \<open>
  C34: For distinct registered services, the count reported for an endpoint and a window of
  time is the number of accesses recorded for that service and endpoint whose bin lies in the
  window, modulo \<open>2 ^ 64\<close>, whatever else was recorded in between and in whatever order.
\<close>

theorem stats_count_accesses:
  assumes "distinct services" "service \<in> set services"
  shows "get_endpoint_stats service endpoint start end_bins (record_all accs (register_all services)) =
    word_of_nat (length (filter (\<lambda>(s, e, t). s = service \<and> e = endpoint \<and> in_window start end_bins (current_bin t)) accs))"
proof -
  have total: "window_total start end_bins (bins_at service endpoint (record_all accs vs)) =
      window_total start end_bins (bins_at service endpoint vs) +
      word_of_nat (length (filter (\<lambda>(s, e, t). s = service \<and> e = endpoint \<and> in_window start end_bins (current_bin t)) accs))"
    if "service \<in> fst ` set vs" for vs
    using that
  proof (induction accs arbitrary: vs)
    case Nil
    then show ?case by (simp add: record_all_def)
  next
    case (Cons a accs)
    obtain s e t where a: "a = (s, e, t)" by (cases a) auto
    have "service \<in> fst ` set (add_access s e t vs)"
      using Cons.prems by (metis list.set_map map_fst_add_access)
    from Cons.IH [OF this] Cons.prems show ?case
      by (simp add: record_all_def a bins_at_add_access window_total_bump)
  qed
  have "service \<in> fst ` set (register_all services)" "bins_at service endpoint (register_all services) = []"
  proof -
    show "service \<in> fst ` set (register_all services)"
      using assms(2) register_all_fst by (metis list.set_map)
    have "\<forall>p \<in> set (fold register_service ss vs). snd p = [] \<or> p \<in> set vs" for ss vs
    proof (induction ss arbitrary: vs)
      case (Cons a ss)
      from Cons.IH [of "register_service a vs"] show ?case by (fastforce simp: register_service_def)
    qed simp
    then have "\<forall>p \<in> set (register_all services). snd p = []" by (fastforce simp: register_all_def)
    then show "bins_at service endpoint (register_all services) = []"
      by (force simp: bins_at_def split: option.split dest: map_of_SomeD)
  qed
  with total [of "register_all services"] show ?thesis
    using assms(1) by (simp add: stats_bins_at register_all_fst window_total_def)
qed

lemma stats_count_accesses_witness:
  "get_endpoint_stats ''a'' ''/x'' 240 1 (record_all [(''a'', ''/x'', 250), (''b'', ''/x'', 260), (''a'', ''/x'', 470), (''a'', ''/x'', 490), (''a'', ''/x'', 800)]
     (register_all [''a'', ''b''])) = 3"
proof -
  have "distinct [''a'', ''b'']" "''a'' \<in> set [''a'', ''b'']" by simp_all
  moreover have "length (filter (\<lambda>(s, e, t). s = ''a'' \<and> e = ''/x'' \<and> in_window 240 1 (current_bin t))
      [(''a'', ''/x'', 250), (''b'', ''/x'', 260), (''a'', ''/x'', 470), (''a'', ''/x'', 490), (''a'', ''/x'', 800)]) = 3"
    by code_simp
  ultimately show ?thesis using stats_count_accesses [of "[''a'', ''b'']" "''a''" "''/x''" 240 1] by simp
qed

end
