(* ===== verification/Http_Manager.thy ===== *)
theory Http_Manager
  imports App_Types Visit_Stats "HOL-Library.Sublist"
begin

text \<open>
  \<^verbatim>\<open>HTTPManager\<close> (\<^verbatim>\<open>src/common/http_manager.{h,cpp,t.cpp}\<close>): dynamic endpoints and files below a
  base directory, with the visit statistics of each served target.

  The file system is a parameter \<open>fs\<close>: whether a path is a directory, its canonical form (none:
  \<^verbatim>\<open>fs::canonical\<close> throws), whether it exists, and the content an input stream reads (none: the
  stream does not open).  \<open>prepare_payload\<close> of Boost.Beast is a parameter \<open>bl\<close>.
\<close>

section \<open>Model\<close>

record filesys =
  fs_is_directory :: "string \<Rightarrow> bool"
  fs_canonical :: "string \<Rightarrow> string option"
  fs_exists :: "string \<Rightarrow> bool"
  fs_content :: "string \<Rightarrow> string option"

text \<open>A handler is a closure; \<open>'g\<close> is the program state it reads when it runs.\<close>

type_synonym 'g handler = "'g \<Rightarrow> http_request \<Rightarrow> http_response"

record 'g http_manager =
  service :: string
  base_path :: string
  handlers :: "(string \<times> (verb \<times> 'g handler) list) list"

text \<open>\<^verbatim>\<open>fs::path::operator/=\<close> on POSIX: an absolute operand replaces the path, otherwise a separator
  is put in when the path has a file name.\<close>

definition path_append :: "string \<Rightarrow> string \<Rightarrow> string" where
  "path_append p q =
     (if q \<noteq> [] \<and> hd q = CHR ''/'' then q
      else if p = [] \<or> last p = CHR ''/'' then p @ q
      else p @ ''/'' @ q)"

text \<open>Constructor; \<^verbatim>\<open>register_service\<close> changes the statistics.\<close>

definition manager_new ::
  "filesys \<Rightarrow> string \<Rightarrow> string \<Rightarrow> visits \<Rightarrow> ('g http_manager \<times> visits) result"
where
  "manager_new fs base_dir name vs =
     (case fs_canonical fs base_dir of
        None \<Rightarrow> Inl (Runtime_Error ''filesystem error'')
      | Some b \<Rightarrow> let svc = b @ '':'' @ name
                  in Inr (\<lparr>service = svc, base_path = b, handlers = []\<rparr>, register_service svc vs))"

definition add_endpoint :: "string \<Rightarrow> 'g handler \<Rightarrow> verb \<Rightarrow> 'g http_manager \<Rightarrow> 'g http_manager" where
  "add_endpoint endpoint h v m =
     m\<lparr>handlers := AList.map_default endpoint [(v, h)] (AList.update v h) (handlers m)\<rparr>"

definition remove_endpoint :: "string \<Rightarrow> 'g http_manager \<Rightarrow> bool \<times> 'g http_manager" where
  "remove_endpoint endpoint m =
     (map_of (handlers m) endpoint \<noteq> None, m\<lparr>handlers := AList.delete endpoint (handlers m)\<rparr>)"

definition prepare_response ::
  "beast \<Rightarrow> (string \<times> string) list \<Rightarrow> http_status \<Rightarrow> string \<Rightarrow> nat \<Rightarrow> http_response"
where
  "prepare_response bl headers stat body version =
     prepare_payload bl \<lparr>res_status = stat, res_version = version,
           res_fields = fold (\<lambda>(f, v). fields_set bl f v) headers [], res_body = body\<rparr>"

text \<open>\<^verbatim>\<open>assure_path\<close>: the only checks of a path are these two on the canonical text.\<close>

definition assure_path :: "filesys \<Rightarrow> 'g http_manager \<Rightarrow> string \<Rightarrow> string result" where
  "assure_path fs m target =
     (let p0 = path_append (base_path m) (if target \<noteq> [] \<and> hd target = CHR ''/'' then tl target else target);
          p1 = (if fs_is_directory fs p0 then path_append p0 ''index.html'' else p0)
      in case fs_canonical fs p1 of
           None \<Rightarrow> Inl (Runtime_Error ''filesystem error'')
         | Some canonical \<Rightarrow>
             if length canonical < length (base_path m) \<or> take (length (base_path m)) canonical \<noteq> base_path m
             then Inl (Runtime_Error ''Invalid path accessed'')
             else Inr canonical)"

text \<open>The part of a target before the first question mark.\<close>

definition strip_query :: "string \<Rightarrow> string" where
  "strip_query target = takeWhile (\<lambda>ch. ch \<noteq> CHR ''?'') target"

definition endpoint_serviceable :: "filesys \<Rightarrow> 'g http_manager \<Rightarrow> string \<Rightarrow> bool" where
  "endpoint_serviceable fs m endpoint =
     (let e = strip_query endpoint
      in map_of (handlers m) e \<noteq> None \<or>
         (case assure_path fs m e of Inl _ \<Rightarrow> False | Inr p \<Rightarrow> fs_exists fs p))"

text \<open>\<^verbatim>\<open>path.extension()\<close>: from the last dot of the file name, unless it starts the name or the name
  is dot-dot.\<close>

definition path_filename :: "string \<Rightarrow> string" where
  "path_filename p = rev (takeWhile (\<lambda>ch. ch \<noteq> CHR ''/'') (rev p))"

definition path_extension :: "string \<Rightarrow> string" where
  "path_extension p =
     (let f = path_filename p;
          ext = rev (takeWhile (\<lambda>ch. ch \<noteq> CHR ''.'') (rev f))
      in if CHR ''.'' \<notin> set f \<or> length ext + 1 = length f \<or> f = ''..'' then [] else CHR ''.'' # ext)"

definition get_mime_type :: "string \<Rightarrow> string" where
  "get_mime_type p =
     (let ext = path_extension p in
      if ext = ''.html'' \<or> ext = ''.htm'' then ''text/html''
      else if ext = ''.css'' then ''text/css''
      else if ext = ''.js'' then ''application/javascript''
      else if ext = ''.json'' then ''application/json''
      else if ext = ''.png'' then ''image/png''
      else if ext = ''.jpg'' \<or> ext = ''.jpeg'' then ''image/jpeg''
      else if ext = ''.gif'' then ''image/gif''
      else if ext = ''.svg'' then ''image/svg+xml''
      else if ext = ''.txt'' then ''text/plain''
      else if ext = ''.pdf'' then ''application/pdf''
      else ''application/octet-stream'')"

definition get_response_headers :: "beast \<Rightarrow> http_request \<Rightarrow> (string \<times> string) list" where
  "get_response_headers bl req =
     (''Server'', ''AIO-Landing'') #
     (case fields_find bl ''Connection'' (req_fields req) of None \<Rightarrow> [] | Some v \<Rightarrow> [(''Connection'', v)])"

definition error_response ::
  "beast \<Rightarrow> http_request \<Rightarrow> http_status \<Rightarrow> string \<Rightarrow> http_response"
where
  "error_response bl req stat message =
     prepare_response bl (get_response_headers bl req @ [(''Content-Type'', ''text/plain'')]) stat message 11"

text \<open>\<^verbatim>\<open>handle_request\<close> for a string body (for other bodies an endpoint throws); \<open>now\<close> is the system
  clock that \<^verbatim>\<open>add_access\<close> reads.\<close>

definition handle_request ::
  "filesys \<Rightarrow> beast \<Rightarrow> int \<Rightarrow> 'g \<Rightarrow> 'g http_manager \<Rightarrow> http_request \<Rightarrow> visits \<Rightarrow>
    http_response \<times> visits"
where
  "handle_request fs bl now g m req vs =
     (let target = strip_query (req_target req)
      in case map_of (handlers m) target of
           Some verbs \<Rightarrow>
             let vs' = add_access (service m) target now vs
             in (case map_of verbs (req_method req) of
                   Some h \<Rightarrow> (h g req, vs')
                 | None \<Rightarrow> (prepare_response bl (get_response_headers bl req) Method_Not_Allowed [] 11, vs'))
         | None \<Rightarrow>
             (case assure_path fs m target of
                Inl _ \<Rightarrow> (error_response bl req Not_Found ''Not Found'', vs)
              | Inr path \<Rightarrow>
                  (case fs_content fs path of
                     Some content \<Rightarrow>
                       (prepare_response bl (get_response_headers bl req @ [(''Content-Type'', get_mime_type path)])
                          Ok content 11,
                        add_access (service m) path now vs)
                   | None \<Rightarrow> (error_response bl req Not_Found ''Not Found'', vs))))"

text \<open>\<^verbatim>\<open>handle_request_with_pred\<close>: the predicate may answer itself, or clear \<^verbatim>\<open>skip\<close> to say that the
  caller handles the request.\<close>

definition handle_request_with_pred ::
  "filesys \<Rightarrow> beast \<Rightarrow> int \<Rightarrow> 'g \<Rightarrow> 'g http_manager \<Rightarrow> http_request \<Rightarrow>
    (http_request \<Rightarrow> bool \<Rightarrow> http_response option \<times> bool) \<Rightarrow> visits \<Rightarrow> http_response option \<times> visits"
where
  "handle_request_with_pred fs bl now g m req pred vs =
     (let (resp, skip) = pred req True
      in if resp \<noteq> None \<or> (resp = None \<and> \<not> skip) then (resp, vs)
         else let (r, vs') = handle_request fs bl now g m req vs in (Some r, vs'))"

section \<open>Endpoints\<close>

text \<open>The endpoint table as a dictionary from path and verb to handler.\<close>

locale endpoint_table =
  fixes insert_ep :: "'p \<Rightarrow> 'h \<Rightarrow> 'v \<Rightarrow> 't \<Rightarrow> 't"
    and remove_ep :: "'p \<Rightarrow> 't \<Rightarrow> 't"
    and lookup_ep :: "'t \<Rightarrow> 'p \<Rightarrow> 'v \<Rightarrow> 'h option"
  assumes lookup_insert: "lookup_ep (insert_ep p h v t) p' v' = (if p' = p \<and> v' = v then Some h else lookup_ep t p' v')"
    and lookup_remove: "lookup_ep (remove_ep p t) p' v' = (if p' = p then None else lookup_ep t p' v')"
begin

text \<open>The last registration of a path and verb is the one that counts.\<close>

lemma lookup_inserts:
  "lookup_ep (fold (\<lambda>(p, h, v). insert_ep p h v) eps t) p' v' =
     (case find (\<lambda>(p, h, v). p = p' \<and> v = v') (rev eps) of Some (p, h, v) \<Rightarrow> Some h | None \<Rightarrow> lookup_ep t p' v')"
proof (induction eps rule: rev_induct)
  case Nil
  then show ?case by simp
next
  case (snoc e eps)
  then show ?case by (cases e) (auto simp: lookup_insert)
qed

end

definition find_handler :: "'g http_manager \<Rightarrow> string \<Rightarrow> verb \<Rightarrow> 'g handler option" where
  "find_handler m p v = Option.bind (map_of (handlers m) p) (\<lambda>vs. map_of vs v)"

lemma map_of_delete: "map_of (AList.delete k xs) = (map_of xs)(k := None)"
  by (simp add: AList.delete_conv')

interpretation endpoints: endpoint_table add_endpoint "\<lambda>p m. snd (remove_endpoint p m)" find_handler
proof
  fix p h v m p' v'
  show "find_handler (add_endpoint p h v m) p' v' = (if p' = p \<and> v' = v then Some h else find_handler m p' v')"
    by (cases "map_of (handlers m) p")
      (auto simp: find_handler_def add_endpoint_def map_of_map_default update_conv')
  show "find_handler (snd (remove_endpoint p m)) p' v' = (if p' = p then None else find_handler m p' v')"
    by (simp add: find_handler_def remove_endpoint_def map_of_delete)
qed

section \<open>Properties\<close>

lemma assure_path_Inr:
  assumes "assure_path fs m target = Inr path"
  shows "prefix (base_path m) path \<and> (\<exists>raw. fs_canonical fs raw = Some path)"
  using assms
  by (auto simp: assure_path_def Let_def split: option.splits if_splits)
    (metis append_take_drop_id prefixI)+

text \<open>The response to a file that was read.\<close>

definition file_response ::
  "beast \<Rightarrow> http_request \<Rightarrow> string \<Rightarrow> string \<Rightarrow> http_response"
where
  "file_response bl req path content =
     prepare_response bl (get_response_headers bl req @ [(''Content-Type'', get_mime_type path)]) Ok content 11"

text \<open>
  C31: A request for a target that is no endpoint is either answered "404 Not Found" without a
  trace in the statistics, or with the content of a file whose canonical path begins with the base
  path, and the access is recorded under that path.
\<close>

theorem file_requests_confined:
  assumes "map_of (handlers m) (strip_query (req_target req)) = None"
  shows "handle_request fs bl now g m req vs = (error_response bl req Not_Found ''Not Found'', vs) \<or>
    (\<exists>path content. prefix (base_path m) path \<and> (\<exists>raw. fs_canonical fs raw = Some path) \<and>
       fs_content fs path = Some content \<and>
       handle_request fs bl now g m req vs =
         (file_response bl req path content, add_access (service m) path now vs))"
proof (cases "assure_path fs m (strip_query (req_target req))")
  case (Inl e)
  then show ?thesis using assms by (simp add: handle_request_def)
next
  case (Inr path)
  from assure_path_Inr [OF this] Inr assms show ?thesis
    by (cases "fs_content fs path") (auto simp: handle_request_def file_response_def)
qed

text \<open>A small file system: one page below the base directory, one file in a directory beside it.\<close>

definition demo_fs :: filesys where
  "demo_fs = \<lparr>fs_is_directory = (\<lambda>p. p = ''/srv/landing/''),
     fs_canonical = (\<lambda>p. if p = ''/srv/landing/index.html'' then Some p
        else if p = ''/srv/landing/../landing2/key'' then Some ''/srv/landing2/key'' else None),
     fs_exists = (\<lambda>p. p \<in> {''/srv/landing/index.html'', ''/srv/landing2/key''}),
     fs_content = (\<lambda>p. if p = ''/srv/landing/index.html'' then Some ''hello''
        else if p = ''/srv/landing2/key'' then Some ''secret'' else None)\<rparr>"

definition demo_manager :: "unit http_manager" where
  "demo_manager = \<lparr>service = ''/srv/landing:http'', base_path = ''/srv/landing'', handlers = []\<rparr>"

definition demo_get :: "string \<Rightarrow> http_request" where
  "demo_get target = \<lparr>req_method = Get, req_target = target, req_version = 11, req_fields = [], req_body = []\<rparr>"

lemma file_requests_confined_witness:
  "fst (handle_request demo_fs list_beast 0 () demo_manager (demo_get ''/'') []) = file_response list_beast (demo_get ''/'') ''/srv/landing/index.html'' ''hello'' \<and>
   (handle_request demo_fs list_beast 0 () demo_manager (demo_get ''/'') [] = (error_response list_beast (demo_get ''/'') Not_Found ''Not Found'', []) \<or>
    (\<exists>path content. prefix ''/srv/landing'' path \<and> fs_content demo_fs path = Some content \<and>
       handle_request demo_fs list_beast 0 () demo_manager (demo_get ''/'') [] =
         (file_response list_beast (demo_get ''/'') path content, add_access ''/srv/landing:http'' path 0 [])))"
proof (rule conjI)
  show "fst (handle_request demo_fs list_beast 0 () demo_manager (demo_get ''/'') []) =
      file_response list_beast (demo_get ''/'') ''/srv/landing/index.html'' ''hello''"
    by (simp add: handle_request_def demo_fs_def demo_manager_def demo_get_def assure_path_def strip_query_def
        path_append_def file_response_def)
  have "map_of (handlers demo_manager) (strip_query (req_target (demo_get ''/''))) = None"
    by (simp add: demo_manager_def)
  from file_requests_confined [OF this, of demo_fs list_beast 0 "()" "[]"]
  show "handle_request demo_fs list_beast 0 () demo_manager (demo_get ''/'') [] = (error_response list_beast (demo_get ''/'') Not_Found ''Not Found'', []) \<or>
    (\<exists>path content. prefix ''/srv/landing'' path \<and> fs_content demo_fs path = Some content \<and>
       handle_request demo_fs list_beast 0 () demo_manager (demo_get ''/'') [] =
         (file_response list_beast (demo_get ''/'') path content, add_access ''/srv/landing:http'' path 0 []))"
    by (auto simp: demo_manager_def)
qed

text \<open>
  The test of a canonical path compares characters, not path components: a file in a
  directory beside the base directory whose name merely starts like it is served as well.
\<close>

theorem sibling_directory_served:
  assumes "map_of (handlers m) (strip_query (req_target req)) = None"
    and "strip_query (req_target req) = CHR ''/'' # rel" "raw = path_append (base_path m) rel"
    and "\<not> fs_is_directory fs raw" "fs_canonical fs raw = Some (base_path m @ ch # sfx)" "ch \<noteq> CHR ''/''"
    and "fs_content fs (base_path m @ ch # sfx) = Some content"
  shows "fst (handle_request fs bl now g m req vs) = file_response bl req (base_path m @ ch # sfx) content"
  using assms by (simp add: handle_request_def assure_path_def file_response_def)

lemma sibling_directory_served_witness:
  "res_body (fst (handle_request demo_fs list_beast 0 () demo_manager (demo_get ''/../landing2/key'') [])) = ''secret''"
proof -
  have "fst (handle_request demo_fs list_beast 0 () demo_manager (demo_get ''/../landing2/key'') []) =
      file_response list_beast (demo_get ''/../landing2/key'') (base_path demo_manager @ CHR ''2'' # ''/key'') ''secret''"
    by (rule sibling_directory_served [where rel = "''../landing2/key''" and raw = "''/srv/landing/../landing2/key''"])
      (simp_all add: demo_fs_def demo_manager_def demo_get_def strip_query_def path_append_def)
  then show ?thesis by (simp add: file_response_def prepare_response_def list_beast_def)
qed

text \<open>Dispatch by the endpoint table.\<close>

lemma handle_request_endpoint:
  assumes "strip_query (req_target req) = p" "m' = fold (\<lambda>(p, h, v). add_endpoint p h v) eps m"
    and "p \<in> fst ` set eps" "handlers m = []"
  shows "handle_request fs bl now g m' req vs =
    ((case find (\<lambda>(q, h, v). q = p \<and> v = req_method req) (rev eps) of
        Some (_, h, _) \<Rightarrow> h g req
      | None \<Rightarrow> prepare_response bl (get_response_headers bl req) Method_Not_Allowed [] 11),
     add_access (service m) p now vs)"
proof -
  have reg: "map_of (handlers (fold (\<lambda>(p, h, v). add_endpoint p h v) eps m)) p \<noteq> None"
    if "p \<in> fst ` set eps \<or> map_of (handlers m) p \<noteq> None" for m
    using that
  proof (induction eps arbitrary: m)
    case (Cons e eps)
    obtain q h v where e: "e = (q, h, v)" by (cases e)
    have "map_of (handlers (add_endpoint q h v m)) p \<noteq> None" if "q = p \<or> map_of (handlers m) p \<noteq> None"
      using that by (auto simp: add_endpoint_def map_of_map_default split: option.split)
    then have "p \<in> fst ` set eps \<or> map_of (handlers (add_endpoint q h v m)) p \<noteq> None"
      using Cons.prems e by auto
    from Cons.IH [OF this] show ?case by (simp add: e)
  qed simp
  have same: "service (fold (\<lambda>(p, h, v). add_endpoint p h v) eps m) = service m" for m
    by (induction eps arbitrary: m) (auto simp: add_endpoint_def)
  obtain verbs where v: "map_of (handlers m') p = Some verbs" using reg assms(2,3) by auto
  have "find_handler m p (req_method req) = None" using assms(4) by (simp add: find_handler_def)
  then have "map_of verbs (req_method req) =
      map_option (\<lambda>(_, h, _). h) (find (\<lambda>(q, h, v). q = p \<and> v = req_method req) (rev eps))"
    using endpoints.lookup_inserts [of eps m p "req_method req"] v assms(2)
    by (auto simp: find_handler_def split: option.splits)
  then show ?thesis
    using assms(1,2) v same [of m] by (auto simp: handle_request_def Let_def split: option.splits)
qed

text \<open>
  A request for a registered endpoint, with or without a query, runs the handler
  registered last for that path and method and records one access; for another method it is
  answered "405 Method Not Allowed", also recorded.
\<close>

theorem endpoint_dispatch:
  assumes "strip_query (req_target req) = p" "m' = fold (\<lambda>(p, h, v). add_endpoint p h v) eps m"
    and "p \<in> fst ` set eps" "handlers m = []"
  shows "handle_request fs bl now g m' req vs =
    ((case find (\<lambda>(q, h, v). q = p \<and> v = req_method req) (rev eps) of
        Some (_, h, _) \<Rightarrow> h g req
      | None \<Rightarrow> prepare_response bl (get_response_headers bl req) Method_Not_Allowed [] 11),
     add_access (service m) p now vs)"
  by (rule handle_request_endpoint [OF assms])

lemma endpoint_dispatch_witness:
  "handle_request demo_fs list_beast 500 () (fold (\<lambda>(p, h, v). add_endpoint p h v)
      [(''/mode'', \<lambda>g req. prepare_response list_beast [] Ok ''heat'' (req_version req), Get)] demo_manager)
     (demo_get ''/mode?x=1'') [(''/srv/landing:http'', [])] =
   (prepare_response list_beast [] Ok ''heat'' 11, [(''/srv/landing:http'', [(''/mode'', [(480, 1)])])])"
proof -
  let ?eps = "[(''/mode'', \<lambda>g req. prepare_response list_beast [] Ok ''heat'' (req_version req), Get)]"
  have "strip_query (req_target (demo_get ''/mode?x=1'')) = ''/mode''"
    by (simp add: demo_get_def strip_query_def)
  moreover have "add_access ''/srv/landing:http'' ''/mode'' 500 [(''/srv/landing:http'', [])] =
      [(''/srv/landing:http'', [(''/mode'', [(480, 1)])])]" by code_simp
  ultimately show ?thesis
    using endpoint_dispatch [of "demo_get ''/mode?x=1''" "''/mode''" _ ?eps demo_manager demo_fs list_beast 500 "()" "[(''/srv/landing:http'', [])]", OF _ refl]
    by (simp add: demo_manager_def demo_get_def)
qed

end
