(* ===== verification/S40.thy ===== *)
theory S40
  imports App_Types
begin

text \<open>
  \<^verbatim>\<open>S40Client\<close> (\<^verbatim>\<open>src/aio_landing/s40_client.{h,cpp}\<close>): polls a thermostat and publishes the last
  readings for the landing page.

  The connection is a script: how setting it up goes, and the reply to each request, in order (none:
  writing or reading throws; a script that has run out throws, too).  Boost.JSON is the parameter
  \<open>js\<close> with what the program asks of a value.  Headers of the requests are left out.
\<close>

section \<open>Model\<close>

record 'j json_lib =
  js_parse :: "string \<Rightarrow> 'j option"
  js_is_object :: "'j \<Rightarrow> bool"
  js_get :: "'j \<Rightarrow> string \<Rightarrow> 'j option"
  js_array :: "'j \<Rightarrow> 'j list option"
  js_int :: "'j \<Rightarrow> int option"
  js_bool :: "'j \<Rightarrow> bool option"
  js_string :: "'j \<Rightarrow> string option"
  js_object_of :: "(string \<times> 'j) list \<Rightarrow> 'j"
  js_string_of :: "string \<Rightarrow> 'j"
  js_serialize :: "'j \<Rightarrow> string"

record zone_data =
  zd_temperature :: int
  zd_setpoint :: int
  zd_humidity :: int
  zd_fan :: bool
  zd_mode :: string
  zd_valid :: bool

definition zone0 :: zone_data where
  "zone0 = \<lparr>zd_temperature = 0, zd_setpoint = 0, zd_humidity = 0, zd_fan = False, zd_mode = [], zd_valid = False\<rparr>"

record s40_client =
  s_temperature :: int
  s_setpoint :: int
  s_humidity :: int
  s_fan :: bool
  s_mode :: string
  s_data_valid :: bool

definition s40_new :: s40_client where
  "s40_new = \<lparr>s_temperature = 0, s_setpoint = 0, s_humidity = 0, s_fan = False, s_mode = [], s_data_valid = False\<rparr>"

definition client_id :: string where "client_id = ''simple_zone_requester_cpp''"

text \<open>The parts of a reading: a value of the wrong kind throws and leaves what was read before.\<close>

datatype 'a attempt = Threw 'a | Read_Ok 'a

primrec and_then :: "'a attempt \<Rightarrow> ('a \<Rightarrow> 'a attempt) \<Rightarrow> 'a attempt" where
  "and_then (Threw a) f = Threw a"
| "and_then (Read_Ok a) f = f a"

definition read_field ::
  "('j \<Rightarrow> string \<Rightarrow> 'j option) \<Rightarrow> ('j \<Rightarrow> 'v option) \<Rightarrow> string \<Rightarrow> ('v \<Rightarrow> zone_data \<Rightarrow> zone_data) \<Rightarrow>
    'j \<Rightarrow> zone_data \<Rightarrow> zone_data attempt"
where
  "read_field get conv name upd st z =
     (case get st name of
        None \<Rightarrow> Read_Ok z
      | Some v \<Rightarrow> (case conv v of None \<Rightarrow> Threw z | Some x \<Rightarrow> Read_Ok ((upd x z)\<lparr>zd_valid := True\<rparr>)))"

text \<open>\<^verbatim>\<open>contains(name)\<close> and \<^verbatim>\<open>is_object()\<close>.\<close>

definition get_object :: "'j json_lib \<Rightarrow> 'j \<Rightarrow> string \<Rightarrow> 'j option" where
  "get_object js v name = (case js_get js v name of None \<Rightarrow> None | Some o' \<Rightarrow> if js_is_object js o' then Some o' else None)"

definition read_status :: "'j json_lib \<Rightarrow> 'j \<Rightarrow> zone_data \<Rightarrow> zone_data attempt" where
  "read_status js st z =
     and_then (read_field (js_get js) (js_int js) ''temperature'' (\<lambda>x z. z\<lparr>zd_temperature := x\<rparr>) st z) (\<lambda>z.
     and_then (read_field (js_get js) (js_int js) ''humidity'' (\<lambda>x z. z\<lparr>zd_humidity := x\<rparr>) st z) (\<lambda>z.
     and_then (read_field (js_get js) (js_bool js) ''fan'' (\<lambda>x z. z\<lparr>zd_fan := x\<rparr>) st z) (\<lambda>z.
       case get_object js st ''period'' of
         None \<Rightarrow> Read_Ok z
       | Some p \<Rightarrow>
           and_then (read_field (js_get js) (js_string js) ''systemMode'' (\<lambda>x z. z\<lparr>zd_mode := x\<rparr>) p z)
             (\<lambda>z. read_field (js_get js) (js_int js) ''sp'' (\<lambda>x z. z\<lparr>zd_setpoint := x\<rparr>) p z))))"

text \<open>One message: go on with the next, \<^verbatim>\<open>goto finished\<close>, or an exception.\<close>

datatype message_result = Next zone_data | Finish zone_data | Abort zone_data

definition read_message :: "'j json_lib \<Rightarrow> 'j \<Rightarrow> zone_data \<Rightarrow> message_result" where
  "read_message js msg z =
     (if \<not> js_is_object js msg then Next z
      else case get_object js msg ''Data'' of
        None \<Rightarrow> Next z
      | Some d \<Rightarrow>
          (case Option.bind (js_get js d ''zones'') (js_array js) of
             None \<Rightarrow> Next z
           | Some [] \<Rightarrow> Next z
           | Some (z0 # _) \<Rightarrow>
               if \<not> js_is_object js z0 then Abort z
               else (case get_object js z0 ''status'' of
                   None \<Rightarrow> Next z
                 | Some st \<Rightarrow> (case read_status js st z of
                       Threw z' \<Rightarrow> Abort z'
                     | Read_Ok z' \<Rightarrow> if zd_valid z' then Finish z' else Next z'))))"

text \<open>The messages of a reply: whether reading is finished, and the data so far.\<close>

fun read_messages :: "'j json_lib \<Rightarrow> 'j list \<Rightarrow> zone_data \<Rightarrow> bool \<times> zone_data" where
  "read_messages js [] z = (False, z)"
| "read_messages js (msg # msgs) z =
     (case read_message js msg z of
        Abort z' \<Rightarrow> (False, z') | Finish z' \<Rightarrow> (True, z') | Next z' \<Rightarrow> read_messages js msgs z')"

definition read_reply :: "'j json_lib \<Rightarrow> string \<Rightarrow> zone_data \<Rightarrow> bool \<times> zone_data" where
  "read_reply js body z =
     (case js_parse js body of
        None \<Rightarrow> (False, z)
      | Some jv \<Rightarrow>
          if \<not> js_is_object js jv then (False, z)
          else (case Option.bind (js_get js jv ''messages'') (js_array js) of
              None \<Rightarrow> (False, z)
            | Some msgs \<Rightarrow> read_messages js msgs z))"

datatype conn_setup = Setup_Throws | Setup_No_Host_Name | Setup_Ok

type_synonym s40_reply = "(http_status \<times> string) option"

type_synonym s40_request = "verb \<times> string \<times> string"

definition connect_req :: s40_request where
  "connect_req = (Post, ''/Endpoints/'' @ client_id @ ''/Connect'', [])"

definition request_data_req :: "'j json_lib \<Rightarrow> s40_request" where
  "request_data_req js = (Post, ''/Messages/RequestData'',
     js_serialize js (js_object_of js
       [(''MessageId'', js_string_of js ''1''), (''MessageType'', js_string_of js ''RequestData''),
        (''SenderId'', js_string_of js client_id), (''TargetId'', js_string_of js ''LCC''),
        (''AdditionalParameters'', js_object_of js [(''JSONPath'', js_string_of js ''1;/zones'')])]))"

definition retrieve_req :: s40_request where
  "retrieve_req = (Get, ''/Messages/'' @ client_id @ ''/Retrieve'', [])"

definition disconnect_req :: s40_request where
  "disconnect_req = (Post, ''/Endpoints/'' @ client_id @ ''/Disconnect'', [])"

text \<open>The poll loop: the data, the requests sent, and whether it was left by an exception.\<close>

fun poll_loop :: "'j json_lib \<Rightarrow> nat \<Rightarrow> s40_reply list \<Rightarrow> zone_data \<Rightarrow> zone_data \<times> s40_request list \<times> bool" where
  "poll_loop js 0 replies z = (z, [], False)"
| "poll_loop js (Suc n) replies z =
     (case replies of
        Some (st, body) # replies' \<Rightarrow>
          (let (finished, z') = (if st = Ok then read_reply js body z else (False, z)) in
           if finished then (z', [retrieve_req], False)
           else let (z'', reqs, thrown) = poll_loop js n replies' z' in (z'', retrieve_req # reqs, thrown))
      | _ \<Rightarrow> (z, [retrieve_req], True))"

definition MAX_POLLS :: nat where "MAX_POLLS = 60"

text \<open>\<^verbatim>\<open>fetch_data\<close>: the data and the requests sent.\<close>

fun fetch_data :: "'j json_lib \<Rightarrow> conn_setup \<Rightarrow> s40_reply list \<Rightarrow> zone_data \<times> s40_request list" where
  "fetch_data js Setup_Throws replies = (zone0, [])"
| "fetch_data js Setup_No_Host_Name replies = (zone0, [])"
| "fetch_data js Setup_Ok replies =
     (case replies of
        Some (st1, _) # replies1 \<Rightarrow>
          if st1 \<noteq> Ok \<and> st1 \<noteq> No_Content then (zone0, [connect_req])
          else (case replies1 of
              Some (st2, _) # replies2 \<Rightarrow>
                if st2 \<noteq> Ok \<and> st2 \<noteq> No_Content then (zone0, [connect_req, request_data_req js])
                else let (z, reqs, thrown) = poll_loop js MAX_POLLS replies2 zone0
                     in (z, [connect_req, request_data_req js] @ reqs @ (if thrown then [] else [disconnect_req]))
            | _ \<Rightarrow> (zone0, [connect_req, request_data_req js]))
      | _ \<Rightarrow> (zone0, [connect_req]))"

text \<open>One turn of \<^verbatim>\<open>loop\<close>.\<close>

definition s40_update :: "zone_data \<Rightarrow> s40_client \<Rightarrow> s40_client" where
  "s40_update z s =
     (if zd_valid z
      then s\<lparr>s_temperature := zd_temperature z, s_setpoint := zd_setpoint z, s_humidity := zd_humidity z,
             s_fan := zd_fan z, s_mode := zd_mode z, s_data_valid := True\<rparr>
      else s)"

definition s40_turn :: "'j json_lib \<Rightarrow> conn_setup \<Rightarrow> s40_reply list \<Rightarrow> s40_client \<Rightarrow> s40_client" where
  "s40_turn js su replies s = s40_update (fst (fetch_data js su replies)) s"

section \<open>Properties\<close>

text \<open>A script with some replies, as values: a reply is an object, an array, a number, a text or a truth value.\<close>

datatype demo_json =
    JObject "(string \<times> demo_json) list" | JArray "demo_json list" | JInt int | JString string | JBool bool

definition demo_js :: "(string \<Rightarrow> demo_json option) \<Rightarrow> demo_json json_lib" where
  "demo_js parse = \<lparr>js_parse = parse, js_is_object = (\<lambda>v. case v of JObject _ \<Rightarrow> True | _ \<Rightarrow> False),
     js_get = (\<lambda>v n. case v of JObject fs \<Rightarrow> map_of fs n | _ \<Rightarrow> None),
     js_array = (\<lambda>v. case v of JArray vs \<Rightarrow> Some vs | _ \<Rightarrow> None),
     js_int = (\<lambda>v. case v of JInt i \<Rightarrow> Some i | _ \<Rightarrow> None),
     js_bool = (\<lambda>v. case v of JBool b \<Rightarrow> Some b | _ \<Rightarrow> None),
     js_string = (\<lambda>v. case v of JString s \<Rightarrow> Some s | _ \<Rightarrow> None),
     js_object_of = JObject, js_string_of = JString, js_serialize = (\<lambda>v. [])\<rparr>"



text \<open>The status object a reply carries in its first message.\<close>

definition carries_status :: "'j json_lib \<Rightarrow> string \<Rightarrow> 'j \<Rightarrow> bool" where
  "carries_status js body st \<longleftrightarrow>
     (\<exists>jv msgs msg d z0. js_parse js body = Some jv \<and> js_is_object js jv \<and>
        Option.bind (js_get js jv ''messages'') (js_array js) = Some (msg # msgs) \<and> js_is_object js msg \<and>
        get_object js msg ''Data'' = Some d \<and>
        (\<exists>zs. Option.bind (js_get js d ''zones'') (js_array js) = Some (z0 # zs)) \<and>
        js_is_object js z0 \<and> get_object js z0 ''status'' = Some st)"

lemma read_reply_status:
  assumes "carries_status js body st"
  shows "read_reply js body z = (case read_status js st z of Threw z' \<Rightarrow> (False, z')
      | Read_Ok z' \<Rightarrow> if zd_valid z' then (True, z') else read_reply js body z)"
    "read_status js st z = Threw z' \<Longrightarrow> read_reply js body z = (False, z')"
  using assms by (auto simp: carries_status_def read_reply_def read_message_def split: attempt.split)

text \<open>
  When the polls bring nothing for a while and then a complete status, within the 60
  polls, exactly its readings are published.
\<close>

theorem status_published:
  assumes "carries_status js body st" "js_get js st ''temperature'' = Some vt" "js_int js vt = Some t"
    and "js_get js st ''humidity'' = Some vh" "js_int js vh = Some h"
    and "js_get js st ''fan'' = Some vf" "js_bool js vf = Some f"
    and "get_object js st ''period'' = Some p" "js_get js p ''systemMode'' = Some vm" "js_string js vm = Some m"
    and "js_get js p ''sp'' = Some vs" "js_int js vs = Some sp"
    and "length idle < 60" "\<forall>r \<in> set idle. \<exists>st' b. r = Some (st', b) \<and> (st' = Ok \<longrightarrow> read_reply js b zone0 = (False, zone0))"
  shows "s40_turn js Setup_Ok ([Some (Ok, b1), Some (Ok, b2)] @ idle @ Some (Ok, body) # rest) s =
    \<lparr>s_temperature = t, s_setpoint = sp, s_humidity = h, s_fan = f, s_mode = m, s_data_valid = True\<rparr>"
proof -
  let ?z = "\<lparr>zd_temperature = t, zd_setpoint = sp, zd_humidity = h, zd_fan = f, zd_mode = m, zd_valid = True\<rparr>"
  have "read_status js st zone0 = Read_Ok ?z"
    using assms(2-12) by (simp add: read_status_def read_field_def zone0_def)
  then have reply: "read_reply js body zone0 = (True, ?z)"
    using read_reply_status(1) [OF assms(1), of zone0] by simp
  have "fst (poll_loop js n (idle @ Some (Ok, body) # rest) zone0) = ?z" if "length idle < n" for n
    using that assms(14)
  proof (induction idle arbitrary: n)
    case Nil
    then show ?case using reply by (cases n) auto
  next
    case (Cons r idle)
    then obtain n' st' b where "n = Suc n'" "r = Some (st', b)" "st' = Ok \<longrightarrow> read_reply js b zone0 = (False, zone0)"
      by (cases n) auto
    then show ?case using Cons by (simp add: split_beta)
  qed
  from this [of MAX_POLLS] have "fst (fetch_data js Setup_Ok ([Some (Ok, b1), Some (Ok, b2)] @ idle @ Some (Ok, body) # rest)) = ?z"
    using assms(13) by (simp add: MAX_POLLS_def split_beta)
  then show ?thesis unfolding s40_turn_def by (simp add: s40_update_def)
qed

definition demo_status :: "(string \<times> demo_json) list \<Rightarrow> demo_json" where
  "demo_status fs = JObject [(''messages'', JArray [JObject [(''Data'', JObject [(''zones'', JArray [JObject [(''status'', JObject fs)]])])]])]"

lemma demo_carries:
  "parse body = Some (demo_status fs) \<Longrightarrow> carries_status (demo_js parse) body (JObject fs)"
  by (simp add: carries_status_def demo_js_def demo_status_def get_object_def)

lemma status_published_witness:
  "s40_turn (demo_js (\<lambda>b. if b = ''full'' then Some (demo_status [(''temperature'', JInt 71), (''humidity'', JInt 40), (''fan'', JBool True),
        (''period'', JObject [(''systemMode'', JString ''heat''), (''sp'', JInt 70)])]) else None))
     Setup_Ok ([Some (Ok, []), Some (Ok, [])] @ [Some (No_Content, []), Some (Ok, ''x'')] @ Some (Ok, ''full'') # []) s40_new =
   \<lparr>s_temperature = 71, s_setpoint = 70, s_humidity = 40, s_fan = True, s_mode = ''heat'', s_data_valid = True\<rparr>"
  by (rule status_published [OF demo_carries])
    (auto simp: demo_js_def get_object_def read_reply_def)

text \<open>
  A status whose temperature is a number and whose humidity is not is thrown away by the
  parser again and again, but its temperature stays in the result and marks it valid: after the last
  poll the temperature is published together with humidity 0, replacing the last good reading.
\<close>

theorem broken_status_published:
  assumes "carries_status js body st" "js_get js st ''temperature'' = Some vt" "js_int js vt = Some t"
    and "js_get js st ''humidity'' = Some vh" "js_int js vh = None"
  shows "s40_turn js Setup_Ok ([Some (Ok, b1), Some (Ok, b2)] @ replicate 60 (Some (Ok, body))) s =
    \<lparr>s_temperature = t, s_setpoint = 0, s_humidity = 0, s_fan = False, s_mode = [], s_data_valid = True\<rparr>"
proof -
  let ?z = "zone0\<lparr>zd_temperature := t, zd_valid := True\<rparr>"
  have "read_status js st z = Threw (z\<lparr>zd_temperature := t, zd_valid := True\<rparr>)" for z
    using assms(2-5) by (simp add: read_status_def read_field_def)
  then have reply: "read_reply js body z = (False, z\<lparr>zd_temperature := t, zd_valid := True\<rparr>)" for z
    using read_reply_status(2) [OF assms(1)] by blast
  have "fst (poll_loop js n (replicate n (Some (Ok, body))) ?z) = ?z" for n
    by (induction n) (simp_all add: reply split_beta)
  then have "fst (poll_loop js (Suc n) (replicate (Suc n) (Some (Ok, body))) zone0) = ?z" for n
    by (simp add: reply split_beta)
  from this [of 59] have "fst (poll_loop js MAX_POLLS (replicate 60 (Some (Ok, body))) zone0) = ?z"
    by (simp add: MAX_POLLS_def flip: replicate_Suc)
  then have "fst (fetch_data js Setup_Ok ([Some (Ok, b1), Some (Ok, b2)] @ replicate 60 (Some (Ok, body)))) = ?z"
    by (simp add: split_beta)
  then show ?thesis unfolding s40_turn_def by (simp add: s40_update_def zone0_def)
qed

lemma broken_status_published_witness:
  "s_humidity (s40_turn (demo_js (\<lambda>b. Some (demo_status [(''temperature'', JInt 71), (''humidity'', JString ''n/a'')])))
     Setup_Ok ([Some (Ok, []), Some (Ok, [])] @ replicate 60 (Some (Ok, [])))
     \<lparr>s_temperature = 70, s_setpoint = 70, s_humidity = 40, s_fan = True, s_mode = ''heat'', s_data_valid = True\<rparr>) = 0"
proof -
  let ?js = "demo_js (\<lambda>b. Some (demo_status [(''temperature'', JInt 71), (''humidity'', JString ''n/a'')]))"
  have "carries_status ?js [] (JObject [(''temperature'', JInt 71), (''humidity'', JString ''n/a'')])"
    by (rule demo_carries) simp
  from broken_status_published [OF this, of "JInt 71" 71 "JString ''n/a''" "[]" "[]"] show ?thesis
    by (simp add: demo_js_def)
qed

end
