(* ===== verification/Landing.thy ===== *)
theory Landing
  imports Http_IO Http_Manager S40
begin

text \<open>
  The landing page: \<^verbatim>\<open>LandingAccept\<close>, the root object that accepts connections
  (\<^verbatim>\<open>src/aio_landing/landing_accept.{h,cpp}\<close>), and \<^verbatim>\<open>AioLandingHTTP\<close>, one connection
  (\<^verbatim>\<open>src/aio_landing/landing_server.{h,cpp}\<close>).  The clock and the thermostat's readings that the
  endpoints report are arguments; printing the peer's address is left out.
\<close>

section \<open>Accepting\<close>

record landing_accept =
  la_files :: "int list"
  la_tls :: bool
  la_http :: "s40_client http_manager"
  la_taskid :: u64
  la_indices :: "u64 \<rightharpoonup> nat"

definition keep_alive_headers :: "(string \<times> string) list" where
  "keep_alive_headers = [(''Content-Type'', ''text/plain''), (''Connection'', ''keep-alive'')]"

definition s40_endpoint :: "beast \<Rightarrow> (s40_client \<Rightarrow> string) \<Rightarrow> s40_client handler" where
  "s40_endpoint bl get = (\<lambda>g req. prepare_response bl keep_alive_headers Ok (get g) (req_version req))"

definition landing_endpoints :: "beast \<Rightarrow> (string \<times> s40_client handler \<times> verb) list" where
  "landing_endpoints bl =
     [(''/temperature'', s40_endpoint bl (\<lambda>g. show_int (s_temperature g)), Get),
      (''/humidity'', s40_endpoint bl (\<lambda>g. show_int (s_humidity g)), Get),
      (''/setpoint'', s40_endpoint bl (\<lambda>g. show_int (s_setpoint g)), Get),
      (''/mode'', s40_endpoint bl s_mode, Get),
      (''/fan'', s40_endpoint bl (\<lambda>g. if s_fan g then ''1'' else ''0''), Get)]"

definition landing_new ::
  "filesys \<Rightarrow> beast \<Rightarrow> int list \<Rightarrow> bool \<Rightarrow> string \<Rightarrow> visits \<Rightarrow> (landing_accept \<times> visits) result"
where
  "landing_new fs bl server_file use_tls base_dir vs =
     ebind (manager_new fs base_dir (if use_tls then ''https'' else ''http'') vs) (\<lambda>(m, vs').
       Inr (\<lparr>la_files = server_file, la_tls = use_tls,
             la_http = fold (\<lambda>(p, h, v). add_endpoint p h v) (landing_endpoints bl) m,
             la_taskid = 0, la_indices = Map.empty\<rparr>, vs'))"

definition queue_accept :: "int list \<Rightarrow> int \<Rightarrow> app_event \<Rightarrow> app_event result" where
  "queue_accept fs o' ev =
     ebind (if o' < 0 then Inl Undefined_Behaviour else file_at fs (nat o')) (\<lambda>fd.
       Inr (c_uring o' (Prep_accept fd (if o' = 0 then 0 else 1)) ev))"

definition landing_init ::
  "u64 \<Rightarrow> landing_accept \<times> app_event \<Rightarrow> (call_response \<times> landing_accept \<times> app_event) result"
where
  "landing_init taskid = (\<lambda>(s, ev).
     ebind (queue_accept (la_files s) 0 ev) (\<lambda>ev1.
     ebind (queue_accept (la_files s) 1 ev1) (\<lambda>ev2.
       Inr (mk_response ''HTTP accepter'' OP_HINT_NETWORK, s\<lparr>la_taskid := taskid\<rparr>, ev2))))"

fun landing_on_yield ::
  "cls event_type \<Rightarrow> landing_accept \<times> app_event \<Rightarrow> (yield \<times> landing_accept \<times> app_event) result"
where
  "landing_on_yield (ChildTaskCompletion c t st rc) (s, ev) =
     ebind (delete_child AioLandingHTTP (map_at (la_indices s) 0 t) ev) (\<lambda>ev'.
       Inr (None, s\<lparr>la_indices := (map_touch (la_indices s) 0 t)(t := None)\<rparr>, ev'))"
| "landing_on_yield (IoUringResult c o' r) (s, ev) =
     (let (s', ev') =
        (if r \<ge> 0 then
           (let (idx, ev1) = construct_ev AioLandingHTTP False (Ctor_AioLandingHTTP [r] (la_tls s)) ev;
                (taskid, ev2) = c_at AioLandingHTTP idx Landing_Start ev1
            in (s\<lparr>la_indices := (la_indices s)(taskid \<mapsto> idx)\<rparr>, ev2))
         else (s, ev))
      in ebind (queue_accept (la_files s') o' ev') (\<lambda>ev''. Inr (None, s', ev'')))"
| "landing_on_yield _ _ = Inl Bad_Variant_Access"

section \<open>One connection\<close>

record landing_server =
  ls_files :: "int list"
  ls_op_read :: bool
  ls_timer :: u64

definition landing_ts :: timespec where "landing_ts = \<lparr>tv_sec = 180, tv_nsec = 0\<rparr>"

definition server_new :: "int list \<Rightarrow> bool \<Rightarrow> app_event \<Rightarrow> landing_server \<times> app_event" where
  "server_new fs enable_tls ev =
     (\<lparr>ls_files = fs, ls_op_read = False, ls_timer = 0\<rparr>,
      snd (construct_ev ReadWriteHTTP False (Ctor_ReadWriteHTTP fs enable_tls) ev))"

definition server_start ::
  "landing_server \<times> app_event \<Rightarrow> (call_response \<times> landing_server \<times> app_event) result"
where
  "server_start = (\<lambda>(s, ev).
     ebind (c_first ReadWriteHTTP Read_Http ev) (\<lambda>(_, ev1).
       let (t, ev2) = timer landing_ts ev1
       in Inr (mk_response ''Server start up HTTP'' OP_HINT_NETWORK, s\<lparr>ls_op_read := True, ls_timer := t\<rparr>, ev2)))"

text \<open>\<^verbatim>\<open>direct_access(0, &ReadWriteHTTP::get_data, id).value()->get()\<close>: the HTTP objects are in \<open>objs\<close>,
  \<open>ps_get\<close> is the parser's \<^verbatim>\<open>get\<close>.\<close>

definition take_request ::
  "('p \<Rightarrow> http_request) \<Rightarrow> app_event \<Rightarrow> (u64 \<rightharpoonup> ('b, 'p) http_io) \<Rightarrow>
    (http_request \<times> (u64 \<rightharpoonup> ('b, 'p) http_io)) result"
where
  "take_request ps_get ev objs =
     ebind (direct_ref ReadWriteHTTP 0 ev) (\<lambda>p.
       case p of
         None \<Rightarrow> Inl Bad_Optional_Access
       | Some i \<Rightarrow>
           (case objs i of
              None \<Rightarrow> Inl Bad_Optional_Access
            | Some h \<Rightarrow>
                (case http_get_data h of
                   (None, _) \<Rightarrow> Inl Undefined_Behaviour
                 | (Some q, h') \<Rightarrow> Inr (ps_get q, objs(i \<mapsto> h')))))"

text \<open>\<open>answer\<close> is \<^verbatim>\<open>http_manager_->handle_request\<close> at that time.\<close>

definition server_handle_request ::
  "(http_request \<Rightarrow> visits \<Rightarrow> http_response \<times> visits) \<Rightarrow> http_request \<Rightarrow> visits \<Rightarrow> landing_server \<times> app_event \<Rightarrow>
    (landing_server \<times> app_event \<times> visits) result"
where
  "server_handle_request answer req vs = (\<lambda>(s, ev).
     let (resp, vs') = answer req vs in
     ebind (c_first ReadWriteHTTP (Write_Http resp) ev) (\<lambda>(_, ev'). Inr (s\<lparr>ls_op_read := False\<rparr>, ev', vs')))"

definition server_handle_response :: "landing_server \<times> app_event \<Rightarrow> (landing_server \<times> app_event) result" where
  "server_handle_response = (\<lambda>(s, ev).
     ebind (c_first ReadWriteHTTP Read_Http ev) (\<lambda>(_, ev'). Inr (s\<lparr>ls_op_read := True\<rparr>, ev')))"

fun server_on_yield ::
  "(http_request \<Rightarrow> visits \<Rightarrow> http_response \<times> visits) \<Rightarrow> ('p \<Rightarrow> http_request) \<Rightarrow> cls event_type \<Rightarrow>
    landing_server \<times> app_event \<times> (u64 \<rightharpoonup> ('b, 'p) http_io) \<times> visits \<Rightarrow>
    (yield \<times> landing_server \<times> app_event \<times> (u64 \<rightharpoonup> ('b, 'p) http_io) \<times> visits) result"
where
  "server_on_yield answer ps_get (ChildTaskCompletion c t st rc) (s, ev, objs, vs) =
     (if rc \<le> 0 then Inr (Some (True, rc), s, ev, objs, vs)
      else if ls_op_read s then
        (let ev1 = cancel_timer (ls_timer s) ev in
         ebind (take_request ps_get ev1 objs) (\<lambda>(req, objs').
         ebind (server_handle_request answer req vs (s, ev1)) (\<lambda>(s', ev2, vs').
           Inr (None, s', ev2, objs', vs'))))
      else
        (let (i, ev1) = timer landing_ts ev in
         ebind (server_handle_response (s\<lparr>ls_timer := i\<rparr>, ev1)) (\<lambda>(s', ev2).
           Inr (None, s', ev2, objs, vs))))"
| "server_on_yield answer ps_get (Timeout t) (s, ev, objs, vs) = Inr (Some (True, - 1), s, ev, objs, vs)"
| "server_on_yield answer ps_get _ (s, ev, objs, vs) = Inr (None, s, ev, objs, vs)"

section \<open>Which connection is in which slot\<close>

text \<open>What can happen to an accepting object: an accept completes, a connection it knows ends, the
  scheduler constructs a queued child or empties the queues.  \<open>n\<close> counts the accepts.\<close>

inductive landing_reach :: "landing_accept \<Rightarrow> app_event \<Rightarrow> landing_accept \<Rightarrow> app_event \<Rightarrow> nat \<Rightarrow> bool"
  for s0 ev0
where
  start: "landing_reach s0 ev0 s0 ev0 0"
| accepted: "landing_reach s0 ev0 s ev n \<Longrightarrow> landing_on_yield (IoUringResult c o' r) (s, ev) = Inr (y, s', ev') \<Longrightarrow>
    landing_reach s0 ev0 s' ev' (Suc n)"
| ended: "landing_reach s0 ev0 s ev n \<Longrightarrow> t \<in> dom (la_indices s) \<Longrightarrow>
    landing_on_yield (ChildTaskCompletion c t st rc) (s, ev) = Inr (y, s', ev') \<Longrightarrow> landing_reach s0 ev0 s' ev' n"
| constructed: "landing_reach s0 ev0 s ev n \<Longrightarrow> i \<in> used_slots AioLandingHTTP ev \<Longrightarrow>
    landing_reach s0 ev0 s (set_slots AioLandingHTTP ((slots AioLandingHTTP ev)[i := Some info]) ev) n"
| sent: "landing_reach s0 ev0 s ev n \<Longrightarrow> landing_reach s0 ev0 s (clear ev) n"

definition conn_inv :: "landing_accept \<Rightarrow> app_event \<Rightarrow> nat \<Rightarrow> bool" where
  "conn_inv s ev n \<longleftrightarrow>
     bij_betw (\<lambda>t. the (la_indices s t)) (dom (la_indices s)) (used_slots AioLandingHTTP ev) \<and>
     (\<exists>k \<le> n. local_proc_id (uring_data ev) = word_of_nat k \<and>
        dom (la_indices s) \<subseteq> word_of_nat ` {..< k})"

lemma queue_accept_same:
  assumes "queue_accept fs o' ev = Inr ev'"
  shows "uring_data ev' = uring_data ev" "delete_q ev' = delete_q ev"
  using assms by (auto simp: queue_accept_def ebind_Inr_iff c_uring_def)

lemma used_slots_cong: "uring_data ev' = uring_data ev \<Longrightarrow> used_slots ty ev' = used_slots ty ev"
  by (simp add: used_slots_def slots_def)

lemma construct_local_proc_id:
  "construct_ev ty sh k ev = (i, ev') \<Longrightarrow> local_proc_id (uring_data ev') = local_proc_id (uring_data ev)"
  by (auto simp: construct_ev_def Let_def set_slots_def)

lemma conn_inv_accepted:
  assumes "conn_inv s ev n" "landing_on_yield (IoUringResult c o' r) (s, ev) = Inr (y, s', ev')" "Suc n < 2 ^ 64"
  shows "conn_inv s' ev' (Suc n)"
proof (cases "r \<ge> 0")
  case False
  then have "s' = s" "uring_data ev' = uring_data ev"
    using assms(2) by (auto simp: ebind_Inr_iff dest: queue_accept_same)
  then show ?thesis
    using assms(1) used_slots_cong [of ev' ev] unfolding conn_inv_def by (metis le_SucI)
next
  case True
  obtain idx ev1 where c: "construct_ev AioLandingHTTP False (Ctor_AioLandingHTTP [r] (la_tls s)) ev = (idx, ev1)"
    by fastforce
  let ?t = "local_proc_id (uring_data ev)"
  obtain ev2 where ca: "c_at AioLandingHTTP idx Landing_Start ev1 = (?t, ev2)"
    "local_proc_id (uring_data ev2) = ?t + 1" "slots AioLandingHTTP ev2 = slots AioLandingHTTP ev1"
    using construct_local_proc_id [OF c] by (simp add: c_at_def Let_def slots_def)
  have s': "s' = s\<lparr>la_indices := (la_indices s)(?t \<mapsto> idx)\<rparr>" "uring_data ev' = uring_data ev2"
    using assms(2) True c ca(1) by (auto simp: ebind_Inr_iff dest: queue_accept_same)
  obtain k where k: "k \<le> n" "?t = word_of_nat k" "dom (la_indices s) \<subseteq> word_of_nat ` {..< k}"
    using assms(1) by (auto simp: conn_inv_def)
  have fresh: "idx \<notin> used_slots AioLandingHTTP ev" "used_slots AioLandingHTTP ev1 = insert idx (used_slots AioLandingHTTP ev)"
    using class_slots.take_fresh [OF c] by auto
  have us: "used_slots AioLandingHTTP ev' = insert idx (used_slots AioLandingHTTP ev)"
    using fresh(2) ca(3) used_slots_cong [OF s'(2)] by (simp add: used_slots_def)
  have nt: "?t \<notin> dom (la_indices s)"
  proof
    assume "?t \<in> dom (la_indices s)"
    then obtain j where "j < k" "(word_of_nat k :: u64) = word_of_nat j" using k by auto
    moreover have "unat (word_of_nat k :: u64) = k" "unat (word_of_nat j :: u64) = j"
      using unat_word_nat [of k] unat_word_nat [of j] k(1) assms(3) \<open>j < k\<close> by simp_all
    ultimately show False by simp
  qed
  let ?f = "\<lambda>t. the (la_indices s' t)"
  have "bij_betw ?f (dom (la_indices s)) (used_slots AioLandingHTTP ev)"
    using assms(1) nt by (subst bij_betw_cong [where g = "\<lambda>t. the (la_indices s t)"]) (auto simp: s'(1) conn_inv_def)
  then have "bij_betw ?f (dom (la_indices s) \<union> {?t}) (used_slots AioLandingHTTP ev \<union> {?f ?t})"
    using nt fresh(1) by (intro notIn_Un_bij_betw) (simp_all add: s'(1))
  moreover have "dom (la_indices s') = dom (la_indices s) \<union> {?t}" "?f ?t = idx" by (auto simp: s'(1))
  moreover have "local_proc_id (uring_data ev') = word_of_nat (Suc k)" using ca(2) k(2) s'(2) by simp
  moreover have "dom (la_indices s) \<union> {?t} \<subseteq> word_of_nat ` {..< Suc k}" using k(2,3) by auto
  ultimately show ?thesis using us k(1) unfolding conn_inv_def by (metis Suc_le_mono Un_insert_right sup_bot.right_neutral)
qed

lemma delete_child_slots:
  assumes "delete_child ty i ev = Inr ev'"
  shows "used_slots ty ev' = used_slots ty ev - {i}" "i \<in> used_slots ty ev"
    "local_proc_id (uring_data ev') = local_proc_id (uring_data ev)"
    "map qd_obj_id (delete_q ev') =
       map qd_obj_id (delete_q ev) @ [object_id (the (ev_locator (the (slots ty ev ! i))))]"
proof -
  obtain v info l where v: "sub_events (uring_data ev) ty = Some v" "i < length v" "v ! i = Some info" "ev_locator info = Some l"
    "ev' = set_slots ty (v[i := None]) (ev\<lparr>delete_q := delete_q ev @ [\<lparr>qd_thread = thread_id l, qd_obj_id = object_id l\<rparr>]\<rparr>)"
    using assms by (auto simp: delete_child_def split: option.splits if_splits)
  have sl: "slots ty ev = v" "slots ty ev' = v[i := None]" using v(1) by (simp add: slots_def, simp add: v(5))
  show "used_slots ty ev' = used_slots ty ev - {i}"
    using v(2) unfolding used_slots_def sl by (auto simp: nth_list_update split: if_splits)
  show "i \<in> used_slots ty ev" using v(2,3) by (simp add: used_slots_def sl)
  show "local_proc_id (uring_data ev') = local_proc_id (uring_data ev)" by (simp add: v(5) set_slots_def)
  show "map qd_obj_id (delete_q ev') =
      map qd_obj_id (delete_q ev) @ [object_id (the (ev_locator (the (slots ty ev ! i))))]"
    using v(3,4) by (simp add: sl) (simp add: v(5) set_slots_def)
qed

lemma conn_inv_ended:
  assumes "conn_inv s ev n" "t \<in> dom (la_indices s)"
    and "landing_on_yield (ChildTaskCompletion c t st rc) (s, ev) = Inr (y, s', ev')"
  shows "conn_inv s' ev' n" "y = None" "la_indices s' = (la_indices s)(t := None)"
    "used_slots AioLandingHTTP ev' = used_slots AioLandingHTTP ev - {the (la_indices s t)}"
    "map qd_obj_id (delete_q ev') = map qd_obj_id (delete_q ev) @
       [object_id (the (ev_locator (the (slots AioLandingHTTP ev ! the (la_indices s t)))))]"
proof -
  let ?i = "the (la_indices s t)"
  have at: "map_at (la_indices s) 0 t = ?i" "map_touch (la_indices s) 0 t = la_indices s" using assms(2) by auto
  have d: "delete_child AioLandingHTTP ?i ev = Inr ev'" "y = None" "s' = s\<lparr>la_indices := (la_indices s)(t := None)\<rparr>"
    using assms(3) at by (auto simp: ebind_Inr_iff)
  note sl = delete_child_slots [OF d(1)]
  show "y = None" "la_indices s' = (la_indices s)(t := None)"
    "used_slots AioLandingHTTP ev' = used_slots AioLandingHTTP ev - {?i}"
    "map qd_obj_id (delete_q ev') =
       map qd_obj_id (delete_q ev) @ [object_id (the (ev_locator (the (slots AioLandingHTTP ev ! ?i))))]"
    using d sl by simp_all
  have b: "bij_betw (\<lambda>t. the (la_indices s t)) (dom (la_indices s)) (used_slots AioLandingHTTP ev)"
    using assms(1) by (simp add: conn_inv_def)
  then have "bij_betw (\<lambda>t. the (la_indices s t)) (dom (la_indices s) - {t}) (used_slots AioLandingHTTP ev - {?i})"
    using assms(2) unfolding bij_betw_def by (auto simp: inj_on_diff inj_on_image_set_diff [of _ "dom (la_indices s)"])
  then have "bij_betw (\<lambda>u. the (la_indices s' u)) (dom (la_indices s')) (used_slots AioLandingHTTP ev')"
    unfolding sl(1) by (subst bij_betw_cong [where g = "\<lambda>t. the (la_indices s t)"]) (auto simp: d(3))
  then show "conn_inv s' ev' n"
    using assms(1) sl(3) unfolding conn_inv_def by (auto simp: d(3))
qed

lemma conn_inv_reach:
  assumes "landing_reach s0 ev0 s ev n" "la_indices s0 = Map.empty" "used_slots AioLandingHTTP ev0 = {}"
    "local_proc_id (uring_data ev0) = 0" "n < 2 ^ 64"
  shows "conn_inv s ev n"
  using assms
proof (induction rule: landing_reach.induct)
  case start
  then show ?case by (simp add: conn_inv_def bij_betw_def)
next
  case (accepted s ev n c o' r y s' ev')
  then show ?case using conn_inv_accepted by simp
next
  case (ended s ev n t c st rc y s' ev')
  then show ?case using conn_inv_ended(1) by blast
next
  case (constructed s ev n i info)
  have "used_slots AioLandingHTTP (set_slots AioLandingHTTP ((slots AioLandingHTTP ev)[i := Some info]) ev) = used_slots AioLandingHTTP ev"
    using constructed.hyps(2) by (auto simp: used_slots_def nth_list_update split: if_splits)
  then show ?case using constructed by (simp add: conn_inv_def) (simp add: set_slots_def)
next
  case (sent s ev n)
  then show ?case by (simp add: conn_inv_def clear_def used_slots_def slots_def)
qed

text \<open>
  C11: Whatever connections come and go in whatever order, the accepting object knows exactly
  which slot holds which live connection: the calls it remembers correspond one to one to the
  occupied slots, and when a connection ends exactly its own slot is freed.
\<close>

theorem connections_tracked:
  assumes "landing_reach s0 ev0 s ev n" "la_indices s0 = Map.empty" "used_slots AioLandingHTTP ev0 = {}"
    "local_proc_id (uring_data ev0) = 0" "n < 2 ^ 64"
  shows "bij_betw (\<lambda>t. the (la_indices s t)) (dom (la_indices s)) (used_slots AioLandingHTTP ev) \<and>
    (\<forall>t \<in> dom (la_indices s). \<forall>c st rc y s' ev'.
       landing_on_yield (ChildTaskCompletion c t st rc) (s, ev) = Inr (y, s', ev') \<longrightarrow>
       y = None \<and> la_indices s' = (la_indices s)(t := None) \<and>
       used_slots AioLandingHTTP ev' = used_slots AioLandingHTTP ev - {the (la_indices s t)} \<and>
       map qd_obj_id (delete_q ev') = map qd_obj_id (delete_q ev) @
         [object_id (the (ev_locator (the (slots AioLandingHTTP ev ! the (la_indices s t)))))])"
proof -
  have inv: "conn_inv s ev n" by (rule conn_inv_reach [OF assms])
  show ?thesis
  proof (intro conjI ballI allI impI)
    show "bij_betw (\<lambda>t. the (la_indices s t)) (dom (la_indices s)) (used_slots AioLandingHTTP ev)"
      using inv by (simp add: conn_inv_def)
  next
    fix t c st rc y s' ev'
    assume t: "t \<in> dom (la_indices s)" "landing_on_yield (ChildTaskCompletion c t st rc) (s, ev) = Inr (y, s', ev')"
    note e = conn_inv_ended [OF inv t]
    show "y = None" "la_indices s' = (la_indices s)(t := None)"
      "used_slots AioLandingHTTP ev' = used_slots AioLandingHTTP ev - {the (la_indices s t)}"
      "map qd_obj_id (delete_q ev') = map qd_obj_id (delete_q ev) @
         [object_id (the (ev_locator (the (slots AioLandingHTTP ev ! the (la_indices s t)))))]"
      using e(2-5) by simp_all
  qed
qed

definition demo_accept :: landing_accept where
  "demo_accept = \<lparr>la_files = [3, 4], la_tls = False,
     la_http = \<lparr>service = [], base_path = [], handlers = []\<rparr>, la_taskid = 0, la_indices = Map.empty\<rparr>"

text \<open>Two connections; the first ends, and a third takes its slot.\<close>

lemma connections_tracked_witness:
  "\<exists>s ev. landing_reach demo_accept (new_event empty_uring_data) s ev 3 \<and>
    bij_betw (\<lambda>t. the (la_indices s t)) (dom (la_indices s)) (used_slots AioLandingHTTP ev) \<and>
    la_indices s = [1 \<mapsto> 1, 2 \<mapsto> 0]"
proof -
  let ?r = "landing_reach demo_accept (new_event empty_uring_data)"
  let ?info = "\<lparr>ev_locator = Some \<lparr>object_id = 7, thread_id = [0]\<rparr>, ev_event = Some 7\<rparr>"
  let ?two = "landing_on_yield (IoUringResult 0 0 9) (demo_accept, new_event empty_uring_data)"
  obtain s1 ev1 where 1: "?two = Inr (None, s1, ev1)" "la_indices s1 = [0 \<mapsto> 0]" "la_files s1 = [3, 4]"
    "slots AioLandingHTTP ev1 = [Some \<lparr>ev_locator = None, ev_event = None\<rparr>]" "local_proc_id (uring_data ev1) = 1"
    by (simp add: demo_accept_def construct_ev_def c_at_def set_slots_def slots_def new_event_def empty_uring_data_def
        Let_def map_at_def queue_accept_def file_at_def c_uring_def)
  obtain s2 ev2 where 2: "landing_on_yield (IoUringResult 0 1 10) (s1, ev1) = Inr (None, s2, ev2)"
    "la_indices s2 = [0 \<mapsto> 0, 1 \<mapsto> 1]" "la_files s2 = [3, 4]"
    "slots AioLandingHTTP ev2 = [Some \<lparr>ev_locator = None, ev_event = None\<rparr>, Some \<lparr>ev_locator = None, ev_event = None\<rparr>]" "local_proc_id (uring_data ev2) = 2"
    using 1(2-5) by (simp add: construct_ev_def c_at_def set_slots_def slots_def
        Let_def map_at_def queue_accept_def file_at_def c_uring_def)
  define ev3 where "ev3 = set_slots AioLandingHTTP ((slots AioLandingHTTP ev2)[0 := Some ?info]) ev2"
  have 3: "local_proc_id (uring_data ev3) = 2"
    "sub_events (uring_data ev3) AioLandingHTTP = Some [Some ?info, Some \<lparr>ev_locator = None, ev_event = None\<rparr>]"
    using 2(4,5) by (simp_all add: ev3_def set_slots_def)
  define ev4 where "ev4 = set_slots AioLandingHTTP [None, Some \<lparr>ev_locator = None, ev_event = None\<rparr>]
    (ev3\<lparr>delete_q := delete_q ev3 @ [\<lparr>qd_thread = [0], qd_obj_id = 7\<rparr>]\<rparr>)"
  define s4 where "s4 = s2\<lparr>la_indices := [1 \<mapsto> 1]\<rparr>"
  have "delete_child AioLandingHTTP 0 ev3 = Inr ev4" using 3(2) by (simp add: delete_child_def ev4_def)
  moreover have "map_at (la_indices s2) 0 0 = 0" "(map_touch (la_indices s2) 0 0)(0 := None) = [1 \<mapsto> 1]"
    using 2(2) by (auto simp: map_touch_def map_at_def)
  ultimately have 4: "landing_on_yield (ChildTaskCompletion 0 0 Finished (- 1)) (s2, ev3) = Inr (None, s4, ev4)"
    "la_indices s4 = [1 \<mapsto> 1]" "la_files s4 = [3, 4]" "slots AioLandingHTTP ev4 = [None, Some \<lparr>ev_locator = None, ev_event = None\<rparr>]"
    "local_proc_id (uring_data ev4) = 2"
    using 2(3) 3(1) by (simp_all add: s4_def) (simp_all add: ev4_def, simp add: set_slots_def)
  obtain s5 ev5 where 5: "landing_on_yield (IoUringResult 0 0 11) (s4, ev4) = Inr (None, s5, ev5)"
    "la_indices s5 = [1 \<mapsto> 1, 2 \<mapsto> 0]"
    using 4(2-5) by (simp add: construct_ev_def c_at_def set_slots_def slots_def
        Let_def map_at_def queue_accept_def file_at_def c_uring_def)
  have "?r s2 ev2 (Suc (Suc 0))"
    using landing_reach.accepted [OF landing_reach.accepted [OF landing_reach.start 1(1)] 2(1)] .
  moreover have "0 \<in> used_slots AioLandingHTTP ev2" using 2(4) by (simp add: used_slots_def)
  ultimately have "?r s2 ev3 (Suc (Suc 0))" unfolding ev3_def by (rule landing_reach.constructed)
  then have "?r s4 ev4 (Suc (Suc 0))" by (rule landing_reach.ended [OF _ _ 4(1)]) (simp add: 2(2))
  from landing_reach.accepted [OF this 5(1)] have r: "?r s5 ev5 3" by (simp add: eval_nat_numeral)
  have "la_indices demo_accept = Map.empty" "used_slots AioLandingHTTP (new_event empty_uring_data) = {}"
    "local_proc_id (uring_data (new_event empty_uring_data)) = 0" "(3 :: nat) < 2 ^ 64"
    by (simp_all add: demo_accept_def used_slots_def slots_def new_event_def empty_uring_data_def map_at_def)
  from connections_tracked [OF r this] r 5(2) show ?thesis by blast
qed

section \<open>A connection answers and waits again\<close>

lemma landing_endpoint_found:
  assumes "(p, h, v) \<in> set (landing_endpoints bl)"
  shows "find (\<lambda>(q, h, v). q = p \<and> v = Get) (rev (landing_endpoints bl)) = Some (p, h, v)" "v = Get"
  using assms by (auto simp: landing_endpoints_def)

lemma first_child_0:
  assumes "direct_ref ty 0 ev = Inr p"
  shows "has_child ty ev"
  using assms by (auto simp: direct_ref_def has_child_def slots_def map_at_def in_set_conv_nth split: option.splits if_splits)

lemma slots_timer_q [simp]:
  "has_child cl (cancel_timer i ev) \<longleftrightarrow> has_child cl ev"
  "has_child cl (snd (timer ts ev)) \<longleftrightarrow> has_child cl ev"
  by (simp_all add: has_child_def slots_def cancel_timer_def timer_def Let_def)

lemma c_first_pair:
  assumes "has_child cl ev"
  obtains i ev' where "c_first cl f ev = Inr (i, ev')" "map qf_fun (function_q ev') = map qf_fun (function_q ev) @ [f]"
    "timer_q ev' = timer_q ev" "has_child cl ev'"
proof (rule that)
  let ?c = "c_at cl (first_child cl ev) f ev"
  show "c_first cl f ev = Inr (fst ?c, snd ?c)" using c_first_child [OF assms] by simp
  show "map qf_fun (function_q (snd ?c)) = map qf_fun (function_q ev) @ [f]" by (rule function_q_c_at)
  show "timer_q (snd ?c) = timer_q ev" by (simp add: c_at_def Let_def)
  show "has_child cl (snd ?c)" using assms by simp
qed

text \<open>
  A connection of the landing page that has read a request for one of the thermostat's
  endpoints stops its timeout, writes the reading, and when that is written waits for the next
  request with a new timeout of 180 seconds.
\<close>

theorem landing_serves_readings:
  assumes "landing_new fs bl files tls dir vs0 = Inr (a, vs1)" "(p, h, v) \<in> set (landing_endpoints bl)"
    and "strip_query (req_target (ps_get q)) = p" "req_method (ps_get q) = Get"
    and "ls_op_read s" "direct_ref ReadWriteHTTP 0 ev = Inr (Some i)" "objs i = Some ho" "hi_parser ho = Some q"
    and "0 < rc" "0 < rc'"
  shows "\<exists>s1 ev1 s2 ev2 objs1 vs2.
    server_on_yield (handle_request fs bl now g (la_http a)) ps_get (ChildTaskCompletion c t st rc) (s, ev, objs, vs) =
      Inr (None, s1, ev1, objs1, vs2) \<and>
    map qf_fun (function_q ev1) = map qf_fun (function_q ev) @ [Write_Http (h g (ps_get q))] \<and>
    timer_q ev1 = timer_q ev @ [\<lparr>qt_local_id = ls_timer s, qt_time = \<lparr>tv_sec = 0, tv_nsec = 0\<rparr>\<rparr>] \<and>
    server_on_yield (handle_request fs bl now g (la_http a)) ps_get (ChildTaskCompletion c t' st rc') (s1, ev1, objs1, vs2) =
      Inr (None, s2, ev2, objs1, vs2) \<and>
    map qf_fun (function_q ev2) = map qf_fun (function_q ev1) @ [Read_Http] \<and> ls_op_read s2 \<and>
    timer_q ev2 = timer_q ev1 @ [\<lparr>qt_local_id = ls_timer s2, qt_time = \<lparr>tv_sec = 180, tv_nsec = 0\<rparr>\<rparr>]"
proof -
  obtain m where m: "manager_new fs dir (if tls then ''https'' else ''http'') vs0 = Inr (m, vs1)"
    "la_http a = fold (\<lambda>(p, h, v). add_endpoint p h v) (landing_endpoints bl) m"
    using assms(1) by (auto simp: landing_new_def ebind_Inr_iff)
  then have hm: "handlers m = []" by (auto simp: manager_new_def Let_def split: option.splits)
  have "p \<in> fst ` set (landing_endpoints bl)" using assms(2) by force
  from handle_request_endpoint [OF assms(3) m(2) this hm, of fs bl now g vs] landing_endpoint_found [OF assms(2)]
  have ans: "handle_request fs bl now g (la_http a) (ps_get q) vs = (h g (ps_get q), add_access (service m) p now vs)"
    by (simp add: assms(4))
  let ?ev = "cancel_timer (ls_timer s) ev"
  have dr: "direct_ref ReadWriteHTTP 0 ?ev = Inr (Some i)"
    using assms(6) by (simp add: direct_ref_def cancel_timer_def)
  have "has_child ReadWriteHTTP ?ev" using first_child_0 [OF assms(6)] by simp
  then obtain k ev1 where w: "c_first ReadWriteHTTP (Write_Http (h g (ps_get q))) ?ev = Inr (k, ev1)"
    "map qf_fun (function_q ev1) = map qf_fun (function_q ?ev) @ [Write_Http (h g (ps_get q))]"
    "timer_q ev1 = timer_q ?ev" "has_child ReadWriteHTTP ev1" by (rule c_first_pair)
  let ?s1 = "s\<lparr>ls_op_read := False\<rparr>" and ?objs1 = "objs(i \<mapsto> ho\<lparr>hi_parser := None\<rparr>)"
  let ?vs2 = "add_access (service m) p now vs"
  have y1: "server_on_yield (handle_request fs bl now g (la_http a)) ps_get (ChildTaskCompletion c t st rc) (s, ev, objs, vs) =
      Inr (None, ?s1, ev1, ?objs1, ?vs2)"
    using assms(5,7-9) dr ans w(1)
    by (simp add: take_request_def http_get_data_def server_handle_request_def Let_def)
  have hc: "has_child ReadWriteHTTP (snd (timer landing_ts ev1))" using w(4) by simp
  obtain k' ev2 where r: "c_first ReadWriteHTTP Read_Http (snd (timer landing_ts ev1)) = Inr (k', ev2)"
    "map qf_fun (function_q ev2) = map qf_fun (function_q (snd (timer landing_ts ev1))) @ [Read_Http]"
    "timer_q ev2 = timer_q (snd (timer landing_ts ev1))" using hc by (rule c_first_pair)
  let ?s2 = "?s1\<lparr>ls_timer := fst (timer landing_ts ev1), ls_op_read := True\<rparr>"
  have y2: "server_on_yield (handle_request fs bl now g (la_http a)) ps_get (ChildTaskCompletion c t' st rc') (?s1, ev1, ?objs1, ?vs2) =
      Inr (None, ?s2, ev2, ?objs1, ?vs2)"
    using assms(10) r(1) by (simp add: server_handle_response_def split_beta)
  have "map qf_fun (function_q ev1) = map qf_fun (function_q ev) @ [Write_Http (h g (ps_get q))]"
    "timer_q ev1 = timer_q ev @ [\<lparr>qt_local_id = ls_timer s, qt_time = \<lparr>tv_sec = 0, tv_nsec = 0\<rparr>\<rparr>]"
    using w(2,3) by (simp_all add: cancel_timer_def)
  moreover have "map qf_fun (function_q ev2) = map qf_fun (function_q ev1) @ [Read_Http]" "ls_op_read ?s2"
    "timer_q ev2 = timer_q ev1 @ [\<lparr>qt_local_id = ls_timer ?s2, qt_time = \<lparr>tv_sec = 180, tv_nsec = 0\<rparr>\<rparr>]"
    using r(2,3) by (simp_all add: timer_def landing_ts_def Let_def)
  ultimately show ?thesis using y1 y2 by blast
qed

definition plain_fs :: filesys where
  "plain_fs = \<lparr>fs_is_directory = (\<lambda>p. False), fs_canonical = Some, fs_exists = (\<lambda>p. True), fs_content = (\<lambda>p. None)\<rparr>"

lemma landing_serves_readings_witness:
  "\<exists>a vs1 s1 ev1 objs1 vs2. landing_new plain_fs list_beast [3, 4] False ''/srv/landing'' [] = Inr (a, vs1) \<and>
    server_on_yield (handle_request plain_fs list_beast 500 (s40_new\<lparr>s_temperature := 71\<rparr>) (la_http a)) id (ChildTaskCompletion 0 0 Finished 1)
      (\<lparr>ls_files = [9], ls_op_read = True, ls_timer = 0\<rparr>,
       set_slots ReadWriteHTTP [Some \<lparr>ev_locator = None, ev_event = Some 5\<rparr>] (new_event empty_uring_data),
       [5 \<mapsto> \<lparr>hi_files = [9], hi_tls = False, hi_read_op = True, hi_writer = 0, hi_reader = 0,
               hi_parser = Some (demo_get ''/temperature?x''), hi_buffer = (), hi_wbuffer = ()\<rparr>], vs1) =
      Inr (None, s1, ev1, objs1, vs2) \<and>
    map qf_fun (function_q ev1) = [Write_Http (s40_endpoint list_beast (\<lambda>g. show_int (s_temperature g))
      (s40_new\<lparr>s_temperature := 71\<rparr>) (demo_get ''/temperature?x''))]"
proof -
  let ?q = "demo_get ''/temperature?x''" and ?g = "s40_new\<lparr>s_temperature := 71\<rparr>"
  let ?ho = "\<lparr>hi_files = [9], hi_tls = False, hi_read_op = True, hi_writer = 0, hi_reader = 0,
               hi_parser = Some ?q, hi_buffer = (), hi_wbuffer = ()\<rparr>"
  let ?s = "\<lparr>ls_files = [9], ls_op_read = True, ls_timer = 0\<rparr>"
  let ?ev = "set_slots ReadWriteHTTP [Some \<lparr>ev_locator = None, ev_event = Some 5\<rparr>] (new_event empty_uring_data) :: app_event"
  obtain a vs1 where a: "landing_new plain_fs list_beast [3, 4] False ''/srv/landing'' [] = Inr (a, vs1)"
    by (simp add: landing_new_def manager_new_def plain_fs_def Let_def)
  have "(''/temperature'', s40_endpoint list_beast (\<lambda>g. show_int (s_temperature g)), Get) \<in> set (landing_endpoints list_beast)"
    by (simp add: landing_endpoints_def)
  moreover have "strip_query (req_target (id ?q)) = ''/temperature''" "req_method (id ?q) = Get"
    by (simp_all add: demo_get_def strip_query_def)
  moreover have "direct_ref ReadWriteHTTP 0 ?ev = Inr (Some 5)" "function_q ?ev = []"
    by (simp_all add: direct_ref_def set_slots_def new_event_def)
  ultimately show ?thesis
    using landing_serves_readings [OF a, where q = ?q and ps_get = id and s = ?s and ev = ?ev and i = 5 and
        objs = "[5 \<mapsto> ?ho]" and ho = ?ho and rc = 1 and rc' = 1 and vs = vs1 and now = 500 and g = ?g and c = 0 and t = 0
        and st = Finished and t' = 0] a
    by fastforce
qed

end
