(* ===== verification/Usage_Log.thy ===== *)
theory Usage_Log
  imports Visit_Stats "HOL-Library.Word"
begin

text \<open>
  The usage log: the lines \<^verbatim>\<open>log_entry\<close> writes (\<^verbatim>\<open>src/localsoftware.cpp\<close>), and how
  \<^verbatim>\<open>BandwidthMonitoringServer::stage_websocket_logs\<close> reads them back with \<^verbatim>\<open>sscanf\<close> and packs them into
  binary records for the browser (\<^verbatim>\<open>src/bandwidth_monitor/monitoring_server.{h,cpp}\<close>).

  A number that does not fit the type of its conversion is undefined in C; the model keeps the
  integer and converts it modulo the width.
\<close>

unbundle bit_operations_syntax

section \<open>Writing\<close>

text \<open>\<^verbatim>\<open>setw(2) << setfill('0')\<close>\<close>

definition pad2 :: "int \<Rightarrow> string" where
  "pad2 d = replicate (2 - length (show_int d)) CHR ''0'' @ show_int d"

text \<open>The line without its line feed.\<close>

definition log_line :: "int \<Rightarrow> int \<Rightarrow> int \<Rightarrow> int \<Rightarrow> int \<Rightarrow> u64 \<Rightarrow> u64 \<Rightarrow> string" where
  "log_line ts d m y h tx rx =
     ''['' @ show_int ts @ ''] '' @ pad2 d @ ''/'' @ pad2 m @ ''/'' @ show_int y @ '' '' @ show_int h @ '' '' @
     show_nat (unat tx) @ '' '' @ show_nat (unat rx)"

text \<open>The files of the program: the usage log by lines (none: it cannot be opened), the access log.\<close>

record log_files =
  usage_log :: "string list option"
  access_log :: string

definition log_entry ::
  "(int \<Rightarrow> string) \<Rightarrow> int \<Rightarrow> int \<Rightarrow> int \<Rightarrow> int \<Rightarrow> int \<Rightarrow> u64 \<Rightarrow> u64 \<Rightarrow> visits \<Rightarrow> log_files \<Rightarrow> log_files"
where
  "log_entry ctime ts d m y h tx rx vs fl =
     fl\<lparr>usage_log := map_option (\<lambda>ls. ls @ [log_line ts d m y h tx rx]) (usage_log fl),
        access_log := get_pretty_stats ctime [] vs\<rparr>"

section \<open>Reading\<close>

definition is_space_char :: "char \<Rightarrow> bool" where
  "is_space_char ch \<longleftrightarrow> ch = CHR '' '' \<or> (let n = of_char ch :: nat in 9 \<le> n \<and> n \<le> 13)"

text \<open>An integer conversion: white space, a sign, digits.\<close>

definition scan_int :: "string \<Rightarrow> (int \<times> string) option" where
  "scan_int s =
     (let s1 = dropWhile is_space_char s;
          neg = (s1 \<noteq> [] \<and> hd s1 = CHR ''-'');
          s2 = (if neg \<or> s1 \<noteq> [] \<and> hd s1 = CHR ''+'' then tl s1 else s1)
      in case read_nat s2 of None \<Rightarrow> None | Some (n, rest) \<Rightarrow> Some (if neg then - int n else int n, rest))"

definition scan_lit :: "char \<Rightarrow> string \<Rightarrow> string option" where
  "scan_lit ch s = (if s \<noteq> [] \<and> hd s = ch then Some (tl s) else None)"

text \<open>The conversions of \<^verbatim>\<open>"[%lld] %d/%d/%d %d %llu %llu"\<close>; white space in the format matches any, also
  none.  The result is there when all seven were converted.\<close>

datatype scan_item = Item_Int | Item_Lit char | Item_Space

fun scan_items :: "scan_item list \<Rightarrow> string \<Rightarrow> int list option" where
  "scan_items [] s = Some []"
| "scan_items (Item_Int # its) s =
     (case scan_int s of None \<Rightarrow> None | Some (i, s') \<Rightarrow> map_option (\<lambda>is. i # is) (scan_items its s'))"
| "scan_items (Item_Lit ch # its) s = (case scan_lit ch s of None \<Rightarrow> None | Some s' \<Rightarrow> scan_items its s')"
| "scan_items (Item_Space # its) s = scan_items its (dropWhile is_space_char s)"

definition log_format :: "scan_item list" where
  "log_format = [Item_Lit CHR ''['', Item_Int, Item_Lit CHR '']'', Item_Space, Item_Int, Item_Lit CHR ''/'',
     Item_Int, Item_Lit CHR ''/'', Item_Int, Item_Space, Item_Int, Item_Space, Item_Int, Item_Space, Item_Int]"

record log_record =
  lr_timestamp :: u64
  lr_tx :: u64
  lr_rx :: u64
  lr_hour :: u32

definition parse_line :: "string \<Rightarrow> log_record option" where
  "parse_line line =
     (case scan_items log_format line of
        Some [ts, d, m, y, h, tx, rx] \<Rightarrow>
          Some \<lparr>lr_timestamp = word_of_int ts, lr_tx = word_of_int tx, lr_rx = word_of_int rx, lr_hour = word_of_int h\<rparr>
      | _ \<Rightarrow> None)"

text \<open>The packed structure in memory, least significant byte first.\<close>

definition le_bytes :: "nat \<Rightarrow> 'a::len word \<Rightarrow> u8 list" where
  "le_bytes n w = map (\<lambda>i. ucast (drop_bit (8 * i) w)) [0..<n]"

definition record_bytes :: "log_record \<Rightarrow> u8 list" where
  "record_bytes r = le_bytes 8 (lr_timestamp r) @ le_bytes 8 (lr_tx r) @ le_bytes 8 (lr_rx r) @ le_bytes 4 (lr_hour r)"

definition CHUNK :: nat where "CHUNK = 15"

text \<open>The loop of \<^verbatim>\<open>stage_websocket_logs\<close>: the bytes of the records taken, and the lines left.\<close>

fun read_records :: "nat \<Rightarrow> string list \<Rightarrow> u8 list \<Rightarrow> u8 list \<times> string list" where
  "read_records count [] chunk_data = (chunk_data, [])"
| "read_records count (line # lines) chunk_data =
     (if count < CHUNK then
        (case parse_line line of
           Some r \<Rightarrow> read_records (Suc count) lines (chunk_data @ record_bytes r)
         | None \<Rightarrow> read_records count lines chunk_data)
      else (chunk_data, line # lines))"

section \<open>Lemmas\<close>

lemma space_not_digit: "is_digit ch \<Longrightarrow> \<not> is_space_char ch"
  by (auto simp: is_digit_def digit_val_def is_space_char_def Let_def split: if_splits)

lemma sign_not_digit: "\<not> is_digit CHR ''-''" "\<not> is_digit CHR ''+''" "\<not> is_space_char CHR ''-''"
  by (simp_all add: is_digit_def digit_val_def is_space_char_def)

lemma scan_digits:
  assumes "\<forall>ch \<in> set ds. is_digit ch" "ds \<noteq> []" "rest = [] \<or> \<not> is_digit (hd rest)" "\<forall>ch \<in> set ws. is_space_char ch"
  shows "scan_int (ws @ ds @ rest) = Some (int (digits_value ds), rest)"
    "scan_int (ws @ CHR ''-'' # ds @ rest) = Some (- int (digits_value ds), rest)"
proof -
  have hd: "\<not> is_space_char (hd ds)" "hd ds \<noteq> CHR ''-''" "hd ds \<noteq> CHR ''+''"
    using assms(1,2) space_not_digit sign_not_digit by (metis hd_in_set)+
  have "dropWhile is_space_char (ws @ ds @ rest) = ds @ rest"
    using assms(2,4) hd(1) by (cases ds) (simp_all add: dropWhile_append2)
  then show "scan_int (ws @ ds @ rest) = Some (int (digits_value ds), rest)"
    using assms(2) hd read_digits [OF assms(1-3)] by (simp add: scan_int_def Let_def)
  have "dropWhile is_space_char (ws @ CHR ''-'' # ds @ rest) = CHR ''-'' # ds @ rest"
    using assms(4) sign_not_digit(3) by (simp add: dropWhile_append2)
  then show "scan_int (ws @ CHR ''-'' # ds @ rest) = Some (- int (digits_value ds), rest)"
    using read_digits [OF assms(1-3)] by (simp add: scan_int_def Let_def)
qed

lemma scan_show_nat:
  assumes "rest = [] \<or> \<not> is_digit (hd rest)" "\<forall>ch \<in> set ws. is_space_char ch"
  shows "scan_int (ws @ show_nat n @ rest) = Some (int n, rest)"
  using scan_digits(1) [OF show_nat_digits show_nat_nonempty assms] by (simp add: digits_value_show)

lemma scan_show_int:
  assumes "rest = [] \<or> \<not> is_digit (hd rest)" "\<forall>ch \<in> set ws. is_space_char ch"
  shows "scan_int (ws @ show_int i @ rest) = Some (i, rest)"
  using scan_digits(2) [OF show_nat_digits show_nat_nonempty assms] scan_show_nat [OF assms]
  by (simp add: show_int_def digits_value_show)

lemma digits_value_zeros: "digits_value (replicate k CHR ''0'' @ ds) = digits_value ds"
  by (induction k) (simp_all add: digits_value_zero)

lemma scan_pad2:
  assumes "rest = [] \<or> \<not> is_digit (hd rest)" "\<forall>ch \<in> set ws. is_space_char ch" "0 \<le> d"
  shows "scan_int (ws @ pad2 d @ rest) = Some (d, rest)"
proof -
  let ?ds = "replicate (2 - length (show_nat (nat d))) CHR ''0'' @ show_nat (nat d)"
  have "\<forall>ch \<in> set ?ds. is_digit ch"
    using show_nat_digits by (auto simp: is_digit_def digit_val_def)
  then have "scan_int (ws @ ?ds @ rest) = Some (int (digits_value ?ds), rest)"
    by (rule scan_digits(1)) (use assms in auto)
  then show ?thesis using assms(3) by (simp add: pad2_def show_int_def digits_value_zeros digits_value_show)
qed

lemma lit_simps [simp]: "scan_lit ch (ch # s) = Some s"
  by (simp add: scan_lit_def)

lemma not_digits: "\<not> is_digit CHR '']''" "\<not> is_digit CHR ''/''" "\<not> is_digit CHR '' ''"
  by (simp_all add: is_digit_def digit_val_def)

lemma scan_space_int [simp]: "scan_items (Item_Space # Item_Int # its) s = scan_items (Item_Int # its) s"
  by (simp add: scan_int_def)

lemma parse_log_line:
  assumes "0 \<le> d" "0 \<le> m"
  shows "parse_line (log_line ts d m y h tx rx) =
    Some \<lparr>lr_timestamp = word_of_int ts, lr_tx = tx, lr_rx = rx, lr_hour = word_of_int h\<rparr>"
proof -
  have sp: "\<forall>ch \<in> set '' ''. is_space_char ch" by (simp add: is_space_char_def)
  let ?r7 = "show_nat (unat rx)" let ?r6 = "show_nat (unat tx) @ '' '' @ ?r7"
  let ?r5 = "show_int h @ '' '' @ ?r6" let ?r4 = "show_int y @ '' '' @ ?r5"
  have i: "scan_int (show_int ts @ ''] '' @ pad2 d @ ''/'' @ pad2 m @ ''/'' @ ?r4) =
      Some (ts, ''] '' @ pad2 d @ ''/'' @ pad2 m @ ''/'' @ ?r4)"
    "scan_int ('' '' @ pad2 d @ ''/'' @ pad2 m @ ''/'' @ ?r4) = Some (d, ''/'' @ pad2 m @ ''/'' @ ?r4)"
    "scan_int (pad2 m @ ''/'' @ ?r4) = Some (m, ''/'' @ ?r4)" "scan_int ?r4 = Some (y, '' '' @ ?r5)"
    "scan_int ('' '' @ ?r5) = Some (h, '' '' @ ?r6)" "scan_int ('' '' @ ?r6) = Some (int (unat tx), '' '' @ ?r7)"
    "scan_int ('' '' @ ?r7) = Some (int (unat rx), [])"
    using scan_show_int [of "''] '' @ pad2 d @ ''/'' @ pad2 m @ ''/'' @ ?r4" "[]" ts]
      scan_pad2 [of "''/'' @ pad2 m @ ''/'' @ ?r4" "'' ''" d] scan_pad2 [of "''/'' @ ?r4" "[]" m]
      scan_show_int [of "'' '' @ ?r5" "[]" y] scan_show_int [of "'' '' @ ?r6" "'' ''" h]
      scan_show_nat [of "'' '' @ ?r7" "'' ''" "unat tx"] scan_show_nat [of "[]" "'' ''" "unat rx"] sp assms not_digits
    by simp_all
  have "scan_items log_format (log_line ts d m y h tx rx) = Some [ts, d, m, y, h, int (unat tx), int (unat rx)]"
    unfolding log_format_def log_line_def
    using i by (simp del: scan_items.simps(4))
  then show ?thesis by (simp add: parse_line_def)
qed

lemma le_bytes_length [simp]: "length (le_bytes n w) = n"
  by (simp add: le_bytes_def)

lemma le_bytes_Nil [simp]: "le_bytes n w = [] \<longleftrightarrow> n = 0"
  by (simp add: le_bytes_def)

lemma record_bytes_length [simp]: "length (record_bytes r) = 28"
  by (simp add: record_bytes_def)

text \<open>On lines that all parse, a chunk takes the next 15 records.\<close>

text \<open>The records of a log: its lines of the right form; others are skipped.\<close>

definition log_records :: "string list \<Rightarrow> log_record list" where
  "log_records lines = List.map_filter parse_line lines"

lemma log_records_simps [simp]:
  "log_records [] = []"
  "log_records (line # lines) = (case parse_line line of None \<Rightarrow> log_records lines | Some r \<Rightarrow> r # log_records lines)"
  "log_records (xs @ ys) = log_records xs @ log_records ys"
  by (simp_all add: log_records_def map_filter_def split: option.splits)

lemma log_records_all: "map parse_line lines = map Some rs \<Longrightarrow> log_records lines = rs"
  by (induction lines arbitrary: rs) (auto simp: Cons_eq_map_conv)

lemma read_records_taken:
  assumes "count \<le> CHUNK"
  shows "fst (read_records count lines acc) = acc @ concat (map record_bytes (take (CHUNK - count) (log_records lines)))"
    "log_records (snd (read_records count lines acc)) = drop (CHUNK - count) (log_records lines)"
    "\<exists>pre. lines = pre @ snd (read_records count lines acc)"
proof -
  have "fst (read_records count lines acc) = acc @ concat (map record_bytes (take (CHUNK - count) (log_records lines))) \<and>
    log_records (snd (read_records count lines acc)) = drop (CHUNK - count) (log_records lines) \<and>
    (\<exists>pre. lines = pre @ snd (read_records count lines acc))"
    using assms
  proof (induction count lines acc rule: read_records.induct)
    case (2 count line lines acc)
    show ?case
    proof (cases "count < CHUNK")
      case True
      then have n: "CHUNK - count = Suc (CHUNK - Suc count)" "Suc count \<le> CHUNK" by simp_all
      show ?thesis
      proof (cases "parse_line line")
        case None
        then show ?thesis using 2(1) [OF True None] True by (auto intro: exI [of _ "line # _"])
      next
        case (Some r)
        then show ?thesis using 2(2) [OF True Some n(2)] True n(1) by (auto intro: exI [of _ "line # _"])
      qed
    qed (use 2(3) in simp)
  qed simp
  then show "fst (read_records count lines acc) = acc @ concat (map record_bytes (take (CHUNK - count) (log_records lines)))"
    "log_records (snd (read_records count lines acc)) = drop (CHUNK - count) (log_records lines)"
    "\<exists>pre. lines = pre @ snd (read_records count lines acc)"
    by blast+
qed

text \<open>A reader of the records.\<close>

definition le_value :: "u8 list \<Rightarrow> nat" where
  "le_value bs = foldr (\<lambda>b a. unat b + 256 * a) bs 0"

fun unpack_records :: "nat \<Rightarrow> u8 list \<Rightarrow> log_record list option" where
  "unpack_records 0 bs = (if bs = [] then Some [] else None)"
| "unpack_records (Suc n) bs =
     (if bs = [] then Some []
      else if length bs < 28 then None
      else map_option (\<lambda>rs. \<lparr>lr_timestamp = word_of_nat (le_value (take 8 bs)),
          lr_tx = word_of_nat (le_value (take 8 (drop 8 bs))), lr_rx = word_of_nat (le_value (take 8 (drop 16 bs))),
          lr_hour = word_of_nat (le_value (take 4 (drop 24 bs)))\<rparr> # rs)
        (unpack_records n (drop 28 bs)))"

lemma le_value_bytes: "le_value (le_bytes n w) = unat w mod 256 ^ n"
proof -
  have step: "x mod 256 + 256 * (x div 256 mod 256 ^ n) = x mod 256 ^ Suc n" for x n :: nat
    using mod_mult2_eq [of x 256 "256 ^ n"] by simp
  have "foldr (\<lambda>b a. unat b + 256 * a) (map (\<lambda>i. ucast (drop_bit (8 * (k + i)) w) :: u8) [0..<n]) 0 =
      unat w div 256 ^ k mod 256 ^ n" for k
  proof (induction n arbitrary: k)
    case (Suc n)
    have up: "[0..<Suc n] = 0 # map Suc [0..<n]" by (simp add: map_Suc_upt upt_conv_Cons del: upt_Suc)
    have b: "unat (ucast (drop_bit (8 * k) w) :: u8) = unat w div 256 ^ k mod 256"
      by (simp only: unsigned_ucast_eq unat_drop_bit_eq) (simp add: take_bit_eq_mod drop_bit_eq_div power_mult)
    have "foldr (\<lambda>b a. unat b + 256 * a) (map (\<lambda>i. ucast (drop_bit (8 * (k + i)) w) :: u8) [0..<Suc n]) 0 =
        unat w div 256 ^ k mod 256 + 256 * (unat w div 256 ^ Suc k mod 256 ^ n)"
      using Suc [of "Suc k"] b by (simp add: up comp_def add.left_commute del: upt_Suc)
    also have "unat w div 256 ^ Suc k = unat w div 256 ^ k div 256" by (simp add: mult.commute flip: div_mult2_eq)
    finally show ?case using step by simp
  qed simp
  from this [of 0] show ?thesis by (simp add: le_value_def le_bytes_def)
qed

lemma le_bytes_inverse:
  "word_of_nat (le_value (le_bytes 8 (w :: u64))) = w" "word_of_nat (le_value (le_bytes 4 (h :: u32))) = h"
proof -
  have "unat w < 256 ^ 8" "unat h < 256 ^ 4"
    using unsigned_less [of w, where 'a = nat] unsigned_less [of h, where 'a = nat] by simp_all
  then show "word_of_nat (le_value (le_bytes 8 w)) = w" "word_of_nat (le_value (le_bytes 4 h)) = h"
    by (simp_all add: le_value_bytes)
qed

lemma unpack_packed: "length rs \<le> n \<Longrightarrow> unpack_records n (concat (map record_bytes rs)) = Some rs"
proof (induction rs arbitrary: n)
  case Nil
  then show ?case by (cases n) auto
next
  case (Cons r rs)
  then obtain n' where n: "n = Suc n'" "length rs \<le> n'" by (cases n) auto
  have peel: "unpack_records (Suc n') (record_bytes r @ xs) = map_option ((#) r) (unpack_records n' xs)" for xs
    by (cases r) (simp add: record_bytes_def le_bytes_inverse)
  show ?case by (simp only: n(1) list.map concat.simps peel Cons.IH [OF n(2)] option.map)
qed

section \<open>Properties\<close>

text \<open>
  Every line \<^verbatim>\<open>log_entry\<close> writes is parsed back by the monitor's \<^verbatim>\<open>sscanf\<close> to its time,
  byte counts and hour, and the packed records of any entries are unpacked to exactly these.
\<close>

theorem log_round_trip:
  assumes "\<forall>(ts, d, m, y, h, tx, rx) \<in> set es. 0 \<le> d \<and> 0 \<le> m" "length es \<le> CHUNK"
  shows "unpack_records CHUNK (fst (read_records 0 (map (\<lambda>(ts, d, m, y, h, tx, rx). log_line ts d m y h tx rx) es) [])) =
    Some (map (\<lambda>(ts, d, m, y, h, tx, rx). \<lparr>lr_timestamp = word_of_int ts, lr_tx = tx, lr_rx = rx, lr_hour = word_of_int h\<rparr>) es)"
proof -
  let ?rs = "map (\<lambda>(ts, d, m, y, h, tx, rx). \<lparr>lr_timestamp = word_of_int ts, lr_tx = tx, lr_rx = rx, lr_hour = word_of_int h\<rparr>) es"
  have "map parse_line (map (\<lambda>(ts, d, m, y, h, tx, rx). log_line ts d m y h tx rx) es) = map Some ?rs"
    using assms(1) parse_log_line by (induction es) auto
  from log_records_all [OF this] show ?thesis
    using unpack_packed [of ?rs CHUNK] assms(2) by (simp add: read_records_taken(1))
qed

text \<open>
  C38: \<^verbatim>\<open>stage_websocket_logs\<close> is the reference "the first fifteen records of the rest of the
  log": it takes exactly their bytes, skips lines of another form, and leaves the records after them.
\<close>

theorem read_records_reference:
  "fst (read_records 0 lines []) = concat (map record_bytes (take 15 (log_records lines))) \<and>
   log_records (snd (read_records 0 lines [])) = drop 15 (log_records lines) \<and>
   (\<exists>pre. lines = pre @ snd (read_records 0 lines []))"
  using read_records_taken [of 0 lines "[]"] by (simp add: CHUNK_def)

lemma log_round_trip_witness:
  "unpack_records CHUNK (fst (read_records 0 [log_line 1700000000 5 11 2025 9 123456 18446744073709551615] [])) =
    Some [\<lparr>lr_timestamp = 1700000000, lr_tx = 123456, lr_rx = 18446744073709551615, lr_hour = 9\<rparr>]"
  using log_round_trip [of "[(1700000000, 5, 11, 2025, 9, 123456, 18446744073709551615)]"] by (simp add: CHUNK_def)

end
