(* ===== verification/Base64.thy ===== *)
theory Base64
  imports Prelude
begin

text \<open>
  \<^verbatim>\<open>BandwidthMonitoringServer::base64_encode\<close> (\<^verbatim>\<open>src/bandwidth_monitor/monitoring_server.h\<close>), which
  encodes the SHA-1 digest of the websocket handshake, and the decoder of RFC 4648 it is proved
  against.
\<close>

unbundle bit_operations_syntax

section \<open>Model\<close>

definition encoding_table :: string where
  "encoding_table = ''ABCDEFGHIJKLMNOPQRSTUVWXYZabcdefghijklmnopqrstuvwxyz0123456789+/''"

definition mod_table :: "nat list" where "mod_table = [0, 2, 1]"

definition table_char :: "u32 \<Rightarrow> nat \<Rightarrow> char" where
  "table_char triple sh = encoding_table ! unat (drop_bit sh triple AND 0x3F)"

text \<open>One turn of the loop: three octets, missing ones 0, become four characters.\<close>

definition octet :: "u8 list \<Rightarrow> nat \<Rightarrow> u32" where
  "octet data i = (if i < length data then ucast (data ! i) else 0)"

definition group4 :: "u8 list \<Rightarrow> nat \<Rightarrow> string" where
  "group4 data i =
     (let triple = push_bit 0x10 (octet data i) + push_bit 0x08 (octet data (i + 1)) + octet data (i + 2)
      in [table_char triple (3 * 6), table_char triple (2 * 6), table_char triple (1 * 6), table_char triple (0 * 6)])"

text \<open>The loop runs while \<open>i < input_length\<close>; \<open>i\<close> moves by three, or less in the last turn.\<close>

function encode_loop :: "u8 list \<Rightarrow> nat \<Rightarrow> string" where
  "encode_loop data i = (if i < length data then group4 data i @ encode_loop data (i + 3) else [])"
  by pat_completeness auto

termination by (relation "measure (\<lambda>(data, i). length data - i)") auto

declare encode_loop.simps [simp del]

definition base64_encode :: "u8 list \<Rightarrow> string" where
  "base64_encode data =
     (let output_length = 4 * ((length data + 2) div 3);
          encoded = encode_loop data 0
      in fold (\<lambda>i e. e[output_length - 1 - i := CHR ''='']) [0..<mod_table ! (length data mod 3)] encoded)"

section \<open>The reference decoder\<close>

definition decode_char :: "char \<Rightarrow> nat option" where
  "decode_char ch =
     (let k = length (takeWhile (\<lambda>x. x \<noteq> ch) encoding_table)
      in if k < 64 then Some k else None)"

text \<open>Four characters; padding only in the last group, checked as RFC 4648 asks.\<close>

fun decode_group :: "char \<Rightarrow> char \<Rightarrow> char \<Rightarrow> char \<Rightarrow> u8 list option" where
  "decode_group a b c d =
     (case (decode_char a, decode_char b) of
        (Some a', Some b') \<Rightarrow>
          if c = CHR ''='' then
            (if d = CHR ''='' \<and> b' mod 16 = 0 then Some [word_of_nat (a' * 4 + b' div 16)] else None)
          else (case decode_char c of
              None \<Rightarrow> None
            | Some c' \<Rightarrow>
                if d = CHR ''='' then
                  (if c' mod 4 = 0
                   then Some [word_of_nat (a' * 4 + b' div 16), word_of_nat (b' mod 16 * 16 + c' div 4)] else None)
                else (case decode_char d of
                    None \<Rightarrow> None
                  | Some d' \<Rightarrow> Some [word_of_nat (a' * 4 + b' div 16), word_of_nat (b' mod 16 * 16 + c' div 4),
                                    word_of_nat (c' mod 4 * 64 + d')]))
      | _ \<Rightarrow> None)"

fun base64_decode :: "string \<Rightarrow> u8 list option" where
  "base64_decode [] = Some []"
| "base64_decode (a # b # c # d # rest) =
     (case decode_group a b c d of
        None \<Rightarrow> None
      | Some bs \<Rightarrow>
          if rest = [] then Some bs
          else if length bs < 3 then None
          else map_option (\<lambda>r. bs @ r) (base64_decode rest))"
| "base64_decode _ = None"

section \<open>Groups\<close>

lemma table_props:
  "length encoding_table = 64" "distinct encoding_table" "CHR ''='' \<notin> set encoding_table"
  by (simp_all add: encoding_table_def)

lemma decode_char_nth: "k < 64 \<Longrightarrow> decode_char (encoding_table ! k) = Some k"
proof -
  assume k: "k < 64"
  have "length (takeWhile (\<lambda>x. x \<noteq> xs ! k) xs) = k" if "distinct xs" "k < length xs" for xs :: string and k
    using that
  proof (induction xs arbitrary: k)
    case (Cons x xs)
    then show ?case by (cases k) auto
  qed simp
  from this [of encoding_table k] k table_props show ?thesis by (simp add: decode_char_def)
qed

definition triple_of :: "nat \<Rightarrow> nat \<Rightarrow> nat \<Rightarrow> nat" where
  "triple_of x y z = x * 65536 + y * 256 + z"

lemma unat_triple:
  "unat (push_bit 0x10 (ucast x :: u32) + push_bit 0x08 (ucast y) + ucast z) =
     triple_of (unat (x :: u8)) (unat (y :: u8)) (unat (z :: u8))"
proof -
  have b8: "unat w < 256" for w :: u8
    using unsigned_less [of w, where 'a = nat] by simp
  note b = b8 [of x] b8 [of y] b8 [of z]
  have u: "unat (ucast w :: u32) = unat w" for w :: u8
    using b8 [of w] by (simp add: unsigned_ucast_eq take_bit_nat_eq_self)
  have p1: "unat (push_bit 0x10 (ucast x :: u32)) = unat x * 65536"
    using b unat_mult_lem [THEN iffD1, of "ucast x :: u32" 65536] by (simp add: push_bit_eq_mult u)
  have p2: "unat (push_bit 0x08 (ucast y :: u32)) = unat y * 256"
    using b unat_mult_lem [THEN iffD1, of "ucast y :: u32" 256] by (simp add: push_bit_eq_mult u)
  have s1: "unat (push_bit 0x10 (ucast x :: u32) + push_bit 0x08 (ucast y)) = unat x * 65536 + unat y * 256"
    using b p1 p2 by (subst unat_add_lem [THEN iffD1]) simp_all
  show ?thesis unfolding triple_of_def using b s1 u [of z]
    by (subst unat_add_lem [THEN iffD1]) simp_all
qed

lemma table_char_unat: "table_char t sh = encoding_table ! (unat t div 2 ^ sh mod 64)"
proof -
  have "drop_bit sh t AND 0x3F = take_bit 6 (drop_bit sh t)"
    by (simp add: take_bit_eq_mask mask_eq_exp_minus_1)
  then have "unat (drop_bit sh t AND 0x3F) = take_bit 6 (unat (drop_bit sh t))"
    by (simp add: unsigned_take_bit_eq)
  also have "\<dots> = unat t div 2 ^ sh mod 64"
    by (simp only: unat_drop_bit_eq take_bit_eq_mod) (simp add: drop_bit_eq_div)
  finally show ?thesis by (simp add: table_char_def)
qed

lemma div_block: "r < k \<Longrightarrow> (k * a + r) div k = (a :: nat)"
  by simp

lemma mod_block: "r < k \<Longrightarrow> (k * a + r) mod k = (r :: nat)"
  by simp

lemma triple_digits:
  assumes "x < 256" "y < 256" "z < (256 :: nat)"
  shows "triple_of x y z div 2 ^ 18 mod 64 = x div 4"
    "triple_of x y z div 2 ^ 12 mod 64 = x mod 4 * 16 + y div 16"
    "triple_of x y z div 2 ^ 6 mod 64 = y mod 16 * 4 + z div 64"
    "triple_of x y z div 2 ^ 0 mod 64 = z mod 64"
proof -
  define a b c d e f where "a = x div 4" "b = x mod 4" "c = y div 16" "d = y mod 16" "e = z div 64" "f = z mod 64"
  note defs = this
  have xyz: "x = 4 * a + b" "y = 16 * c + d" "z = 64 * e + f"
    by (simp_all add: defs)
  have lt: "a < 64" "b < 4" "c < 16" "d < 16" "e < 4" "f < 64"
    using assms by (simp_all add: defs)
  have t: "triple_of x y z = 262144 * a + (65536 * b + 4096 * c + 256 * d + 64 * e + f)"
    "triple_of x y z = 4096 * (64 * a + (16 * b + c)) + (256 * d + 64 * e + f)"
    "triple_of x y z = 64 * (64 * (64 * a + 16 * b + c) + (4 * d + e)) + f"
    "triple_of x y z = 64 * (4096 * a + 1024 * b + 64 * c + 4 * d + e) + f"
    by (simp_all add: triple_of_def xyz)
  have "triple_of x y z div 262144 = a" unfolding t(1) using lt by (intro div_block) simp
  then show "triple_of x y z div 2 ^ 18 mod 64 = x div 4" using lt by (simp add: defs [symmetric])
  have "triple_of x y z div 4096 = 64 * a + (16 * b + c)" unfolding t(2) using lt by (intro div_block) simp
  moreover have "(64 * a + (16 * b + c)) mod 64 = 16 * b + c" using lt by (intro mod_block) simp
  ultimately show "triple_of x y z div 2 ^ 12 mod 64 = x mod 4 * 16 + y div 16"
    by (simp add: defs [symmetric] mult.commute)
  have "triple_of x y z div 64 = 64 * (64 * a + 16 * b + c) + (4 * d + e)"
    unfolding t(3) using lt by (intro div_block) simp
  moreover have "(64 * (64 * a + 16 * b + c) + (4 * d + e)) mod 64 = 4 * d + e" using lt by (intro mod_block) simp
  moreover have "(2 :: nat) ^ 6 = 64" by simp
  ultimately show "triple_of x y z div 2 ^ 6 mod 64 = y mod 16 * 4 + z div 64"
    by (simp only: defs [symmetric] mult.commute [of 4])
  have "triple_of x y z mod 64 = f" unfolding t(4) using lt by (intro mod_block) simp
  then show "triple_of x y z div 2 ^ 0 mod 64 = z mod 64" by (simp add: defs [symmetric])
qed

section \<open>The loop as a recursion on the data\<close>

definition group_chars :: "u8 \<Rightarrow> u8 \<Rightarrow> u8 \<Rightarrow> string" where
  "group_chars x y z =
     (let t = triple_of (unat x) (unat y) (unat z)
      in map (\<lambda>k. encoding_table ! (t div 2 ^ k mod 64)) [18, 12, 6, 0])"

fun raw_groups :: "u8 list \<Rightarrow> string" where
  "raw_groups [] = []"
| "raw_groups [x] = group_chars x 0 0"
| "raw_groups [x, y] = group_chars x y 0"
| "raw_groups (x # y # z # xs) = group_chars x y z @ raw_groups xs"

fun padded_groups :: "u8 list \<Rightarrow> string" where
  "padded_groups [] = []"
| "padded_groups [x] = take 2 (group_chars x 0 0) @ ''==''"
| "padded_groups [x, y] = take 3 (group_chars x y 0) @ ''=''"
| "padded_groups (x # y # z # xs) = group_chars x y z @ padded_groups xs"

lemma group4_chars:
  "group4 data i = group_chars (if i < length data then data ! i else 0)
     (if i + 1 < length data then data ! (i + 1) else 0) (if i + 2 < length data then data ! (i + 2) else 0)"
proof -
  have o: "octet data j = ucast (if j < length data then data ! j else 0)" for j
    by (simp add: octet_def)
  show ?thesis
    unfolding group4_def Let_def o table_char_unat unat_triple group_chars_def by simp
qed

lemma encode_loop_raw: "encode_loop data i = raw_groups (drop i data)"
proof (induction data i rule: encode_loop.induct)
  case (1 data i)
  show ?case
  proof (cases "i < length data")
    case False
    then show ?thesis by (simp add: encode_loop.simps [of data i])
  next
    case True
    then have IH: "encode_loop data (i + 3) = raw_groups (drop (i + 3) data)" by (rule 1)
    have d: "drop i data = data ! i # drop (Suc i) data" using True by (simp add: Cons_nth_drop_Suc)
    consider "length data = i + 1" | "length data = i + 2" | "i + 2 < length data" using True by linarith
    then show ?thesis
    proof cases
      case 1
      then show ?thesis using True IH d
        by (simp add: encode_loop.simps [of data i] group4_chars)
    next
      case 2
      then have "drop i data = [data ! i, data ! (i + 1)]" using d by (simp add: Cons_nth_drop_Suc [symmetric])
      then show ?thesis using 2 True IH by (simp add: encode_loop.simps [of data i] group4_chars)
    next
      case 3
      then have "drop i data = data ! i # data ! (i + 1) # data ! (i + 2) # drop (i + 3) data"
        by (simp add: d Cons_nth_drop_Suc [symmetric] numeral_3_eq_3)
      then show ?thesis using 3 True IH by (simp add: encode_loop.simps [of data i] group4_chars)
    qed
  qed
qed

lemma length_group_chars [simp]: "length (group_chars x y z) = 4"
  by (simp add: group_chars_def Let_def)

lemma length_raw_groups: "length (raw_groups xs) = 4 * ((length xs + 2) div 3)"
proof (induction xs rule: raw_groups.induct)
  case (4 x y z xs)
  have "(length (x # y # z # xs) + 2) div 3 = Suc ((length xs + 2) div 3)" by simp
  then show ?case using 4 by simp
qed simp_all

lemma pad_count:
  "mod_table ! (length xs mod 3) \<le> 2" "mod_table ! (length xs mod 3) \<le> length (raw_groups xs)"
proof -
  have "length xs mod 3 = 0 \<or> length xs mod 3 = 1 \<or> length xs mod 3 = 2" by presburger
  then show *: "mod_table ! (length xs mod 3) \<le> 2" by (auto simp: mod_table_def)
  show "mod_table ! (length xs mod 3) \<le> length (raw_groups xs)"
  proof (cases xs)
    case Nil
    then show ?thesis by (simp add: mod_table_def)
  next
    case (Cons a list)
    then have "1 \<le> (length xs + 2) div 3" by simp
    then show ?thesis unfolding length_raw_groups using * by linarith
  qed
qed

lemma pad_last:
  assumes "k \<le> 2" "k \<le> length e" and that: "n = length e"
  shows "fold (\<lambda>i e. e[n - 1 - i := c]) [0..<k] e = take (length e - k) e @ replicate k c"
proof -
  consider "k = 0" | "k = 1" | "k = 2" using assms(1) by linarith
  then show ?thesis
  proof cases
    case 1
    then show ?thesis by simp
  next
    case 2
    then show ?thesis using assms(2) that by (cases e rule: rev_cases) simp_all
  next
    case 3
    then obtain e' a b where "e = e' @ [a, b]"
      using assms(2) by (metis append.assoc append_Cons append_Nil le_zero_eq length_0_conv length_append_singleton
          not_less_eq_eq numeral_2_eq_2 rev_exhaust)
    then show ?thesis using 3 that by (simp add: upt_rec list_update_append numeral_2_eq_2)
  qed
qed

lemma pad_raw:
  "take (length (raw_groups xs) - mod_table ! (length xs mod 3)) (raw_groups xs) @
     replicate (mod_table ! (length xs mod 3)) CHR ''='' = padded_groups xs"
proof (induction xs rule: raw_groups.induct)
  case (4 x y z xs)
  have "length (x # y # z # xs) mod 3 = length xs mod 3" by simp
  then show ?case using 4 pad_count(2) [of xs] by simp
qed (simp_all add: mod_table_def numeral_2_eq_2)

lemma base64_encode_padded: "base64_encode data = padded_groups data"
  unfolding base64_encode_def Let_def encode_loop_raw drop_0 length_raw_groups [symmetric]
    pad_last [OF pad_count refl] pad_raw ..

section \<open>Decoding\<close>

lemma unat_u8_less: "unat (w :: u8) < 256"
  using unsigned_less [of w, where 'a = nat] by simp

lemma group_chars_digits:
  "group_chars x y z =
     [encoding_table ! (unat x div 4), encoding_table ! (unat x mod 4 * 16 + unat y div 16),
      encoding_table ! (unat y mod 16 * 4 + unat z div 64), encoding_table ! (unat z mod 64)]"
  using triple_digits [OF unat_u8_less unat_u8_less unat_u8_less, of x y z] by (simp add: group_chars_def Let_def)

lemma digit_bounds:
  fixes x y z :: u8
  shows "unat x div 4 < 64" "unat x mod 4 * 16 + unat y div 16 < 64"
    "unat y mod 16 * 4 + unat z div 64 < 64" "unat z mod 64 < 64"
proof -
  have "unat x mod 4 < 4" "unat y div 16 < 16" "unat y mod 16 < 16" "unat z div 64 < 4" "unat x div 4 < 64"
    using unat_u8_less [of x] unat_u8_less [of y] unat_u8_less [of z] by simp_all
  then show "unat x div 4 < 64" "unat x mod 4 * 16 + unat y div 16 < 64"
    "unat y mod 16 * 4 + unat z div 64 < 64" "unat z mod 64 < 64" by simp_all
qed

lemma table_not_pad: "k < 64 \<Longrightarrow> encoding_table ! k \<noteq> CHR ''=''"
  using table_props by (metis nth_mem)

lemma reassemble:
  fixes x y z :: nat
  assumes "y < 256" "z < 256"
  shows "x div 4 * 4 + (x mod 4 * 16 + y div 16) div 16 = x"
    "(x mod 4 * 16 + y div 16) mod 16 * 16 + (y mod 16 * 4 + z div 64) div 4 = y"
    "(y mod 16 * 4 + z div 64) mod 4 * 64 + z mod 64 = z"
proof -
  have lt: "y div 16 < 16" "z div 64 < 4" using assms by simp_all
  then have "(x mod 4 * 16 + y div 16) div 16 = x mod 4" "(x mod 4 * 16 + y div 16) mod 16 = y div 16"
    "(y mod 16 * 4 + z div 64) div 4 = y mod 16" "(y mod 16 * 4 + z div 64) mod 4 = z div 64" by simp_all
  then show "x div 4 * 4 + (x mod 4 * 16 + y div 16) div 16 = x"
    "(x mod 4 * 16 + y div 16) mod 16 * 16 + (y mod 16 * 4 + z div 64) div 4 = y"
    "(y mod 16 * 4 + z div 64) mod 4 * 64 + z mod 64 = z" by simp_all
qed

lemma decode_group_full:
  "decode_group (encoding_table ! (unat x div 4)) (encoding_table ! (unat x mod 4 * 16 + unat y div 16))
     (encoding_table ! (unat y mod 16 * 4 + unat z div 64)) (encoding_table ! (unat z mod 64)) = Some [x, y, z]"
  using digit_bounds(1) [of x] digit_bounds(2) [of x y] digit_bounds(3) [of y z] digit_bounds(4) [of z] reassemble(1,2) [OF unat_u8_less [of y] unat_u8_less [of z], of "unat x"] reassemble(3) [OF unat_u8_less [of y] unat_u8_less [of z]]
  by (simp add: decode_char_nth table_not_pad)

lemma decode_group_two:
  "decode_group (encoding_table ! (unat x div 4)) (encoding_table ! (unat x mod 4 * 16 + unat y div 16))
     (encoding_table ! (unat y mod 16 * 4)) CHR ''='' = Some [x, y]"
  using digit_bounds(1) [of x] digit_bounds(2) [of x y] digit_bounds(3) [of y 0] reassemble(1,2) [OF unat_u8_less [of y] unat_u8_less [of 0], of "unat x"] reassemble(3) [OF unat_u8_less [of y] unat_u8_less [of 0]]
  by (simp add: decode_char_nth table_not_pad)

lemma decode_group_one:
  "decode_group (encoding_table ! (unat x div 4)) (encoding_table ! (unat x mod 4 * 16))
     CHR ''='' CHR ''='' = Some [x]"
  using digit_bounds(1) [of x] digit_bounds(2) [of x 0] reassemble(1) [OF unat_u8_less [of 0] unat_u8_less [of 0], of "unat x"]
  by (simp add: decode_char_nth)

lemma padded_groups_Nil_iff: "padded_groups xs = [] \<longleftrightarrow> xs = []"
  by (cases xs rule: padded_groups.cases) (simp_all add: group_chars_def Let_def)

lemma decode_padded: "base64_decode (padded_groups xs) = Some xs"
proof (induction xs rule: padded_groups.induct)
  case (2 x)
  then show ?case using decode_group_one [of x] by (simp add: group_chars_digits del: decode_group.simps)
next
  case (3 x y)
  then show ?case using decode_group_two [of x y] by (simp add: group_chars_digits numeral_3_eq_3 del: decode_group.simps)
next
  case (4 x y z xs)
  then show ?case using decode_group_full [of x y z]
    by (simp add: group_chars_digits padded_groups_Nil_iff del: decode_group.simps)
qed simp

section \<open>Property\<close>

text \<open>
  C33: The text \<^verbatim>\<open>base64_encode\<close> produces for any data is the RFC 4648 encoding: a strict
  decoder gives back exactly the data, and the text has four characters for every three octets
  begun.
\<close>

theorem base64_round_trip:
  "base64_decode (base64_encode data) = Some data \<and>
   length (base64_encode data) = 4 * ((length data + 2) div 3)"
proof -
  have "length (padded_groups xs) = length (raw_groups xs)" for xs
    by (induction xs rule: padded_groups.induct) simp_all
  then show ?thesis by (simp only: base64_encode_padded decode_padded length_raw_groups)
qed

end
