(* ===== verification/Monitor.thy ===== *)
theory Monitor
  imports Landing Usage_Log Base64
begin

text \<open>
  The bandwidth monitor: \<^verbatim>\<open>BandwidthMonitorAccept\<close>, \<^verbatim>\<open>BandwidthDataTimer\<close> and
  \<^verbatim>\<open>BandwidthMonitoringServer\<close>, one connection to a browser that may be upgraded to a websocket
  (\<^verbatim>\<open>src/bandwidth_monitor/\<close>).

  What the objects read from outside is the record \<open>mon_env\<close>: the answer of the HTTP manager, the
  parser's \<^verbatim>\<open>get\<close>, Boost.Beast, SHA-1, the lines of the log file, the clock (time stamp and hour)
  and the two global speeds as whole numbers.
\<close>

section \<open>Accepting\<close>

record monitor_accept =
  ma_files :: "int list"
  ma_http :: "unit http_manager"
  ma_tls :: bool
  ma_indices :: "u64 \<rightharpoonup> nat"

definition monitor_accept_new ::
  "filesys \<Rightarrow> int list \<Rightarrow> bool \<Rightarrow> string \<Rightarrow> visits \<Rightarrow> (monitor_accept \<times> visits) result"
where
  "monitor_accept_new fs server_file enable_tls base_dir vs =
     ebind (manager_new fs base_dir [] vs) (\<lambda>(m, vs').
       Inr (\<lparr>ma_files = server_file, ma_http = m, ma_tls = enable_tls, ma_indices = Map.empty\<rparr>, vs'))"

definition monitor_queue_accept :: "int list \<Rightarrow> int \<Rightarrow> app_event \<Rightarrow> app_event result" where
  "monitor_queue_accept fs o' ev =
     ebind (if o' < 0 then Inl Undefined_Behaviour else file_at fs (nat o')) (\<lambda>fd.
       Inr (c_uring o' (Prep_accept fd (if o' = 0 then 0 else 1)) ev))"

definition monitor_init ::
  "monitor_accept \<times> app_event \<Rightarrow> (call_response \<times> monitor_accept \<times> app_event) result"
where
  "monitor_init = (\<lambda>(s, ev).
     ebind (monitor_queue_accept (ma_files s) 0 ev) (\<lambda>ev1.
     ebind (monitor_queue_accept (ma_files s) 1 ev1) (\<lambda>ev2.
       Inr (mk_response ''Bandwidth Monitor accept'' OP_HINT_NETWORK, s, ev2))))"

text \<open>The entry of a connection that ends stays in \<^verbatim>\<open>indices_\<close>.\<close>

fun monitor_accept_on_yield ::
  "cls event_type \<Rightarrow> monitor_accept \<times> app_event \<Rightarrow> (yield \<times> monitor_accept \<times> app_event) result"
where
  "monitor_accept_on_yield (ChildTaskCompletion c t st rc) (s, ev) =
     ebind (delete_child BandwidthMonitoringServer (map_at (ma_indices s) 0 t) ev) (\<lambda>ev'.
       Inr (None, s\<lparr>ma_indices := map_touch (ma_indices s) 0 t\<rparr>, ev'))"
| "monitor_accept_on_yield (IoUringResult c o' r) (s, ev) =
     (let (s', ev') =
        (if r \<ge> 0 then
           (let (idx, ev1) = construct_ev BandwidthMonitoringServer False (Ctor_BandwidthMonitoringServer [r] (ma_tls s)) ev;
                (taskid, ev2) = c_at BandwidthMonitoringServer idx Monitor_Start ev1
            in (s\<lparr>ma_indices := (ma_indices s)(taskid \<mapsto> idx)\<rparr>, ev2))
         else (s, ev))
      in ebind (monitor_queue_accept (ma_files s') o' ev') (\<lambda>ev''. Inr (None, s', ev'')))"
| "monitor_accept_on_yield _ _ = Inl Bad_Variant_Access"

section \<open>The one-second timer\<close>

record data_timer =
  dt_files :: "int list"
  dt_expirations :: nat

text \<open>\<open>fd\<close> is what \<^verbatim>\<open>timerfd_create\<close> returns, \<open>addr\<close> the address of \<^verbatim>\<open>expirations_\<close>.\<close>

definition timer_new :: "int \<Rightarrow> nat \<Rightarrow> data_timer" where
  "timer_new fd addr = \<lparr>dt_files = [fd], dt_expirations = addr\<rparr>"

definition prepare_timer :: "data_timer \<times> app_event \<Rightarrow> (call_response \<times> data_timer \<times> app_event) result" where
  "prepare_timer = (\<lambda>(s, ev).
     ebind (file_at (dt_files s) 0) (\<lambda>fd.
       Inr (mk_response ''BandwidthDataTimer timeout'' 0, s, c_uring ID_DEFAULT (Prep_read fd (dt_expirations s) 8) ev)))"

definition data_timer_on_yield :: "cls event_type \<Rightarrow> data_timer \<times> app_event \<Rightarrow> yield \<times> data_timer \<times> app_event" where
  "data_timer_on_yield e = (\<lambda>(s, ev). (Some (False, 1), s, ev))"

section \<open>One connection\<close>

datatype mon_state = Mon_Read | Mon_Write | Websocket_Init | Websocket_Logs | Websocket_Live

record monitor_server =
  ms_files :: "int list"
  ms_tls :: bool
  ms_timer :: u64
  ms_timerid :: u64
  ms_writerid :: u64
  ms_write_occurred :: bool
  ms_timeout_occurred :: bool
  ms_log :: "string list"
  ms_op :: mon_state
  ms_rec :: log_record
  ms_marker_addr :: nat
  ms_rec_addr :: nat

record 'p mon_env =
  me_answer :: "http_request \<Rightarrow> visits \<Rightarrow> http_response \<times> visits"
  me_get :: "'p \<Rightarrow> http_request"
  me_beast :: beast
  me_sha1 :: "u8 list \<Rightarrow> u8 list"
  me_log :: "string list"
  me_now :: u64
  me_hour :: u32
  me_rx_speed :: u64
  me_tx_speed :: u64

definition GUID :: string where "GUID = ''258EAFA5-E914-47DA-95CA-C5AB0DC85B11''"

definition monitor_ts :: timespec where "monitor_ts = \<lparr>tv_sec = 60, tv_nsec = 0\<rparr>"

definition text_bytes :: "string \<Rightarrow> u8 list" where
  "text_bytes s = map (of_nat \<circ> of_char) s"

definition monitor_new :: "int list \<Rightarrow> bool \<Rightarrow> nat \<Rightarrow> nat \<Rightarrow> app_event \<Rightarrow> monitor_server \<times> app_event" where
  "monitor_new fs enable_tls marker_addr rec_addr ev =
     (\<lparr>ms_files = fs, ms_tls = enable_tls, ms_timer = 0, ms_timerid = 0, ms_writerid = 0,
       ms_write_occurred = False, ms_timeout_occurred = False, ms_log = [], ms_op = Mon_Read,
       ms_rec = \<lparr>lr_timestamp = 0, lr_tx = 0, lr_rx = 0, lr_hour = 0\<rparr>,
       ms_marker_addr = marker_addr, ms_rec_addr = rec_addr\<rparr>,
      snd (construct_ev ReadWriteHTTP True (Ctor_ReadWriteHTTP fs enable_tls) ev))"

definition monitor_start ::
  "monitor_server \<times> app_event \<Rightarrow> (call_response \<times> monitor_server \<times> app_event) result"
where
  "monitor_start = (\<lambda>(s, ev).
     ebind (c_first ReadWriteHTTP Read_Http ev) (\<lambda>(_, ev1).
       let (t, ev2) = timer monitor_ts ev1
       in Inr (mk_response ''Starting up bandwidth monitor.'' OP_HINT_NETWORK, s\<lparr>ms_timer := t, ms_op := Mon_Read\<rparr>, ev2)))"

definition accept_key :: "(u8 list \<Rightarrow> u8 list) \<Rightarrow> string \<Rightarrow> string" where
  "accept_key sha1 key = base64_encode (sha1 (text_bytes (key @ GUID)))"

definition switching_response :: "beast \<Rightarrow> string \<Rightarrow> nat \<Rightarrow> http_response" where
  "switching_response bl key version =
     prepare_payload bl \<lparr>res_status = Switching_Protocols, res_version = version,
       res_fields = fields_set bl ''Sec-WebSocket-Accept'' key (fields_set bl ''Upgrade'' ''websocket''
         (fields_set bl ''Connection'' ''Upgrade'' [])), res_body = []\<rparr>"

definition stage_http_read ::
  "'p mon_env \<Rightarrow> http_request \<Rightarrow> visits \<Rightarrow> monitor_server \<times> app_event \<Rightarrow>
    (yield \<times> monitor_server \<times> app_event \<times> visits) result"
where
  "stage_http_read en req vs = (\<lambda>(s, ev).
     if req_method req = Get then
       (case (fields_find (me_beast en) ''Connection'' (req_fields req), fields_find (me_beast en) ''Upgrade'' (req_fields req)) of
          (Some conn, Some upgrade) \<Rightarrow>
            if conn \<noteq> ''Upgrade'' \<or> upgrade \<noteq> ''websocket'' then Inr (Some (True, - 1), s, ev, vs)
            else (case fields_find (me_beast en) ''Sec-WebSocket-Key'' (req_fields req) of
                None \<Rightarrow> Inl Out_Of_Range
              | Some key \<Rightarrow>
                  ebind (c_first ReadWriteHTTP (Write_Http (switching_response (me_beast en)
                           (accept_key (me_sha1 en) key) (req_version req))) ev)
                    (\<lambda>(_, ev'). Inr (None, s\<lparr>ms_op := Websocket_Init\<rparr>, ev', vs)))
        | _ \<Rightarrow>
            (let (resp, vs') = me_answer en req vs in
             ebind (c_first ReadWriteHTTP (Write_Http resp) ev)
               (\<lambda>(_, ev'). Inr (None, s\<lparr>ms_op := Mon_Write\<rparr>, ev', vs'))))
     else Inr (Some (True, - 1), s, ev, vs))"

definition stage_websocket_init ::
  "'p mon_env \<Rightarrow> monitor_server \<times> app_event \<Rightarrow> monitor_server \<times> app_event"
where
  "stage_websocket_init en = (\<lambda>(s, ev).
     let ev1 = snd (construct_ev BandwidthDataTimer True Ctor_BandwidthDataTimer ev);
         ev2 = snd (construct_ev WebsocketSocket True (Ctor_WebsocketSocket (ms_tls s)) ev1)
     in (s\<lparr>ms_log := me_log en, ms_op := Websocket_Logs\<rparr>, ev2))"

text \<open>\<^verbatim>\<open>sizeof(marker)\<close> and \<^verbatim>\<open>sizeof(rec)\<close>.\<close>

definition SIZEOF_MARKER :: u64 where "SIZEOF_MARKER = 24"
definition SIZEOF_REC :: u64 where "SIZEOF_REC = 28"

definition stage_websocket_logs ::
  "monitor_server \<times> app_event \<Rightarrow> (monitor_server \<times> app_event) result"
where
  "stage_websocket_logs = (\<lambda>(s, ev).
     let (chunk_data, rest) = read_records 0 (ms_log s) []; s' = s\<lparr>ms_log := rest\<rparr> in
     if chunk_data = [] then
       ebind (c_first WebsocketSocket (Write_Frame (ms_marker_addr s') SIZEOF_MARKER) ev)
         (\<lambda>(_, ev'). Inr (s'\<lparr>ms_op := Websocket_Live\<rparr>, ev'))
     else ebind (c_first WebsocketSocket (Write_Frame2 chunk_data) ev) (\<lambda>(_, ev'). Inr (s', ev')))"

definition stage_websocket_live ::
  "'p mon_env \<Rightarrow> u64 \<Rightarrow> monitor_server \<times> app_event \<Rightarrow> (monitor_server \<times> app_event) result"
where
  "stage_websocket_live en task = (\<lambda>(s, ev).
     let s1 = (if task = ms_writerid s then s\<lparr>ms_write_occurred := True\<rparr>
               else if task = ms_timerid s then s\<lparr>ms_timeout_occurred := True\<rparr> else s) in
     if ms_write_occurred s1 \<and> ms_timeout_occurred s1 \<or> ms_timerid s1 = 0 then
       (let s2 = s1\<lparr>ms_rec := \<lparr>lr_timestamp = me_now en, lr_tx = me_tx_speed en, lr_rx = me_rx_speed en,
                               lr_hour = me_hour en\<rparr>\<rparr> in
        ebind (c_first BandwidthDataTimer Prepare_Timer ev) (\<lambda>(tid, ev1).
        ebind (c_first WebsocketSocket (Write_Frame (ms_rec_addr s2) SIZEOF_REC) ev1) (\<lambda>(wid, ev2).
          Inr (s2\<lparr>ms_write_occurred := False, ms_timeout_occurred := False, ms_timerid := tid, ms_writerid := wid\<rparr>, ev2))))
     else Inr (s1, ev))"

type_synonym ('b, 'p) mon_world =
  "monitor_server \<times> app_event \<times> (u64 \<rightharpoonup> ('b, 'p) http_io) \<times> visits"

definition no_yield ::
  "('b, 'p) mon_world \<Rightarrow> (monitor_server \<times> app_event) result \<Rightarrow> (yield \<times> ('b, 'p) mon_world) result"
where
  "no_yield w r = (case w of (_, _, objs, vs) \<Rightarrow> ebind r (\<lambda>(s, ev). Inr (None, s, ev, objs, vs)))"

fun monitor_on_yield ::
  "'p mon_env \<Rightarrow> cls event_type \<Rightarrow> ('b, 'p) mon_world \<Rightarrow> (yield \<times> ('b, 'p) mon_world) result"
where
  "monitor_on_yield en (ChildTaskCompletion c t st rc) (s, ev, objs, vs) =
     (if rc \<le> 0 then Inr (Some (True, rc), s, ev, objs, vs)
      else case ms_op s of
        Mon_Read \<Rightarrow>
          (let ev1 = cancel_timer (ms_timer s) ev in
           ebind (take_request (me_get en) ev1 objs) (\<lambda>(req, objs').
           ebind (stage_http_read en req vs (s, ev1)) (\<lambda>(y, s', ev2, vs'). Inr (y, s', ev2, objs', vs'))))
      | Mon_Write \<Rightarrow>
          (let (i, ev1) = timer monitor_ts ev in
           no_yield (s, ev, objs, vs)
             (ebind (c_first ReadWriteHTTP Read_Http ev1) (\<lambda>(_, ev2). Inr (s\<lparr>ms_timer := i, ms_op := Mon_Read\<rparr>, ev2))))
      | Websocket_Init \<Rightarrow>
          (let (i, ev1) = timer \<lparr>tv_sec = 1200, tv_nsec = 0\<rparr> ev in
           no_yield (s, ev, objs, vs) (stage_websocket_logs (stage_websocket_init en (s\<lparr>ms_timer := i\<rparr>, ev1))))
      | Websocket_Logs \<Rightarrow> no_yield (s, ev, objs, vs) (stage_websocket_logs (s, ev))
      | Websocket_Live \<Rightarrow> no_yield (s, ev, objs, vs) (stage_websocket_live en t (s, ev)))"
| "monitor_on_yield en (Timeout t) w = Inr (Some (True, - 1), w)"
| "monitor_on_yield en _ w = Inr (None, w)"

section \<open>Runs of completions\<close>

definition mon_step ::
  "'p mon_env \<Rightarrow> u64 \<times> int \<Rightarrow> ('b, 'p) mon_world \<Rightarrow> ('b, 'p) mon_world result"
where
  "mon_step en c w =
     ebind (monitor_on_yield en (ChildTaskCompletion 0 (fst c) Finished (snd c)) w) (\<lambda>(y, w').
       if y = None then Inr w' else Inl (Runtime_Error ''the call has ended''))"

definition mon_calls :: "('b, 'p) mon_world \<Rightarrow> member_call list" where
  "mon_calls w = map qf_fun (function_q (fst (snd w)))"

text \<open>The frames that carry a list of records.\<close>

function log_chunks :: "log_record list \<Rightarrow> u8 list list" where
  "log_chunks rs = (if rs = [] then [] else concat (map record_bytes (take CHUNK rs)) # log_chunks (drop CHUNK rs))"
  by pat_completeness auto

termination by (relation "measure length") (auto simp: CHUNK_def)

declare log_chunks.simps [simp del]

lemma log_chunks_concat: "concat (log_chunks rs) = concat (map record_bytes rs)"
proof (induction rs rule: log_chunks.induct)
  case (1 rs)
  show ?case
  proof (cases "rs = []")
    case True
    then show ?thesis by (simp add: log_chunks.simps [of "[]"])
  next
    case False
    then show ?thesis
      using 1 by (subst log_chunks.simps) (simp flip: concat_append map_append)
  qed
qed

lemma concat_records_Nil: "concat (map record_bytes rs) = [] \<longleftrightarrow> rs = []"
  by (cases rs) (auto simp: record_bytes_def)

text \<open>One completion while the log is sent.\<close>

lemma logs_step:
  assumes "ms_op s = Websocket_Logs" "has_child WebsocketSocket ev" "log_records (ms_log s) = rs" "0 < snd c"
  shows "\<exists>s' ev'. mon_step en c (s, ev, objs, vs) = Inr (s', ev', objs, vs) \<and> has_child WebsocketSocket ev' \<and>
    ms_marker_addr s' = ms_marker_addr s \<and>
    (if rs = [] then ms_op s' = Websocket_Live \<and>
       map qf_fun (function_q ev') = map qf_fun (function_q ev) @ [Write_Frame (ms_marker_addr s) 24]
     else ms_op s' = Websocket_Logs \<and> log_records (ms_log s') = drop CHUNK rs \<and>
       map qf_fun (function_q ev') = map qf_fun (function_q ev) @ [Write_Frame2 (concat (map record_bytes (take CHUNK rs)))])"
proof -
  let ?f = "if rs = [] then Write_Frame (ms_marker_addr s) 24 else Write_Frame2 (concat (map record_bytes (take CHUNK rs)))"
  obtain i ev' where cf: "c_first WebsocketSocket ?f ev = Inr (i, ev')"
    "map qf_fun (function_q ev') = map qf_fun (function_q ev) @ [?f]" "has_child WebsocketSocket ev'"
    using assms(2) by (rule c_first_pair)
  obtain rest where rr: "read_records 0 (ms_log s) [] = (concat (map record_bytes (take CHUNK rs)), rest)"
    "log_records rest = drop CHUNK rs"
    using read_records_taken(1,2) [of 0 "ms_log s" "[]"] assms(3) by (metis append_Nil diff_zero prod.collapse zero_le)
  have ne: "concat (map record_bytes (take CHUNK rs)) = [] \<longleftrightarrow> rs = []"
    by (simp add: concat_records_Nil CHUNK_def del: concat_eq_Nil_conv)
  show ?thesis
    using cf rr ne assms(1,4)
    by (cases "rs = []")
      (simp_all add: mon_step_def no_yield_def stage_websocket_logs_def Let_def SIZEOF_MARKER_def del: concat_eq_Nil_conv)
qed

text \<open>All completions of the log phase.\<close>

lemma logs_run:
  assumes "ms_op s = Websocket_Logs" "has_child WebsocketSocket ev" "log_records (ms_log s) = rs"
    and "length cs = Suc (length (log_chunks rs))" "\<forall>c \<in> set cs. 0 < snd c"
  shows "\<exists>s' ev'. efold (mon_step en) cs (s, ev, objs, vs) = Inr (s', ev', objs, vs) \<and> ms_op s' = Websocket_Live \<and>
    mon_calls (s', ev', objs, vs) = mon_calls (s, ev, objs, vs) @ map Write_Frame2 (log_chunks rs) @ [Write_Frame (ms_marker_addr s) 24] \<and>
    concat (log_chunks rs) = concat (map record_bytes rs) \<and> (\<forall>chunk \<in> set (log_chunks rs). length chunk \<le> CHUNK * 28)"
proof -
  have "\<exists>s' ev'. efold (mon_step en) cs (s, ev, objs, vs) = Inr (s', ev', objs, vs) \<and> ms_op s' = Websocket_Live \<and>
    map qf_fun (function_q ev') = map qf_fun (function_q ev) @ map Write_Frame2 (log_chunks rs) @ [Write_Frame (ms_marker_addr s) 24]"
    using assms
  proof (induction rs arbitrary: s ev cs rule: log_chunks.induct)
    case (1 rs)
    obtain c cs' where cs: "cs = c # cs'" "0 < snd c" using 1 by (cases cs) auto
    obtain s1 ev1 where st: "mon_step en c (s, ev, objs, vs) = Inr (s1, ev1, objs, vs)" "has_child WebsocketSocket ev1"
      "ms_marker_addr s1 = ms_marker_addr s"
      "if rs = [] then ms_op s1 = Websocket_Live \<and>
         map qf_fun (function_q ev1) = map qf_fun (function_q ev) @ [Write_Frame (ms_marker_addr s) 24]
       else ms_op s1 = Websocket_Logs \<and> log_records (ms_log s1) = drop CHUNK rs \<and>
         map qf_fun (function_q ev1) = map qf_fun (function_q ev) @ [Write_Frame2 (concat (map record_bytes (take CHUNK rs)))]"
      using logs_step [OF 1(2-4) cs(2)] by blast
    show ?case
    proof (cases "rs = []")
      case True
      then have "cs' = []" using 1(5) cs(1) by (simp add: log_chunks.simps [of "[]"])
      then show ?thesis using st cs True by (simp add: log_chunks.simps [of "[]"])
    next
      case False
      have lc: "log_chunks rs = concat (map record_bytes (take CHUNK rs)) # log_chunks (drop CHUNK rs)"
        using False by (subst log_chunks.simps) simp
      have "length cs' = Suc (length (log_chunks (drop CHUNK rs)))" "\<forall>c \<in> set cs'. 0 < snd c"
        using 1(5,6) cs(1) lc by simp_all
      moreover have s1: "ms_op s1 = Websocket_Logs" "log_records (ms_log s1) = drop CHUNK rs"
        using st(4) False by simp_all
      ultimately obtain s' ev' where "efold (mon_step en) cs' (s1, ev1, objs, vs) = Inr (s', ev', objs, vs)" "ms_op s' = Websocket_Live"
        "map qf_fun (function_q ev') = map qf_fun (function_q ev1) @ map Write_Frame2 (log_chunks (drop CHUNK rs)) @
           [Write_Frame (ms_marker_addr s1) 24]"
        using 1(1) [OF False s1(1) st(2) s1(2)] by blast
      then show ?thesis using st(1,3,4) False cs lc by simp
    qed
  qed
  moreover have "\<forall>chunk \<in> set (log_chunks rs). length chunk \<le> CHUNK * 28"
  proof (induction rs rule: log_chunks.induct)
    case (1 rs)
    have "length (concat (map record_bytes xs)) = length xs * 28" for xs by (induction xs) auto
    then show ?case using 1 by (subst log_chunks.simps) auto
  qed
  ultimately show ?thesis using log_chunks_concat by (auto simp: mon_calls_def)
qed

text \<open>
  While the log is sent, every completed write is followed by the next frame of at most
  15 records; together the frames are exactly the records of the log in order, and they are followed
  by the marker frame, after which live measurements start.
\<close>

theorem log_streamed:
  assumes "ms_op s = Websocket_Logs" "has_child WebsocketSocket ev" "log_records (ms_log s) = rs"
    and "length cs = Suc (length (log_chunks rs))" "\<forall>c \<in> set cs. 0 < snd c"
  shows "\<exists>s' ev'. efold (mon_step en) cs (s, ev, objs, vs) = Inr (s', ev', objs, vs) \<and> ms_op s' = Websocket_Live \<and>
    mon_calls (s', ev', objs, vs) = mon_calls (s, ev, objs, vs) @ map Write_Frame2 (log_chunks rs) @ [Write_Frame (ms_marker_addr s) 24] \<and>
    concat (log_chunks rs) = concat (map record_bytes rs) \<and> (\<forall>chunk \<in> set (log_chunks rs). length chunk \<le> CHUNK * 28)"
  using assms by (rule logs_run)

definition demo_env :: "http_request mon_env" where
  "demo_env = \<lparr>me_answer = (\<lambda>req vs. (prepare_response list_beast [] Ok [] 11, vs)), me_get = id, me_beast = list_beast,
     me_sha1 = id, me_log = [], me_now = 1700000000, me_hour = 9, me_rx_speed = 5, me_tx_speed = 6\<rparr>"

definition demo_logs :: "string list \<Rightarrow> (unit, http_request) mon_world" where
  "demo_logs ls = (let (s, ev) = stage_websocket_init (demo_env\<lparr>me_log := ls\<rparr>) (monitor_new [9] True 8192 8300 (new_event empty_uring_data))
     in (s, ev, Map.empty, []))"

lemma has_child_construct_other [simp]:
  "has_child cl (snd (construct_ev cl' sh k ev)) \<longleftrightarrow> cl = cl' \<or> has_child cl ev"
proof (cases "cl = cl'")
  case False
  obtain i ev' where c: "construct_ev cl' sh k ev = (i, ev')" by fastforce
  then have "slots cl ev' = slots cl ev" using construct_slots(3) [OF c] False by blast
  then show ?thesis using False c by (simp add: has_child_def)
qed simp

lemma demo_logs_state:
  obtains s ev where "demo_logs ls = (s, ev, Map.empty, [])" "ms_op s = Websocket_Logs" "has_child WebsocketSocket ev"
    "ms_log s = ls" "ms_marker_addr s = 8192" "function_q ev = []"
  by (simp add: demo_logs_def stage_websocket_init_def monitor_new_def demo_env_def Let_def)
    (simp add: construct_ev_def set_slots_def new_event_def Let_def)

lemma log_streamed_witness:
  "\<exists>s' ev'. efold (mon_step demo_env) [(3, 28), (4, 24)] (demo_logs [log_line 1700000000 5 11 2025 9 1 2]) = Inr (s', ev', Map.empty :: u64 \<rightharpoonup> (unit, http_request) http_io, []) \<and>
    mon_calls (s', ev', Map.empty :: u64 \<rightharpoonup> (unit, http_request) http_io, []) =
      [Write_Frame2 (record_bytes \<lparr>lr_timestamp = 1700000000, lr_tx = 1, lr_rx = 2, lr_hour = 9\<rparr>), Write_Frame 8192 24]"
proof -
  let ?r = "\<lparr>lr_timestamp = 1700000000, lr_tx = 1, lr_rx = 2, lr_hour = 9\<rparr>"
  obtain s ev where w: "demo_logs [log_line 1700000000 5 11 2025 9 1 2] = (s, ev, Map.empty, [])"
    "ms_op s = Websocket_Logs" "has_child WebsocketSocket ev" "ms_log s = [log_line 1700000000 5 11 2025 9 1 2]"
    "ms_marker_addr s = 8192" "function_q ev = []"
    by (rule demo_logs_state)
  have lc: "log_chunks [?r] = [record_bytes ?r]"
    by (subst log_chunks.simps) (simp add: CHUNK_def log_chunks.simps [of "[]"])
  have p: "log_records (ms_log s) = [?r]" using w(4) by (simp add: parse_log_line)
  have "length [(3 :: u64, 28 :: int), (4, 24)] = Suc (length (log_chunks [?r]))" "\<forall>c \<in> set [(3 :: u64, 28 :: int), (4, 24)]. 0 < snd c"
    by (simp_all add: lc)
  from log_streamed [OF w(2,3) p this, where en = demo_env and objs = "Map.empty :: u64 \<rightharpoonup> (unit, http_request) http_io" and vs = "[]"] obtain s' ev'
    where r: "efold (mon_step demo_env) [(3, 28), (4, 24)] (s, ev, Map.empty, []) = Inr (s', ev', Map.empty :: u64 \<rightharpoonup> (unit, http_request) http_io, [])"
      "mon_calls (s', ev', Map.empty :: u64 \<rightharpoonup> (unit, http_request) http_io, []) =
         mon_calls (s, ev, Map.empty :: u64 \<rightharpoonup> (unit, http_request) http_io, []) @ map Write_Frame2 (log_chunks [?r]) @ [Write_Frame (ms_marker_addr s) 24]"
    by (elim exE conjE) (rule that)
  show ?thesis unfolding w(1) using r w(5,6) by (intro exI [of _ s'] exI [of _ ev']) (simp add: lc mon_calls_def del: efold.simps)
qed

section \<open>Live measurements\<close>



lemma c_first_ids:
  assumes "has_child cl ev"
  shows "\<exists>ev'. c_first cl f ev = Inr (local_proc_id (uring_data ev), ev') \<and>
    local_proc_id (uring_data ev') = local_proc_id (uring_data ev) + 1 \<and>
    map qf_fun (function_q ev') = map qf_fun (function_q ev) @ [f] \<and> (\<forall>cl'. has_child cl' ev' \<longleftrightarrow> has_child cl' ev)"
proof -
  let ?c = "c_at cl (first_child cl ev) f ev"
  have "fst ?c = local_proc_id (uring_data ev)" "local_proc_id (uring_data (snd ?c)) = local_proc_id (uring_data ev) + 1"
    by (simp_all add: c_at_def Let_def)
  then show ?thesis
    using c_first_child [OF assms, of f] function_q_c_at [of cl "first_child cl ev" f ev]
    by (intro exI [of _ "snd ?c"]) (metis has_child_c_at(1) prod.collapse)
qed




section \<open>The handshake\<close>

text \<open>
  A GET request with the headers of a websocket upgrade is answered "101 Switching
  Protocols" with the key RFC 6455 asks for; when that answer is written the connection gets its
  second timer and the websocket and sends the first frame of the log, or the marker if it is empty.
\<close>

theorem handshake_then_log:
  assumes "ms_op s = Mon_Read" "direct_ref ReadWriteHTTP 0 ev = Inr (Some i)" "objs i = Some ho" "hi_parser ho = Some q"
    and "req_method (me_get en q) = Get" "fields_find (me_beast en) ''Connection'' (req_fields (me_get en q)) = Some ''Upgrade''"
    and "fields_find (me_beast en) ''Upgrade'' (req_fields (me_get en q)) = Some ''websocket''"
    and "fields_find (me_beast en) ''Sec-WebSocket-Key'' (req_fields (me_get en q)) = Some key"
    and "0 < snd c" "0 < snd c'"
  shows "\<exists>s1 ev1 s2 ev2 objs'. mon_step en c (s, ev, objs, vs) = Inr (s1, ev1, objs', vs) \<and>
    mon_calls (s1, ev1, objs', vs) = mon_calls (s, ev, objs, vs) @
      [Write_Http (switching_response (me_beast en) (base64_encode (me_sha1 en (text_bytes (key @ GUID)))) (req_version (me_get en q)))] \<and>
    mon_step en c' (s1, ev1, objs', vs) = Inr (s2, ev2, objs', vs) \<and>
    has_child WebsocketSocket ev2 \<and> has_child BandwidthDataTimer ev2 \<and>
    (let chunk = fst (read_records 0 (me_log en) []) in
     mon_calls (s2, ev2, objs', vs) = mon_calls (s1, ev1, objs', vs) @
       [if chunk = [] then Write_Frame (ms_marker_addr s) 24 else Write_Frame2 chunk] \<and>
     ms_op s2 = (if chunk = [] then Websocket_Live else Websocket_Logs))"
proof -
  let ?ev = "cancel_timer (ms_timer s) ev"
  let ?f = "Write_Http (switching_response (me_beast en) (accept_key (me_sha1 en) key) (req_version (me_get en q)))"
  have "direct_ref ReadWriteHTTP 0 ?ev = Inr (Some i)" using assms(2) by (simp add: direct_ref_def cancel_timer_def)
  moreover have "has_child ReadWriteHTTP ?ev" using first_child_0 [OF assms(2)] by simp
  then obtain k ev1 where w: "c_first ReadWriteHTTP ?f ?ev = Inr (k, ev1)"
    "map qf_fun (function_q ev1) = map qf_fun (function_q ?ev) @ [?f]" by (rule c_first_pair)
  let ?s1 = "s\<lparr>ms_op := Websocket_Init\<rparr>" and ?objs = "objs(i \<mapsto> ho\<lparr>hi_parser := None\<rparr>)"
  have 1: "mon_step en c (s, ev, objs, vs) = Inr (?s1, ev1, ?objs, vs)"
    using calculation assms w(1)
    by (simp add: mon_step_def take_request_def http_get_data_def stage_http_read_def Let_def)
  have c1: "mon_calls (?s1, ev1, ?objs, vs) = mon_calls (s, ev, objs, vs) @ [?f]"
    using w(2) by (simp add: mon_calls_def cancel_timer_def)
  let ?s2 = "?s1\<lparr>ms_timer := fst (timer \<lparr>tv_sec = 1200, tv_nsec = 0\<rparr> ev1)\<rparr>"
  let ?ev2 = "snd (timer \<lparr>tv_sec = 1200, tv_nsec = 0\<rparr> ev1)"
  obtain s3 ev3 where i: "stage_websocket_init en (?s2, ?ev2) = (s3, ev3)" by fastforce
  have s3: "s3 = ?s2\<lparr>ms_log := me_log en, ms_op := Websocket_Logs\<rparr>" "has_child WebsocketSocket ev3" "has_child BandwidthDataTimer ev3"
    "map qf_fun (function_q ev3) = map qf_fun (function_q ev1)"
    using i by (auto simp: stage_websocket_init_def Let_def) (simp add: construct_ev_def set_slots_def timer_def Let_def)
  obtain chunk rest where rr: "read_records 0 (me_log en) [] = (chunk, rest)" by fastforce
  let ?g = "if chunk = [] then Write_Frame (ms_marker_addr s) 24 else Write_Frame2 chunk"
  obtain ev4 where g: "c_first WebsocketSocket ?g ev3 = Inr (local_proc_id (uring_data ev3), ev4)"
    "map qf_fun (function_q ev4) = map qf_fun (function_q ev3) @ [?g]" "\<forall>cl. has_child cl ev4 \<longleftrightarrow> has_child cl ev3"
    using c_first_ids [OF s3(2), of ?g] by blast
  let ?s4 = "s3\<lparr>ms_log := rest, ms_op := if chunk = [] then Websocket_Live else Websocket_Logs\<rparr>"
  have "stage_websocket_logs (s3, ev3) = Inr (?s4, ev4)"
    using g(1) rr by (cases "chunk = []") (simp_all add: stage_websocket_logs_def s3(1) SIZEOF_MARKER_def)
  then have "mon_step en c' (?s1, ev1, ?objs, vs) = Inr (?s4, ev4, ?objs, vs)"
    using assms(10) i by (simp add: mon_step_def no_yield_def split_beta)
  moreover have "mon_calls (?s4, ev4, ?objs, vs) = mon_calls (?s1, ev1, ?objs, vs) @ [?g]"
    using g(2) s3(4) by (simp add: mon_calls_def)
  ultimately show ?thesis
    using 1 c1 g(3) s3(2,3) rr unfolding accept_key_def
    by (intro exI [of _ ?s1] exI [of _ ev1] exI [of _ ?s4] exI [of _ ev4] exI [of _ ?objs]) simp
qed


definition demo_upgrade :: http_request where
  "demo_upgrade = (demo_get ''/live'')\<lparr>req_fields := [(''Connection'', ''Upgrade''), (''Upgrade'', ''websocket''),
     (''Sec-WebSocket-Key'', ''dGhlIHNhbXBsZSBub25jZQ=='')]\<rparr>"

definition demo_connection :: app_event where
  "demo_connection = set_slots ReadWriteHTTP [Some \<lparr>ev_locator = None, ev_event = Some 5\<rparr>] (new_event empty_uring_data)"

definition demo_http_io :: "(unit, http_request) http_io" where
  "demo_http_io = \<lparr>hi_files = [9], hi_tls = True, hi_read_op = True, hi_writer = 0, hi_reader = 0,
     hi_parser = Some demo_upgrade, hi_buffer = (), hi_wbuffer = ()\<rparr>"

lemma handshake_then_log_witness:
  "\<exists>s1 ev1 s2 ev2 objs'.
    mon_step demo_env (1, 1) (fst (monitor_new [9] True 8192 8300 demo_connection), demo_connection, [5 \<mapsto> demo_http_io], []) =
      Inr (s1, ev1, objs', []) \<and>
    mon_step demo_env (2, 1) (s1, ev1, objs', []) = Inr (s2, ev2, objs', []) \<and> ms_op s2 = Websocket_Live \<and>
    mon_calls (s2, ev2, objs', []) =
      [Write_Http (switching_response list_beast (base64_encode (text_bytes (''dGhlIHNhbXBsZSBub25jZQ=='' @ GUID))) 11),
       Write_Frame 8192 24]"
proof -
  let ?s = "fst (monitor_new [9] True 8192 8300 demo_connection)"
  have "ms_op ?s = Mon_Read" "ms_marker_addr ?s = 8192" by (simp_all add: monitor_new_def)
  moreover have "direct_ref ReadWriteHTTP 0 demo_connection = Inr (Some 5)" "function_q demo_connection = []"
    by (simp_all add: demo_connection_def direct_ref_def set_slots_def new_event_def)
  moreover have "hi_parser demo_http_io = Some demo_upgrade" by (simp add: demo_http_io_def)
  moreover have "req_method (me_get demo_env demo_upgrade) = Get" "req_version (me_get demo_env demo_upgrade) = 11"
    "fields_find (me_beast demo_env) ''Connection'' (req_fields (me_get demo_env demo_upgrade)) = Some ''Upgrade''"
    "fields_find (me_beast demo_env) ''Upgrade'' (req_fields (me_get demo_env demo_upgrade)) = Some ''websocket''"
    "fields_find (me_beast demo_env) ''Sec-WebSocket-Key'' (req_fields (me_get demo_env demo_upgrade)) =
       Some ''dGhlIHNhbXBsZSBub25jZQ==''"
    by (simp_all add: demo_upgrade_def demo_env_def demo_get_def list_beast_def)
  moreover have "read_records 0 (me_log demo_env) [] = ([], [])" "me_beast demo_env = list_beast" "me_sha1 demo_env = id"
    by (simp_all add: demo_env_def)
  ultimately show ?thesis
    using handshake_then_log [where s = ?s and ev = demo_connection and i = 5 and objs = "[5 \<mapsto> demo_http_io]" and
        ho = demo_http_io and q = demo_upgrade and en = demo_env and key = "''dGhlIHNhbXBsZSBub25jZQ==''" and
        c = "(1, 1)" and c' = "(2, 1)" and vs = "[]"]
    by (fastforce simp: mon_calls_def)
qed

end
