(* ===== verification/Main_Loop.thy ===== *)
theory Main_Loop
  imports Monitor
begin

text \<open>
  The main thread (\<^verbatim>\<open>src/localsoftware.cpp\<close>: \<^verbatim>\<open>read_bytes\<close> and the loop of \<^verbatim>\<open>main\<close>): once a
  second it reads the byte counters of the network interface, publishes the difference as the speed, and
  logs hourly and daily totals.

  A turn sees a \<open>sample\<close>: the contents of the two counter files (none: it cannot be opened), the local
  time, and the visits that \<^verbatim>\<open>log_entry\<close> prints.
\<close>

section \<open>Model\<close>

record sample =
  sm_rx :: "string option"
  sm_tx :: "string option"
  sm_ts :: int
  sm_day :: int
  sm_month :: int
  sm_year :: int
  sm_hour :: int
  sm_visits :: visits

text \<open>\<^verbatim>\<open>f >> bytes\<close> into an \<^verbatim>\<open>unsigned long long\<close>: a number out of range sets the fail bit, a minus sign
  negates modulo the width.\<close>

definition read_bytes :: "string option \<Rightarrow> u64" where
  "read_bytes file =
     (case Option.bind file scan_int of
        None \<Rightarrow> 0
      | Some (i, _) \<Rightarrow> if \<bar>i\<bar> < 2 ^ 64 then word_of_int i else 0)"

text \<open>\<^verbatim>\<open>static_cast<double>\<close> of an unsigned number: 53 significant bits, rounded to the nearest, ties to
  even.  The value is a whole number.\<close>

function excess_bits :: "nat \<Rightarrow> nat" where
  "excess_bits n = (if n < 2 ^ 53 then 0 else Suc (excess_bits (n div 2)))"
  by pat_completeness auto

termination by (relation "measure id") auto

declare excess_bits.simps [simp del]

definition to_double :: "nat \<Rightarrow> nat" where
  "to_double n =
     (let e = excess_bits n; q = n div 2 ^ e; r = n mod 2 ^ e
      in (if 2 * r > 2 ^ e \<or> (2 * r = 2 ^ e \<and> odd q) then q + 1 else q) * 2 ^ e)"

record main_state =
  rx_prev :: u64
  tx_prev :: u64
  prev_day :: int
  prev_hour :: int
  hourly_rx :: u64
  hourly_tx :: u64
  daily_rx :: u64
  daily_tx :: u64
  global_rx_speed :: nat
  global_tx_speed :: nat

definition main_init :: "sample \<Rightarrow> main_state" where
  "main_init x = \<lparr>rx_prev = read_bytes (sm_rx x), tx_prev = read_bytes (sm_tx x), prev_day = sm_day x, prev_hour = sm_hour x,
     hourly_rx = 0, hourly_tx = 0, daily_rx = 0, daily_tx = 0, global_rx_speed = 0, global_tx_speed = 0\<rparr>"

definition counter_diff :: "u64 \<Rightarrow> u64 \<Rightarrow> u64" where
  "counter_diff now before = (if before \<le> now then now - before else 0)"

text \<open>The arguments of a call of \<^verbatim>\<open>log_entry\<close>.\<close>

type_synonym log_call = "int \<times> int \<times> int \<times> int \<times> int \<times> u64 \<times> u64"

definition log_call_at :: "sample \<Rightarrow> u64 \<Rightarrow> u64 \<Rightarrow> log_call" where
  "log_call_at x tx rx = (sm_ts x, sm_day x, sm_month x, sm_year x, sm_hour x, tx, rx)"

text \<open>One turn: the state after it and the calls of \<^verbatim>\<open>log_entry\<close>, in order.\<close>

definition main_step :: "sample \<Rightarrow> main_state \<Rightarrow> main_state \<times> log_call list" where
  "main_step x s =
     (let rx_curr = read_bytes (sm_rx x); tx_curr = read_bytes (sm_tx x);
          rx_diff = counter_diff rx_curr (rx_prev s); tx_diff = counter_diff tx_curr (tx_prev s);
          s = s\<lparr>global_rx_speed := to_double (unat rx_diff), global_tx_speed := to_double (unat tx_diff),
                hourly_rx := hourly_rx s + rx_diff, hourly_tx := hourly_tx s + tx_diff,
                daily_rx := daily_rx s + rx_diff, daily_tx := daily_tx s + tx_diff,
                rx_prev := rx_curr, tx_prev := tx_curr\<rparr>
      in if sm_hour x \<noteq> prev_hour s then
           (let c1 = [log_call_at x (hourly_tx s) (hourly_rx s)];
                s = s\<lparr>hourly_rx := 0, hourly_tx := 0\<rparr>;
                (s, c2) = (if prev_day s \<noteq> sm_day x
                  then (s\<lparr>daily_rx := 0, daily_tx := 0\<rparr>, [log_call_at x (daily_tx s) (daily_rx s)])
                  else (s, []))
            in (s\<lparr>prev_day := sm_day x, prev_hour := sm_hour x\<rparr>, c1 @ c2))
         else (s, []))"

text \<open>The turns of the loop with the calls of each.\<close>

fun main_run :: "sample list \<Rightarrow> main_state \<Rightarrow> main_state \<times> log_call list list" where
  "main_run [] s = (s, [])"
| "main_run (x # xs) s =
     (let (s', cs) = main_step x s; (s'', css) = main_run xs s' in (s'', cs # css))"

text \<open>Their effect on the files; \<open>ctime\<close> is the formatting of a time.\<close>

definition log_calls :: "(int \<Rightarrow> string) \<Rightarrow> visits \<Rightarrow> log_call list \<Rightarrow> log_files \<Rightarrow> log_files" where
  "log_calls ctime vs cs fl = fold (\<lambda>(ts, d, m, y, h, tx, rx). log_entry ctime ts d m y h tx rx vs) cs fl"

fun log_run :: "(int \<Rightarrow> string) \<Rightarrow> sample list \<Rightarrow> log_call list list \<Rightarrow> log_files \<Rightarrow> log_files" where
  "log_run ctime (x # xs) (cs # css) fl = log_run ctime xs css (log_calls ctime (sm_visits x) cs fl)"
| "log_run ctime _ _ fl = fl"

section \<open>Accounting\<close>

text \<open>The amounts logged for the hour and for the day by the calls of one turn.\<close>

definition call_tx :: "nat \<Rightarrow> log_call list \<Rightarrow> u64" where
  "call_tx i cs = (if i < length cs then (case cs ! i of (_, _, _, _, _, tx, _) \<Rightarrow> tx) else 0)"

definition call_rx :: "nat \<Rightarrow> log_call list \<Rightarrow> u64" where
  "call_rx i cs = (if i < length cs then (case cs ! i of (_, _, _, _, _, _, rx) \<Rightarrow> rx) else 0)"

lemma main_step_accounts:
  assumes "main_step x s = (s', cs)"
  shows "call_tx 0 cs + hourly_tx s' = hourly_tx s + counter_diff (read_bytes (sm_tx x)) (tx_prev s)"
    "call_rx 0 cs + hourly_rx s' = hourly_rx s + counter_diff (read_bytes (sm_rx x)) (rx_prev s)"
    "call_tx 1 cs + daily_tx s' = daily_tx s + counter_diff (read_bytes (sm_tx x)) (tx_prev s)"
    "call_rx 1 cs + daily_rx s' = daily_rx s + counter_diff (read_bytes (sm_rx x)) (rx_prev s)"
    "tx_prev s' = read_bytes (sm_tx x)" "rx_prev s' = read_bytes (sm_rx x)"
  using assms by (auto simp: main_step_def call_tx_def call_rx_def log_call_at_def Let_def split: if_splits)

lemma account_step:
  fixes c :: "'a::ab_group_add"
  assumes "c + h1 = h + d" "S + h' = h1 + (p' - p1)" "d = p1 - p"
  shows "(c + S) + h' = h + (p' - p)"
proof -
  have "(c + S) + h' = c + (S + h')" by (simp add: add.assoc)
  also have "\<dots> = (c + h1) + (p' - p1)" by (simp add: assms(2) add.assoc)
  also have "\<dots> = h + (p' - p)" by (simp add: assms(1,3))
  finally show ?thesis .
qed

lemma main_run_accounts:
  assumes "main_run xs s = (s', css)" "sorted (tx_prev s # map (\<lambda>x. read_bytes (sm_tx x)) xs)"
    "sorted (rx_prev s # map (\<lambda>x. read_bytes (sm_rx x)) xs)" "i < 2"
  shows "sum_list (map (call_tx i) css) + (if i = 0 then hourly_tx s' else daily_tx s') =
      (if i = 0 then hourly_tx s else daily_tx s) + (tx_prev s' - tx_prev s) \<and>
    sum_list (map (call_rx i) css) + (if i = 0 then hourly_rx s' else daily_rx s') =
      (if i = 0 then hourly_rx s else daily_rx s) + (rx_prev s' - rx_prev s)"
  using assms(1-3)
proof (induction xs arbitrary: s css)
  case Nil
  then show ?case by simp
next
  case (Cons x xs)
  obtain s1 cs where st: "main_step x s = (s1, cs)" by fastforce
  then obtain css' where r: "main_run xs s1 = (s', css')" "css = cs # css'" using Cons.prems(1) by (auto split: prod.splits)
  note acc = main_step_accounts [OF st]
  have d: "counter_diff (read_bytes (sm_tx x)) (tx_prev s) = tx_prev s1 - tx_prev s"
    "counter_diff (read_bytes (sm_rx x)) (rx_prev s) = rx_prev s1 - rx_prev s"
    using Cons.prems(2,3) acc(5,6) by (simp_all add: counter_diff_def)
  have "sorted (tx_prev s1 # map (\<lambda>x. read_bytes (sm_tx x)) xs)" "sorted (rx_prev s1 # map (\<lambda>x. read_bytes (sm_rx x)) xs)"
    using Cons.prems(2,3) acc(5,6) by simp_all
  note ih = Cons.IH [OF r(1) this]
  show ?case
  proof (cases "i = 0")
    case True
    then show ?thesis
      using account_step [OF acc(1) _ d(1)] account_step [OF acc(2) _ d(2)] ih r(2) by simp
  next
    case False
    then have i: "i = 1" using assms(4) by simp
    then show ?thesis
      using account_step [OF acc(3) _ d(1)] account_step [OF acc(4) _ d(2)] ih r(2) by simp
  qed
qed

lemma length_main_run: "main_run xs s = (s', css) \<Longrightarrow> length css = length xs"
  by (induction xs arbitrary: s css) (auto split: prod.splits)

lemma main_run_prev:
  "main_run xs s = (s', css) \<Longrightarrow>
    tx_prev s' = last (tx_prev s # map (\<lambda>x. read_bytes (sm_tx x)) xs) \<and>
    rx_prev s' = last (rx_prev s # map (\<lambda>x. read_bytes (sm_rx x)) xs)"
proof (induction xs arbitrary: s css)
  case (Cons x xs)
  obtain s1 cs where st: "main_step x s = (s1, cs)" by fastforce
  then obtain css' where "main_run xs s1 = (s', css')" using Cons.prems by (auto split: prod.splits)
  from Cons.IH [OF this] show ?case using main_step_accounts(5,6) [OF st] by simp
qed simp

text \<open>
  C7: No byte the interface counted is lost or counted twice: as long as the counters only
  grow, the hourly amounts logged and the amount of the running hour add up to the growth of the counter
  since the start, for both directions, and so do the daily amounts and the running day (modulo the
  width of the counters).
\<close>

theorem usage_conserved:
  assumes "main_run xs (main_init x0) = (s', css)"
    and "sorted (map (\<lambda>x. read_bytes (sm_tx x)) (x0 # xs))" "sorted (map (\<lambda>x. read_bytes (sm_rx x)) (x0 # xs))"
  shows "sum_list (map (call_tx 0) css) + hourly_tx s' = read_bytes (sm_tx (last (x0 # xs))) - read_bytes (sm_tx x0) \<and>
    sum_list (map (call_rx 0) css) + hourly_rx s' = read_bytes (sm_rx (last (x0 # xs))) - read_bytes (sm_rx x0) \<and>
    sum_list (map (call_tx 1) css) + daily_tx s' = read_bytes (sm_tx (last (x0 # xs))) - read_bytes (sm_tx x0) \<and>
    sum_list (map (call_rx 1) css) + daily_rx s' = read_bytes (sm_rx (last (x0 # xs))) - read_bytes (sm_rx x0)"
proof -
  let ?s = "main_init x0"
  have i: "tx_prev ?s = read_bytes (sm_tx x0)" "rx_prev ?s = read_bytes (sm_rx x0)"
    "hourly_tx ?s = 0" "hourly_rx ?s = 0" "daily_tx ?s = 0" "daily_rx ?s = 0"
    by (simp_all add: main_init_def)
  have p: "tx_prev s' = read_bytes (sm_tx (last (x0 # xs)))" "rx_prev s' = read_bytes (sm_rx (last (x0 # xs)))"
    using main_run_prev [OF assms(1)] i(1,2) by (simp_all add: last_map)
  have "sorted (tx_prev ?s # map (\<lambda>x. read_bytes (sm_tx x)) xs)" "sorted (rx_prev ?s # map (\<lambda>x. read_bytes (sm_rx x)) xs)"
    using assms(2,3) i(1,2) by simp_all
  from main_run_accounts [OF assms(1) this, of 0] main_run_accounts [OF assms(1) this, of 1]
  show ?thesis unfolding i p by simp
qed

section \<open>From the counters to the browser\<close>

definition call_line :: "log_call \<Rightarrow> string" where
  "call_line = (\<lambda>(ts, d, m, y, h, tx, rx). log_line ts d m y h tx rx)"

definition call_record :: "log_call \<Rightarrow> log_record" where
  "call_record = (\<lambda>(ts, d, m, y, h, tx, rx).
     \<lparr>lr_timestamp = word_of_int ts, lr_tx = tx, lr_rx = rx, lr_hour = word_of_int h\<rparr>)"

lemma usage_log_calls:
  "usage_log (log_calls ctime vs cs fl) = map_option (\<lambda>ls. ls @ map call_line cs) (usage_log fl)"
  by (induction cs arbitrary: fl) (auto simp: log_calls_def log_entry_def call_line_def option.map_comp comp_def option.map_ident)

lemma usage_log_run:
  "length css = length xs \<Longrightarrow>
    usage_log (log_run ctime xs css fl) = map_option (\<lambda>ls. ls @ map call_line (concat css)) (usage_log fl)"
  by (induction ctime xs css fl rule: log_run.induct) (auto simp: usage_log_calls option.map_comp comp_def option.map_ident)

lemma main_step_dates:
  assumes "main_step x s = (s', cs)" "0 \<le> sm_day x" "0 \<le> sm_month x"
  shows "map parse_line (map call_line cs) = map Some (map call_record cs)"
  using assms by (auto simp: main_step_def log_call_at_def call_line_def call_record_def Let_def parse_log_line split: if_splits)

lemma main_run_records:
  assumes "main_run xs s = (s', css)" "\<forall>x \<in> set xs. 0 \<le> sm_day x \<and> 0 \<le> sm_month x"
  shows "log_records (map call_line (concat css)) = map call_record (concat css)"
  using assms
proof (induction xs arbitrary: s css)
  case (Cons x xs)
  obtain s1 cs where st: "main_step x s = (s1, cs)" by fastforce
  then obtain css' where r: "main_run xs s1 = (s', css')" "css = cs # css'" using Cons.prems(1) by (auto split: prod.splits)
  show ?case
    using Cons.IH [OF r(1)] Cons.prems(2) r(2) log_records_all [OF main_step_dates [OF st]] by simp
qed simp

text \<open>
  C8: What the main loop logged is what a browser gets: after any run of the loop a client
  that opens the websocket is sent, in order, the records of the log as it was before and then one record
  for every call of \<^verbatim>\<open>log_entry\<close> with its time and totals, in frames of at most 15 records, and
  then the marker.
\<close>

theorem history_reaches_browser:
  assumes "main_run xs s = (s', css)" "\<forall>x \<in> set xs. 0 \<le> sm_day x \<and> 0 \<le> sm_month x"
    and "usage_log fl = Some old" "usage_log (log_run ctime xs css fl) = Some (ms_log ms)"
    and "ms_op ms = Websocket_Logs" "has_child WebsocketSocket ev"
    and "length cs = Suc (length (log_chunks (log_records old @ map call_record (concat css))))" "\<forall>c \<in> set cs. 0 < snd c"
  shows "\<exists>ms' ev' chunks. efold (mon_step en) cs (ms, ev, objs, vs) = Inr (ms', ev', objs, vs) \<and> ms_op ms' = Websocket_Live \<and>
    mon_calls (ms', ev', objs, vs) = mon_calls (ms, ev, objs, vs) @ map Write_Frame2 chunks @ [Write_Frame (ms_marker_addr ms) 24] \<and>
    concat chunks = concat (map record_bytes (log_records old @ map call_record (concat css))) \<and>
    (\<forall>chunk \<in> set chunks. length chunk \<le> 15 * 28)"
proof -
  have "ms_log ms = old @ map call_line (concat css)"
    using assms(3,4) usage_log_run [OF length_main_run [OF assms(1)], of ctime fl] by simp
  then have "log_records (ms_log ms) = log_records old @ map call_record (concat css)"
    using main_run_records [OF assms(1,2)] by simp
  from logs_run [OF assms(5,6) this assms(7,8), of en objs vs] show ?thesis
    by (auto simp: CHUNK_def)
qed

text \<open>
  When the hour and the day change, two lines are logged that the monitor cannot tell
  apart: both are read as a record of the same time and hour, the first with the totals of the hour and
  the second with the totals of the day, which contain them.
\<close>

theorem daily_total_streamed_as_hour:
  assumes "main_step x s = (s', cs)" "sm_hour x \<noteq> prev_hour s" "sm_day x \<noteq> prev_day s" "0 \<le> sm_day x" "0 \<le> sm_month x"
  shows "log_records (map call_line cs) =
    [\<lparr>lr_timestamp = word_of_int (sm_ts x), lr_tx = hourly_tx s + counter_diff (read_bytes (sm_tx x)) (tx_prev s),
      lr_rx = hourly_rx s + counter_diff (read_bytes (sm_rx x)) (rx_prev s), lr_hour = word_of_int (sm_hour x)\<rparr>,
     \<lparr>lr_timestamp = word_of_int (sm_ts x), lr_tx = daily_tx s + counter_diff (read_bytes (sm_tx x)) (tx_prev s),
      lr_rx = daily_rx s + counter_diff (read_bytes (sm_rx x)) (rx_prev s), lr_hour = word_of_int (sm_hour x)\<rparr>]"
  using assms by (auto simp: main_step_def log_call_at_def call_line_def Let_def parse_log_line split: if_splits)

section \<open>Speeds\<close>

lemma excess_bits_bound:
  "n < 2 ^ (53 + k) \<Longrightarrow> excess_bits n \<le> k"
proof (induction k arbitrary: n)
  case 0
  then show ?case by (subst excess_bits.simps) simp
next
  case (Suc k)
  then have "n < 2 ^ (53 + k) * 2" by (simp add: power_add)
  then have "n div 2 < 2 ^ (53 + k)" by (rule less_mult_imp_div_less)
  then show ?case using Suc.IH [of "n div 2"] by (subst excess_bits.simps) simp
qed

lemma round_close:
  fixes m q r :: nat
  assumes "r < m"
  shows "\<bar>int ((if 2 * r > m \<or> (2 * r = m \<and> odd q) then q + 1 else q) * m) - int (q * m + r)\<bar> \<le> int m div 2"
  using assms by (cases "2 * r > m \<or> (2 * r = m \<and> odd q)") (simp_all add: algebra_simps, linarith+)

lemma to_double_close: "\<bar>int (to_double n) - int n\<bar> \<le> int (2 ^ excess_bits n) div 2"
  using round_close [of "n mod 2 ^ excess_bits n" "2 ^ excess_bits n" "n div 2 ^ excess_bits n"]
  unfolding to_double_def Let_def by (simp only: div_mult_mod_eq mod_less_divisor zero_less_power zero_less_numeral True_implies_equals)

text \<open>
  The published speed is the growth of the counter in the last second, exactly below
  \<open>2 ^ 53\<close> bytes, and never off by more than 1024 bytes.
\<close>

theorem speed_rounding:
  assumes "main_step x s = (s', cs)" "d = unat (counter_diff (read_bytes (sm_tx x)) (tx_prev s))"
  shows "\<bar>int (global_tx_speed s') - int d\<bar> \<le> 1024 \<and> (d < 2 ^ 53 \<longrightarrow> global_tx_speed s' = d)"
proof -
  have g: "global_tx_speed s' = to_double d"
    using assms by (auto simp: main_step_def Let_def split: if_splits)
  have "d < 2 ^ (53 + 11)" using assms(2) unsigned_less [of "counter_diff (read_bytes (sm_tx x)) (tx_prev s)", where 'a = nat] by simp
  then have e: "excess_bits d \<le> 11" by (rule excess_bits_bound)
  then have "(2 :: nat) ^ excess_bits d \<le> 2 ^ 11" by (rule power_increasing) simp
  then have "(2 :: nat) ^ excess_bits d \<le> 2048" by simp
  then have "int (2 ^ excess_bits d) \<le> int 2048" by (simp only: of_nat_le_iff)
  then have "int (2 ^ excess_bits d) div 2 \<le> 1024" by linarith
  moreover have "d < 2 ^ 53 \<Longrightarrow> to_double d = d"
    by (simp add: to_double_def excess_bits.simps Let_def)
  ultimately show ?thesis using g to_double_close [of d] by linarith
qed


section \<open>Witnesses\<close>

definition demo_sample :: "string \<Rightarrow> string \<Rightarrow> int \<Rightarrow> int \<Rightarrow> sample" where
  "demo_sample rx tx day hour = \<lparr>sm_rx = Some rx, sm_tx = Some tx, sm_ts = 1700000000, sm_day = day, sm_month = 11, sm_year = 2025,
     sm_hour = hour, sm_visits = []\<rparr>"

lemma read_demo [simp]:
  "read_bytes (sm_rx (demo_sample rx tx day hour)) = read_bytes (Some rx)"
  "read_bytes (sm_tx (demo_sample rx tx day hour)) = read_bytes (Some tx)"
  by (simp_all add: demo_sample_def)

lemma read_numbers:
  "read_bytes (Some ''100'') = 100" "read_bytes (Some ''250'') = 250" "read_bytes (Some ''400'') = 400"
  by (code_simp, code_simp, code_simp)

definition demo_samples :: "sample list" where
  "demo_samples = [demo_sample ''250'' ''100'' 5 9, demo_sample ''400'' ''250'' 6 0]"

lemma demo_run:
  "\<exists>s'. main_run demo_samples (main_init (demo_sample ''100'' ''100'' 5 9)) =
    (s', [[], [log_call_at (demo_sample ''400'' ''250'' 6 0) 150 300, log_call_at (demo_sample ''400'' ''250'' 6 0) 150 300]]) \<and>
    hourly_tx s' = 0"
  by (simp add: demo_samples_def main_step_def main_init_def read_numbers counter_diff_def Let_def)
    (simp add: demo_sample_def log_call_at_def)

lemma usage_conserved_witness:
  "\<exists>s'. main_run demo_samples (main_init (demo_sample ''100'' ''100'' 5 9)) =
      (s', [[], [log_call_at (demo_sample ''400'' ''250'' 6 0) 150 300, log_call_at (demo_sample ''400'' ''250'' 6 0) 150 300]]) \<and>
    sum_list (map (call_tx 0) [[], [log_call_at (demo_sample ''400'' ''250'' 6 0) 150 300, log_call_at (demo_sample ''400'' ''250'' 6 0) 150 300]]) +
      hourly_tx s' = 250 - 100"
proof -
  obtain s' where r: "main_run demo_samples (main_init (demo_sample ''100'' ''100'' 5 9)) =
    (s', [[], [log_call_at (demo_sample ''400'' ''250'' 6 0) 150 300, log_call_at (demo_sample ''400'' ''250'' 6 0) 150 300]])"
    using demo_run by blast
  have "sorted (map (\<lambda>x. read_bytes (sm_tx x)) (demo_sample ''100'' ''100'' 5 9 # demo_samples))"
    "sorted (map (\<lambda>x. read_bytes (sm_rx x)) (demo_sample ''100'' ''100'' 5 9 # demo_samples))"
    by (simp_all add: demo_samples_def read_numbers)
  from usage_conserved [OF r this] r show ?thesis
    by (simp add: demo_samples_def read_numbers)
qed

lemma history_reaches_browser_witness:
  "\<exists>s' ms ev ms' ev'.
    main_run demo_samples (main_init (demo_sample ''100'' ''100'' 5 9)) =
      (s', [[], [log_call_at (demo_sample ''400'' ''250'' 6 0) 150 300, log_call_at (demo_sample ''400'' ''250'' 6 0) 150 300]]) \<and>
    efold (mon_step demo_env) [(3, 56), (4, 24)] (ms, ev, Map.empty :: u64 \<rightharpoonup> (unit, http_request) http_io, []) =
      Inr (ms', ev', Map.empty, []) \<and>
    (\<exists>chunks. mon_calls (ms', ev', Map.empty :: u64 \<rightharpoonup> (unit, http_request) http_io, []) =
        map Write_Frame2 chunks @ [Write_Frame 8192 24] \<and>
      concat chunks = concat (map record_bytes
        [\<lparr>lr_timestamp = 1700000000, lr_tx = 150, lr_rx = 300, lr_hour = 0\<rparr>,
         \<lparr>lr_timestamp = 1700000000, lr_tx = 150, lr_rx = 300, lr_hour = 0\<rparr>]))"
proof -
  let ?c = "log_call_at (demo_sample ''400'' ''250'' 6 0) 150 300"
  let ?s = "main_init (demo_sample ''100'' ''100'' 5 9)" and ?fl = "\<lparr>usage_log = Some [], access_log = []\<rparr>"
  let ?r = "\<lparr>lr_timestamp = 1700000000, lr_tx = 150, lr_rx = 300, lr_hour = 0\<rparr>"
  obtain s' where r: "main_run demo_samples ?s = (s', [[], [?c, ?c]])" using demo_run by blast
  have d: "\<forall>x \<in> set demo_samples. 0 \<le> sm_day x \<and> 0 \<le> sm_month x" by (simp add: demo_samples_def demo_sample_def)
  have rec: "map call_record (concat [[], [?c, ?c]]) = [?r, ?r]" by (simp add: call_record_def log_call_at_def demo_sample_def)
  obtain ms ev where w: "demo_logs (map call_line [?c, ?c]) = (ms, ev, Map.empty, [])" "ms_op ms = Websocket_Logs"
    "has_child WebsocketSocket ev" "ms_log ms = map call_line [?c, ?c]" "ms_marker_addr ms = 8192" "function_q ev = []"
    by (rule demo_logs_state)
  have l: "usage_log (log_run (\<lambda>_. []) demo_samples [[], [?c, ?c]] ?fl) = Some (ms_log ms)"
    using usage_log_run [OF length_main_run [OF r], of "\<lambda>_. []" ?fl] w(4) by simp
  have n: "length [(3 :: u64, 56 :: int), (4, 24)] = Suc (length (log_chunks (log_records [] @ map call_record (concat [[], [?c, ?c]]))))"
    unfolding rec by (simp add: log_chunks.simps CHUNK_def)
  have p: "\<forall>c \<in> set [(3 :: u64, 56 :: int), (4, 24)]. 0 < snd c" by simp
  have u: "usage_log ?fl = Some []" by simp
  obtain ms' ev' chunks where
    "efold (mon_step demo_env) [(3, 56), (4, 24)] (ms, ev, Map.empty :: u64 \<rightharpoonup> (unit, http_request) http_io, []) =
      Inr (ms', ev', Map.empty, [])"
    "mon_calls (ms', ev', Map.empty :: u64 \<rightharpoonup> (unit, http_request) http_io, []) =
      mon_calls (ms, ev, Map.empty :: u64 \<rightharpoonup> (unit, http_request) http_io, []) @ map Write_Frame2 chunks @ [Write_Frame (ms_marker_addr ms) 24]"
    "concat chunks = concat (map record_bytes (log_records [] @ map call_record (concat [[], [?c, ?c]])))"
    using history_reaches_browser [OF r d u l w(2,3) n p, where en = demo_env and vs = "[]" and
        objs = "Map.empty :: u64 \<rightharpoonup> (unit, http_request) http_io"]
    by (elim exE conjE) (rule that)
  then show ?thesis
    using r w(5,6) unfolding rec by (intro exI [of _ s'] exI [of _ ms] exI [of _ ev] exI [of _ ms'] exI [of _ ev'])
      (auto simp: mon_calls_def)
qed

lemma daily_total_streamed_as_hour_witness:
  "\<exists>s' cs. main_step (demo_sample ''400'' ''250'' 6 0) (main_init (demo_sample ''100'' ''100'' 5 9)) = (s', cs) \<and>
    log_records (map call_line cs) =
      [\<lparr>lr_timestamp = 1700000000, lr_tx = 150, lr_rx = 300, lr_hour = 0\<rparr>,
       \<lparr>lr_timestamp = 1700000000, lr_tx = 150, lr_rx = 300, lr_hour = 0\<rparr>]"
proof -
  let ?x = "demo_sample ''400'' ''250'' 6 0" and ?s = "main_init (demo_sample ''100'' ''100'' 5 9)"
  obtain s' cs where st: "main_step ?x ?s = (s', cs)" by fastforce
  have "sm_hour ?x \<noteq> prev_hour ?s" "sm_day ?x \<noteq> prev_day ?s" "0 \<le> sm_day ?x" "0 \<le> sm_month ?x"
    by (simp_all add: demo_sample_def main_init_def)
  from daily_total_streamed_as_hour [OF st this] st show ?thesis
    by (simp add: main_init_def read_numbers counter_diff_def) (simp add: demo_sample_def)
qed

lemma speed_rounding_witness:
  "\<exists>s' cs. main_step (demo_sample ''400'' ''250'' 6 0) (main_init (demo_sample ''100'' ''100'' 5 9)) = (s', cs) \<and>
    global_tx_speed s' = 150"
proof -
  let ?x = "demo_sample ''400'' ''250'' 6 0" and ?s = "main_init (demo_sample ''100'' ''100'' 5 9)"
  obtain s' cs where st: "main_step ?x ?s = (s', cs)" by fastforce
  have "150 = unat (counter_diff (read_bytes (sm_tx ?x)) (tx_prev ?s))"
    by (simp add: main_init_def read_numbers counter_diff_def)
  from speed_rounding [OF st this] st show ?thesis by simp
qed

end
