(* ===== verification/Proxy_Manager.thy ===== *)
theory Proxy_Manager
  imports Http_Manager
begin

text \<open>
  \<^verbatim>\<open>ReverseProxyManager\<close> (\<^verbatim>\<open>src/reverse_proxy/reverse_proxy_manager.cpp\<close>): the tokens of logged-in
  users, kept in bins of 20 minutes by the time stamp of the monotonic clock (seconds, never negative).
  A table is an association list whose first entry for a key counts; random digits are an argument.
\<close>

section \<open>Model\<close>

record proxy_manager =
  authd_uuids :: "(string \<times> int) list"
  authd_bins :: "(int \<times> (string \<times> int) list) list"
  peer_addr :: string
  peer_port :: int
  password :: string
  redirect_url :: string

definition bin_of :: "int \<Rightarrow> int" where
  "bin_of t = t div 1200 * 1200"

definition prev_bin :: "int \<Rightarrow> int" where
  "prev_bin t = (t div 1200 - 1) * 1200"

text \<open>\<^verbatim>\<open>authd_uuids_[key]\<close> without the entry it may insert.\<close>

definition bin_at :: "int \<Rightarrow> (int \<times> (string \<times> int) list) list \<Rightarrow> (string \<times> int) list" where
  "bin_at key bins = (case map_of bins key of None \<Rightarrow> [] | Some b \<Rightarrow> b)"

definition hex_lookup :: "nat \<Rightarrow> char" where
  "hex_lookup d = ''0123456789abcdef'' ! d"

text \<open>\<^verbatim>\<open>insert\<close> keeps the entry of a token that is there already.\<close>

definition create_new_token :: "int \<Rightarrow> nat list \<Rightarrow> proxy_manager \<Rightarrow> string \<times> proxy_manager" where
  "create_new_token now draws pm =
     (let tok = map hex_lookup draws; key = bin_of now; b = bin_at key (authd_bins pm);
          b' = (if map_of b tok = None then AList.update tok now b else b)
      in (tok, pm\<lparr>authd_bins := AList.update key b' (authd_bins pm)\<rparr>))"

definition check_auth :: "int \<Rightarrow> string \<Rightarrow> proxy_manager \<Rightarrow> bool \<times> proxy_manager" where
  "check_auth now token pm =
     (let bins = authd_bins pm;
          prevbucket = (case map_of (bin_at (prev_bin now) bins) token of None \<Rightarrow> False | Some stamp \<Rightarrow> now - stamp > 1200);
          bins' =
            (if prevbucket then
               (let b = AList.delete token (bin_at (prev_bin now) bins);
                    bins1 = (if b = [] then AList.delete (prev_bin now) bins else AList.update (prev_bin now) b bins)
                in AList.update (bin_of now) (AList.update token now (bin_at (bin_of now) bins1)) bins1)
             else bins)
      in (prevbucket \<or> map_of (bin_at (bin_of now) bins') token \<noteq> None, pm\<lparr>authd_bins := bins'\<rparr>))"

text \<open>Erasing the entry the loop stands on is undefined.\<close>

definition cleanup_tokens :: "int \<Rightarrow> proxy_manager \<Rightarrow> proxy_manager result" where
  "cleanup_tokens now pm =
     (if \<exists>(tok, stamp) \<in> set (authd_uuids pm). stamp > now \<or> now - stamp > 1200 then Inl Undefined_Behaviour else Inr pm)"

text \<open>\<^verbatim>\<open>get_token\<close> of the text of a cookie header; \<open>after_token\<close> is what follows the first occurrence.\<close>

fun after_token :: "string \<Rightarrow> string option" where
  "after_token [] = None"
| "after_token (ch # s) = (if take 6 (ch # s) = ''token='' then Some (drop 6 (ch # s)) else after_token s)"

definition get_token :: "string \<Rightarrow> string option" where
  "get_token req = map_option (takeWhile (\<lambda>ch. ch \<noteq> CHR '';'' \<and> ch \<noteq> CHR '' '')) (after_token req)"

definition get_token_request :: "beast \<Rightarrow> http_request \<Rightarrow> string option result" where
  "get_token_request bl req =
     (case fields_find bl ''Cookie'' (req_fields req) of None \<Rightarrow> Inl Out_Of_Range | Some cookie_str \<Rightarrow> Inr (get_token cookie_str))"

section \<open>Time stamps\<close>

definition stamp_in :: "proxy_manager \<Rightarrow> int \<Rightarrow> string \<rightharpoonup> int" where
  "stamp_in pm key tok = map_of (bin_at key (authd_bins pm)) tok"

lemma bin_at_update [simp]: "bin_at k (AList.update k' b bins) = (if k = k' then b else bin_at k bins)"
  by (simp add: bin_at_def update_conv')

lemma bin_at_delete [simp]: "bin_at k (AList.delete k' bins) = (if k = k' then [] else bin_at k bins)"
  by (simp add: bin_at_def delete_conv')

lemma prev_bin_less: "prev_bin t < bin_of t"
  by (simp add: prev_bin_def bin_of_def)

lemma stamp_in_create:
  "stamp_in (snd (create_new_token now draws pm)) key tok =
     (if key = bin_of now \<and> tok = map hex_lookup draws \<and> stamp_in pm key tok = None then Some now else stamp_in pm key tok)"
  by (auto simp: create_new_token_def stamp_in_def Let_def update_conv')

definition prev_accepts :: "int \<Rightarrow> string \<Rightarrow> proxy_manager \<Rightarrow> bool" where
  "prev_accepts now tok pm \<longleftrightarrow> (case stamp_in pm (prev_bin now) tok of None \<Rightarrow> False | Some stamp \<Rightarrow> now - stamp > 1200)"

lemma check_auth_result:
  "fst (check_auth now tok pm) \<longleftrightarrow> prev_accepts now tok pm \<or> stamp_in pm (bin_of now) tok \<noteq> None"
  by (auto simp: check_auth_def prev_accepts_def stamp_in_def Let_def)

lemma stamp_in_check:
  "stamp_in (snd (check_auth now tok pm)) key tok' =
     (if prev_accepts now tok pm \<and> tok' = tok \<and> key = bin_of now then Some now
      else if prev_accepts now tok pm \<and> tok' = tok \<and> key = prev_bin now then None
      else stamp_in pm key tok')"
proof (cases "prev_accepts now tok pm")
  case True
  then have p: "(case map_of (bin_at (prev_bin now) (authd_bins pm)) tok of None \<Rightarrow> False | Some stamp \<Rightarrow> now - stamp > 1200)"
    by (simp add: prev_accepts_def stamp_in_def)
  have e: "map_of (AList.delete tok b) = (map_of b)(tok := None)" for b :: "(string \<times> int) list"
    by (simp add: delete_conv')
  have n: "AList.delete tok b = [] \<Longrightarrow> map_of b tok' = None \<or> tok' = tok" for b :: "(string \<times> int) list"
    using e [of b] by (metis fun_upd_apply map_of.simps(1))
  show ?thesis
    using True p prev_bin_less [of now] n [of "bin_at (prev_bin now) (authd_bins pm)"]
    by (auto simp: check_auth_def stamp_in_def Let_def update_conv' e)
next
  case False
  then have p: "\<not> (case map_of (bin_at (prev_bin now) (authd_bins pm)) tok of None \<Rightarrow> False | Some stamp \<Rightarrow> now - stamp > 1200)"
    by (simp add: prev_accepts_def stamp_in_def)
  show ?thesis using False p by (simp add: check_auth_def stamp_in_def Let_def)
qed

section \<open>Histories\<close>

datatype token_op = Issue int "nat list" | Check int string

fun token_step :: "token_op \<Rightarrow> proxy_manager \<Rightarrow> proxy_manager" where
  "token_step (Issue now draws) pm = snd (create_new_token now draws pm)"
| "token_step (Check now tok) pm = snd (check_auth now tok pm)"

text \<open>When a token was issued or presented.\<close>

definition seen :: "string \<Rightarrow> token_op list \<Rightarrow> int set" where
  "seen tok ops = {t. (\<exists>draws. Issue t draws \<in> set ops \<and> tok = map hex_lookup draws) \<or> Check t tok \<in> set ops}"

definition issued :: "token_op list \<Rightarrow> string set" where
  "issued ops = {map hex_lookup draws | t draws. Issue t draws \<in> set ops}"

definition tokens_ok :: "token_op list \<Rightarrow> proxy_manager \<Rightarrow> bool" where
  "tokens_ok ops pm \<longleftrightarrow> (\<forall>key tok stamp. stamp_in pm key tok = Some stamp \<longrightarrow>
     key = bin_of stamp \<and> tok \<in> issued ops \<and> stamp \<in> seen tok ops)"

lemma issued_snoc [simp]:
  "issued (ops @ [Issue t draws]) = insert (map hex_lookup draws) (issued ops)"
  "issued (ops @ [Check t tok]) = issued ops"
  by (auto simp: issued_def)

lemma seen_snoc [simp]:
  "seen tok (ops @ [Issue t draws]) = (if tok = map hex_lookup draws then insert t (seen tok ops) else seen tok ops)"
  "seen tok (ops @ [Check t tok']) = (if tok = tok' then insert t (seen tok ops) else seen tok ops)"
  by (auto simp: seen_def)

lemma tokens_ok_step: "tokens_ok ops pm \<Longrightarrow> tokens_ok (ops @ [a]) (token_step a pm)"
proof (cases a)
  case (Issue now draws)
  then show "tokens_ok ops pm \<Longrightarrow> ?thesis"
    by (auto simp: tokens_ok_def stamp_in_create split: if_splits)
next
  case (Check now tok)
  assume ok: "tokens_ok ops pm"
  have "tok \<in> issued ops" if "prev_accepts now tok pm"
    using that ok by (auto simp: prev_accepts_def tokens_ok_def split: option.splits)
  then show ?thesis
    using ok Check by (auto simp: tokens_ok_def stamp_in_check split: if_splits)
qed

definition no_tokens :: "proxy_manager \<Rightarrow> bool" where
  "no_tokens pm \<longleftrightarrow> authd_bins pm = []"

lemma tokens_ok_run: "no_tokens pm \<Longrightarrow> tokens_ok ops (fold token_step ops pm)"
proof (induction ops rule: rev_induct)
  case Nil
  then show ?case by (simp add: tokens_ok_def no_tokens_def stamp_in_def bin_at_def)
next
  case (snoc a ops)
  then show ?case using tokens_ok_step by simp
qed

text \<open>
  Only tokens that a login issued are ever accepted, and only if they were issued or
  presented less than 40 minutes ago.
\<close>

theorem only_issued_accepted:
  assumes "no_tokens pm" "fst (check_auth now tok (fold token_step ops pm))"
  shows "tok \<in> issued ops \<and> (\<exists>t \<in> seen tok ops. now - t < 2400)"
proof -
  let ?pm = "fold token_step ops pm"
  obtain key stamp where st: "stamp_in ?pm key tok = Some stamp" "key = bin_of now \<or> key = prev_bin now"
    using assms(2) by (auto simp: check_auth_result prev_accepts_def split: option.splits)
  then have k: "key = bin_of stamp" "tok \<in> issued ops" "stamp \<in> seen tok ops"
    using tokens_ok_run [OF assms(1), of ops] by (auto simp: tokens_ok_def)
  have "now - stamp < 2400"
  proof -
    have "stamp div 1200 = now div 1200 \<or> stamp div 1200 = now div 1200 - 1"
      using st(2) k(1) by (auto simp: bin_of_def prev_bin_def)
    moreover have "now = now div 1200 * 1200 + now mod 1200" "stamp = stamp div 1200 * 1200 + stamp mod 1200" by simp_all
    moreover have "now mod 1200 < 1200" "0 \<le> stamp mod 1200" by simp_all
    ultimately show ?thesis by linarith
  qed
  then show ?thesis using k by blast
qed

text \<open>
  C40: When a token is accepted: all through the 20-minute bin of the clock it was issued in,
  and in the bin after it only once it is older than 20 minutes.  So a user who logs in just before the
  end of a bin is turned away at its end, and let in again later.
\<close>

theorem token_window:
  assumes "\<forall>key. stamp_in pm key (map hex_lookup draws) = None"
  shows "fst (check_auth now (map hex_lookup draws) (snd (create_new_token t draws pm))) \<longleftrightarrow>
    now div 1200 = t div 1200 \<or> (now div 1200 = t div 1200 + 1 \<and> now - t > 1200)"
  using assms by (auto simp: check_auth_result prev_accepts_def stamp_in_create bin_of_def prev_bin_def)

section \<open>Cookies\<close>

lemma after_token_found: "after_token (''token='' @ s) = Some s"
  by simp

lemma after_token_skip:
  assumes "after_token pre = None"
  shows "after_token (pre @ ''token='' @ s) = Some s"
  using assms
proof (induction pre)
  case Nil
  then show ?case by simp
next
  case (Cons ch pre)
  then have n: "take 6 (ch # pre) \<noteq> ''token=''" "after_token pre = None" by (auto split: if_splits)
  have "take 6 (ch # pre @ ''token='' @ s) \<noteq> ''token=''"
  proof
    assume a: "take 6 (ch # pre @ ''token='' @ s) = ''token=''"
    show False
    proof (cases "length pre < 5")
      case True
      then have "length pre = 0 \<or> length pre = 1 \<or> length pre = 2 \<or> length pre = 3 \<or> length pre = 4" by linarith
      then show False using a by (auto simp: length_Suc_conv numeral_2_eq_2 numeral_3_eq_3 eval_nat_numeral)
    next
      case False
      then show False using a n(1) by simp
    qed
  qed
  then show ?case using Cons.IH [OF n(2)] by (simp only: append_Cons after_token.simps if_False)
qed

text \<open>
  The token of a cookie header is found wherever it stands among other cookies, unless an
  earlier cookie's name or value contains its name.
\<close>

theorem cookie_token_found:
  assumes "after_token pre = None" "\<forall>ch \<in> set tok. ch \<noteq> CHR '';'' \<and> ch \<noteq> CHR '' ''"
    and "post = [] \<or> hd post = CHR '';'' \<or> hd post = CHR '' ''"
  shows "get_token (pre @ ''token='' @ tok @ post) = Some tok"
proof -
  have "takeWhile (\<lambda>ch. ch \<noteq> CHR '';'' \<and> ch \<noteq> CHR '' '') (tok @ post) = tok"
    using assms(2,3) by (cases post) (auto simp: takeWhile_append)
  then show ?thesis using after_token_skip [OF assms(1)] by (simp add: get_token_def del: after_token.simps)
qed

section \<open>Witnesses\<close>

definition demo_proxy :: proxy_manager where
  "demo_proxy = \<lparr>authd_uuids = [], authd_bins = [], peer_addr = ''10.0.0.2'', peer_port = 18789,
     password = ''secret'', redirect_url = ''/app''\<rparr>"

lemma demo_proxy_empty [simp]: "no_tokens demo_proxy" "stamp_in demo_proxy key tok = None"
  by (simp_all add: no_tokens_def stamp_in_def demo_proxy_def bin_at_def)

lemma only_issued_accepted_witness:
  "fst (check_auth 1300 ''0f'' (fold token_step [Issue 50 [0, 15], Check 60 ''zz''] demo_proxy)) \<and>
   ''0f'' \<in> issued [Issue 50 [0, 15], Check 60 ''zz'']"
proof -
  have "fst (check_auth 1300 ''0f'' (fold token_step [Issue 50 [0, 15], Check 60 ''zz''] demo_proxy))" by code_simp
  with only_issued_accepted [OF demo_proxy_empty(1) this] show ?thesis by blast
qed

lemma token_window_witness:
  "\<not> fst (check_auth 1210 ''0f'' (snd (create_new_token 1190 [0, 15] demo_proxy))) \<and>
   fst (check_auth 2395 ''0f'' (snd (create_new_token 1190 [0, 15] demo_proxy)))"
proof -
  have "map hex_lookup [0, 15] = ''0f''" by (simp add: hex_lookup_def)
  then show ?thesis
    using token_window [of demo_proxy "[0, 15]" 1210 1190] token_window [of demo_proxy "[0, 15]" 2395 1190] by simp
qed

lemma cookie_token_found_witness:
  "get_token (''lang=en; '' @ ''token='' @ ''0f'' @ ''; theme=dark'') = Some ''0f''"
  by (rule cookie_token_found) (code_simp, simp, simp)

end
