(* ===== verification/Proxy_Server.thy ===== *)
theory Proxy_Server
  imports Proxy_Manager Usage_Log
begin

text \<open>
  The reverse proxy: \<^verbatim>\<open>ReverseProxyAccept\<close> and \<^verbatim>\<open>ReverseProxyServer\<close>
  (\<^verbatim>\<open>src/reverse_proxy/reverse_proxy_{accept,server}.cpp\<close>).

  These classes still use the former interface of the handler (\<^verbatim>\<open>call_dependent_function\<close>,
  \<^verbatim>\<open>get_data\<close>, \<^verbatim>\<open>move_subevents_up\<close>, \<^verbatim>\<open>finalize_current_task\<close>), which is not part of the sources
  any more.  The model keeps the calls made on it, in order; the ids it gives out and the data it hands
  back are parameters, as are the clocks and the outcome of connecting to the peer.
\<close>

section \<open>Logging in\<close>

text \<open>What the handler of \<^verbatim>\<open>/login\<close> changes: its own copy of the headers, and the tokens.  It sees the
  clock and the random digits of a token.\<close>

record login_state =
  lg_headers :: "(string \<times> string) list"
  lg_manager :: proxy_manager

type_synonym login_env = "login_state \<times> int \<times> nat list"

definition token_cookie :: "string \<Rightarrow> string" where
  "token_cookie tok = ''token='' @ tok @ ''; HttpOnly; Secure; SameSite=lax''"

definition login_handler :: "beast \<Rightarrow> login_env \<Rightarrow> http_request \<Rightarrow> http_response \<times> login_state" where
  "login_handler bl = (\<lambda>(lg, clock, draws) req.
     if req_body req \<noteq> password (lg_manager lg) then (prepare_response bl (lg_headers lg) Unauthorized [] 11, lg)
     else (let (tok, pm) = create_new_token clock draws (lg_manager lg);
               hs = lg_headers lg @ [(''Set-Cookie'', token_cookie tok)]
           in (prepare_response bl hs Ok (redirect_url pm) 11, lg\<lparr>lg_headers := hs, lg_manager := pm\<rparr>)))"

section \<open>Accepting\<close>

datatype accept_call = Init_Child int | Start_Child nat | Free_Child u64 | Queue_Accept int

record proxy_accept =
  pa_files :: "int list"
  pa_manager :: "login_env http_manager"
  pa_login :: login_state
  pa_calls :: "accept_call list"

text \<open>\<^verbatim>\<open>stoi\<close>\<close>

definition parse_int :: "string \<Rightarrow> int result" where
  "parse_int s =
     (case scan_int s of
        None \<Rightarrow> Inl (Invalid_Argument ''stoi'')
      | Some (i, _) \<Rightarrow> if - (2 ^ 31) \<le> i \<and> i < 2 ^ 31 then Inr i else Inl Out_Of_Range)"

text \<open>The lines of \<^verbatim>\<open>proxy.config\<close> (an absent file has none): password, redirect URL, peer, port.\<close>

definition read_config :: "string list \<Rightarrow> proxy_manager result" where
  "read_config ls =
     (if length ls < 1 \<or> ls ! 0 = [] then Inl (Runtime_Error ''Password field not present in config'')
      else if length ls < 2 \<or> ls ! 1 = [] then Inl (Runtime_Error ''Redirect url not present'')
      else if length ls < 3 \<or> ls ! 2 = [] then Inl (Runtime_Error ''Peer URL not present'')
      else if length ls < 4 then Inl (Runtime_Error ''Port not present'')
      else ebind (parse_int (ls ! 3)) (\<lambda>port.
        Inr \<lparr>authd_uuids = [], authd_bins = [], peer_addr = ls ! 2, peer_port = port, password = ls ! 0, redirect_url = ls ! 1\<rparr>))"

definition proxy_accept_new ::
  "filesys \<Rightarrow> beast \<Rightarrow> string list \<Rightarrow> int list \<Rightarrow> string \<Rightarrow> visits \<Rightarrow> (proxy_accept \<times> visits) result"
where
  "proxy_accept_new fs bl config server_file base_dir vs =
     ebind (manager_new fs base_dir [] vs) (\<lambda>(m, vs).
     ebind (read_config config) (\<lambda>pm.
       Inr (\<lparr>pa_files = server_file,
             pa_manager = add_endpoint ''/login'' (\<lambda>g req. fst (login_handler bl g req)) Post m,
             pa_login = \<lparr>lg_headers = [(''Content-Type'', ''text/plain''), (''Connection'', ''keep-alive'')], lg_manager = pm\<rparr>,
             pa_calls = []\<rparr>, vs)))"

definition proxy_queue_accept :: "proxy_accept \<Rightarrow> proxy_accept result" where
  "proxy_queue_accept s = ebind (file_at (pa_files s) 0) (\<lambda>fd. Inr (s\<lparr>pa_calls := pa_calls s @ [Queue_Accept fd]\<rparr>))"

definition prepare_accept :: "proxy_accept \<Rightarrow> (call_response \<times> proxy_accept) result" where
  "prepare_accept s = ebind (proxy_queue_accept s) (\<lambda>s. Inr (mk_response ''Reverse Proxy accept'' 0, s))"

text \<open>\<open>slot\<close> is the index \<^verbatim>\<open>initialize_dependent_event\<close> gives the connection.\<close>

definition accept_on_new_data :: "nat \<Rightarrow> cls event_type \<Rightarrow> proxy_accept \<Rightarrow> proxy_accept result" where
  "accept_on_new_data slot e s =
     (case e of
        ChildTaskCompletion c task st rc \<Rightarrow> Inr (s\<lparr>pa_calls := pa_calls s @ [Free_Child task]\<rparr>)
      | IoUringResult c o' r \<Rightarrow>
          proxy_queue_accept (if r \<ge> 0 then s\<lparr>pa_calls := pa_calls s @ [Init_Child r, Start_Child slot]\<rparr> else s)
      | _ \<Rightarrow> Inl Bad_Variant_Access)"

section \<open>One connection\<close>

text \<open>The external client is behind TLS, the internal peer is not; \<open>e\<close> and \<open>i\<close> name the two relay
  buffers.\<close>

datatype proxy_call =
    Ext_Read_Http
  | Ext_Write_Http http_response
  | Int_Read_Http
  | Int_Write_Http http_request
  | Move_Up_Tls
  | Move_Up_Bytes
  | Ext_Read_E nat
  | Int_Write_E int
  | Int_Read_I nat
  | Ext_Write_I int
  | Init_Ext "int list"
  | Init_Httpc int
  | Close_Peer int
  | Finalize_Task bool int

datatype proxy_state = ReadExternalPeer | ReadInternalPeer | WriteExternalPeer | WritePeerBranch | Proxy_Websocket

record proxy_server =
  px_check_websocket :: bool
  px_e_read :: bool
  px_i_read :: bool
  px_e_to_i :: u64
  px_i_to_e :: u64
  px_connected :: bool
  px_next_op :: proxy_state
  px_calls :: "proxy_call list"

text \<open>How connecting to the peer ends: \<^verbatim>\<open>getaddrinfo\<close> fails, gives no address, \<^verbatim>\<open>socket\<close> fails,
  \<^verbatim>\<open>connect\<close> fails on a descriptor, or it succeeds.\<close>

datatype peer_answer = Addr_Error | No_Addr | Socket_Error | Connect_Error int | Connected int

record proxy_env =
  pe_ids :: "nat \<Rightarrow> u64"
  pe_beast :: beast
  pe_fs :: filesys
  pe_manager :: "login_env http_manager"
  pe_request :: "http_request option"
  pe_response :: "http_response option"
  pe_peer :: peer_answer
  pe_now :: int
  pe_clock :: int
  pe_draws :: "nat list"

definition BUF_SIZE :: nat where "BUF_SIZE = 16384"

definition px_call :: "proxy_env \<Rightarrow> proxy_call \<Rightarrow> proxy_server \<Rightarrow> u64 \<times> proxy_server" where
  "px_call en c s = (pe_ids en (length (px_calls s)), s\<lparr>px_calls := px_calls s @ [c]\<rparr>)"

text \<open>A call whose id is not used.\<close>

definition px_do :: "proxy_env \<Rightarrow> proxy_call \<Rightarrow> proxy_server \<Rightarrow> proxy_server" where
  "px_do en c s = snd (px_call en c s)"

definition proxy_new :: "proxy_env \<Rightarrow> int list \<Rightarrow> proxy_server result" where
  "proxy_new en fs =
     ebind (file_at fs 0) (\<lambda>fd. Inr (px_do en (Init_Ext [fd])
       \<lparr>px_check_websocket = False, px_e_read = True, px_i_read = True, px_e_to_i = 0, px_i_to_e = 0,
        px_connected = False, px_next_op = ReadExternalPeer, px_calls = []\<rparr>))"

definition proxy_start :: "proxy_env \<Rightarrow> proxy_server \<Rightarrow> call_response \<times> proxy_server" where
  "proxy_start en s =
     (mk_response ''Server start up HTTP'' OP_HINT_NETWORK, (px_do en Ext_Read_Http s)\<lparr>px_next_op := WritePeerBranch\<rparr>)"

definition init_peer :: "proxy_env \<Rightarrow> proxy_server \<Rightarrow> bool \<times> proxy_server" where
  "init_peer en s =
     (case pe_peer en of
        Connected fd \<Rightarrow> (True, (px_do en (Init_Httpc fd) s)\<lparr>px_connected := True\<rparr>)
      | Connect_Error fd \<Rightarrow> (False, px_do en (Close_Peer fd) s)
      | _ \<Rightarrow> (False, s))"

definition is_websocket_upgrade :: "beast \<Rightarrow> http_request \<Rightarrow> bool" where
  "is_websocket_upgrade bl req \<longleftrightarrow>
     fields_find bl ''Connection'' (req_fields req) = Some ''Upgrade'' \<and>
     fields_find bl ''Upgrade'' (req_fields req) = Some ''websocket''"

text \<open>The predicate of \<^verbatim>\<open>handle_request_with_pred\<close>: the answer, \<^verbatim>\<open>skip\<close>, and the state it changes.\<close>

definition proxy_pred ::
  "proxy_env \<Rightarrow> http_request \<Rightarrow> bool \<Rightarrow> proxy_server \<times> proxy_manager \<Rightarrow>
    (http_response option \<times> bool) \<times> proxy_server \<times> proxy_manager"
where
  "proxy_pred en req skip = (\<lambda>(s, pm).
     case fields_find (pe_beast en) ''Cookie'' (req_fields req) of
       None \<Rightarrow> ((None, True), s, pm)
     | Some cookie \<Rightarrow>
         (let (authd, pm) = (case get_token cookie of None \<Rightarrow> (False, pm) | Some tok \<Rightarrow> check_auth (pe_clock en) tok pm);
              (fwd, s) = (if \<not> authd then (False, s) else if px_connected s then (True, s) else init_peer en s)
          in if fwd then ((None, False), s, pm)
             else if \<not> endpoint_serviceable (pe_fs en) (pe_manager en) (req_target req)
             then ((Some (error_response (pe_beast en) req Unauthorized ''No authentication.''), skip), s, pm)
             else ((None, True), s, pm)))"

text \<open>\<open>handle_request\<close> with what the handler of \<^verbatim>\<open>/login\<close> changes.\<close>

definition proxy_answer ::
  "proxy_env \<Rightarrow> http_request \<Rightarrow> bool \<Rightarrow> login_state \<Rightarrow> login_state"
where
  "proxy_answer en req handled lg =
     (if handled \<and> strip_query (req_target req) = ''/login'' \<and> req_method req = Post
      then snd (login_handler (pe_beast en) (lg, pe_clock en, pe_draws en) req) else lg)"

text \<open>One request of the external client.\<close>

definition proxy_branch ::
  "proxy_env \<Rightarrow> http_request \<Rightarrow> proxy_server \<times> login_state \<times> visits \<Rightarrow> proxy_server \<times> login_state \<times> visits"
where
  "proxy_branch en req = (\<lambda>(s, lg, vs).
     let (d, s1, pm1) = proxy_pred en req True (s, lg_manager lg);
         lg1 = lg\<lparr>lg_manager := pm1\<rparr>;
         (resp, vs1) = handle_request_with_pred (pe_fs en) (pe_beast en) (pe_now en) (lg1, pe_clock en, pe_draws en)
           (pe_manager en) req (\<lambda>r skip. fst (proxy_pred en r skip (s, lg_manager lg))) vs;
         lg2 = proxy_answer en req (d = (None, True)) lg1
     in case resp of
          Some r \<Rightarrow> ((px_do en (Ext_Write_Http r) s1)\<lparr>px_next_op := ReadExternalPeer\<rparr>, lg2, vs1)
        | None \<Rightarrow>
            (let s2 = (if is_websocket_upgrade (pe_beast en) req then s1\<lparr>px_check_websocket := True\<rparr> else s1)
             in ((px_do en (Int_Write_Http req) s2)\<lparr>px_next_op := ReadInternalPeer\<rparr>, lg2, vs1)))"

text \<open>The relay of an upgraded connection.\<close>

definition proxy_websocket :: "proxy_env \<Rightarrow> u64 \<Rightarrow> int \<Rightarrow> proxy_server \<Rightarrow> proxy_server" where
  "proxy_websocket en task rc s =
     (let s = (if px_check_websocket s then
                 (let s = px_do en Move_Up_Bytes (px_do en Move_Up_Tls s);
                      (eid, s) = px_call en (Ext_Read_E BUF_SIZE) s;
                      (iid, s) = px_call en (Int_Read_I BUF_SIZE) s
                  in s\<lparr>px_e_to_i := eid, px_i_to_e := iid, px_check_websocket := False\<rparr>)
               else s)
      in if task = px_e_to_i s then
           (if px_e_read s then
              (let (eid, s) = px_call en (Int_Write_E rc) s in s\<lparr>px_e_to_i := eid, px_e_read := False\<rparr>)
            else (let (eid, s) = px_call en (Ext_Read_E BUF_SIZE) s in s\<lparr>px_e_to_i := eid, px_e_read := True\<rparr>))
         else if task = px_i_to_e s then
           (if px_i_read s then
              (let (iid, s) = px_call en (Ext_Write_I rc) s in s\<lparr>px_i_to_e := iid, px_i_read := False\<rparr>)
            else (let (iid, s) = px_call en (Int_Read_I BUF_SIZE) s in s\<lparr>px_i_to_e := iid, px_i_read := True\<rparr>))
         else s)"

definition proxy_on_new_data ::
  "proxy_env \<Rightarrow> cls event_type \<Rightarrow> proxy_server \<times> login_state \<times> visits \<Rightarrow>
    (proxy_server \<times> login_state \<times> visits) result"
where
  "proxy_on_new_data en e = (\<lambda>(s, lg, vs).
     case e of
       ChildTaskCompletion c task st rc \<Rightarrow>
         if rc \<le> 0 then Inr (px_do en (Finalize_Task True (- 1)) s, lg, vs)
         else (case px_next_op s of
             WritePeerBranch \<Rightarrow>
               (case pe_request en of None \<Rightarrow> Inl Bad_Optional_Access | Some req \<Rightarrow> Inr (proxy_branch en req (s, lg, vs)))
           | ReadInternalPeer \<Rightarrow> Inr ((px_do en Int_Read_Http s)\<lparr>px_next_op := WriteExternalPeer\<rparr>, lg, vs)
           | WriteExternalPeer \<Rightarrow>
               (case pe_response en of
                  None \<Rightarrow> Inl Bad_Optional_Access
                | Some resp \<Rightarrow> Inr ((px_do en (Ext_Write_Http resp) s)\<lparr>px_next_op :=
                    if px_check_websocket s \<and> res_status resp = Switching_Protocols then Proxy_Websocket else ReadExternalPeer\<rparr>,
                    lg, vs))
           | ReadExternalPeer \<Rightarrow> Inr ((px_do en Ext_Read_Http s)\<lparr>px_next_op := WritePeerBranch\<rparr>, lg, vs)
           | Proxy_Websocket \<Rightarrow> Inr (proxy_websocket en task rc s, lg, vs))
     | _ \<Rightarrow> Inl Bad_Variant_Access)"

section \<open>Only logged-in clients reach the peer\<close>

lemma px_do_simps [simp]:
  "px_calls (px_do en c s) = px_calls s @ [c]" "px_next_op (px_do en c s) = px_next_op s"
  "px_check_websocket (px_do en c s) = px_check_websocket s" "px_connected (px_do en c s) = px_connected s"
  "px_e_read (px_do en c s) = px_e_read s" "px_i_read (px_do en c s) = px_i_read s"
  "px_e_to_i (px_do en c s) = px_e_to_i s" "px_i_to_e (px_do en c s) = px_i_to_e s"
  by (simp_all add: px_do_def px_call_def)

definition tokens :: "proxy_manager \<Rightarrow> string set" where
  "tokens pm = {tok. \<exists>key. stamp_in pm key tok \<noteq> None}"

lemma tokens_check: "tokens (snd (check_auth now tok pm)) \<subseteq> tokens pm"
proof -
  have "prev_accepts now tok pm \<Longrightarrow> tok \<in> tokens pm"
    by (auto simp: prev_accepts_def tokens_def split: option.splits)
  then show ?thesis by (auto simp: tokens_def stamp_in_check split: if_splits)
qed

lemma check_auth_tokens: "fst (check_auth now tok pm) \<Longrightarrow> tok \<in> tokens pm"
  by (auto simp: check_auth_result prev_accepts_def tokens_def split: option.splits)

lemma password_check [simp]: "password (snd (check_auth now tok pm)) = password pm"
  by (simp add: check_auth_def Let_def)

lemma tokens_create: "tokens (snd (create_new_token now draws pm)) \<subseteq> insert (map hex_lookup draws) (tokens pm)"
  by (auto simp: tokens_def stamp_in_create split: if_splits)

lemma init_peer_calls: "init_peer en s = (b, s') \<Longrightarrow> \<exists>cs. px_calls s' = px_calls s @ cs \<and> (\<forall>req. Int_Write_Http req \<notin> set cs)"
  by (auto simp: init_peer_def split: peer_answer.splits)

text \<open>The predicate leaves a request to the peer only when its token is accepted.\<close>

lemma proxy_pred_cases:
  assumes "proxy_pred en req sk (s, pm) = ((resp, skip), s', pm')"
  shows "tokens pm' \<subseteq> tokens pm" "password pm' = password pm"
    "\<exists>cs. px_calls s' = px_calls s @ cs \<and> (\<forall>r. Int_Write_Http r \<notin> set cs)"
    "resp = None \<and> \<not> skip \<Longrightarrow> \<exists>cookie tok. fields_find (pe_beast en) ''Cookie'' (req_fields req) = Some cookie \<and>
       get_token cookie = Some tok \<and> tok \<in> tokens pm"
proof -
  define authd_pm where "authd_pm cookie = (case get_token cookie of None \<Rightarrow> (False, pm) | Some tok \<Rightarrow> check_auth (pe_clock en) tok pm)" for cookie
  have a: "tokens (snd (authd_pm c)) \<subseteq> tokens pm" "password (snd (authd_pm c)) = password pm"
    "fst (authd_pm c) \<Longrightarrow> \<exists>tok. get_token c = Some tok \<and> tok \<in> tokens pm" for c
    using tokens_check check_auth_tokens by (auto simp: authd_pm_def split: option.splits)
  define fwd_s where "fwd_s c = (if \<not> fst (authd_pm c) then (False, s) else if px_connected s then (True, s) else init_peer en s)" for c
  have f: "\<exists>cs. px_calls (snd (fwd_s c)) = px_calls s @ cs \<and> (\<forall>r. Int_Write_Http r \<notin> set cs)" "fst (fwd_s c) \<Longrightarrow> fst (authd_pm c)" for c
    using init_peer_calls [of en s] by (auto simp: fwd_s_def split: if_splits) (metis prod.collapse)
  have eq: "proxy_pred en req sk (s, pm) =
    (case fields_find (pe_beast en) ''Cookie'' (req_fields req) of
       None \<Rightarrow> ((None, True), s, pm)
     | Some c \<Rightarrow>
         if fst (fwd_s c) then ((None, False), snd (fwd_s c), snd (authd_pm c))
         else if \<not> endpoint_serviceable (pe_fs en) (pe_manager en) (req_target req)
         then ((Some (error_response (pe_beast en) req Unauthorized ''No authentication.''), sk), snd (fwd_s c), snd (authd_pm c))
         else ((None, True), snd (fwd_s c), snd (authd_pm c)))"
    by (simp add: proxy_pred_def authd_pm_def fwd_s_def split_beta Let_def split: option.split)
  show "tokens pm' \<subseteq> tokens pm" "password pm' = password pm"
    using assms a(1,2) unfolding eq by (auto split: option.splits if_splits)
  show "\<exists>cs. px_calls s' = px_calls s @ cs \<and> (\<forall>r. Int_Write_Http r \<notin> set cs)"
    using assms f(1) unfolding eq by (auto split: option.splits if_splits)
  show "resp = None \<and> \<not> skip \<Longrightarrow> \<exists>cookie tok. fields_find (pe_beast en) ''Cookie'' (req_fields req) = Some cookie \<and>
       get_token cookie = Some tok \<and> tok \<in> tokens pm"
    using assms a(3) f(2) unfolding eq by (auto split: option.splits if_splits)
qed


lemma proxy_branch_eq:
  assumes "proxy_pred en req True (s, lg_manager lg) = ((resp, skip), s1, pm1)"
  shows "proxy_branch en req (s, lg, vs) =
    (if resp = None \<and> \<not> skip
     then ((px_do en (Int_Write_Http req)
              (if is_websocket_upgrade (pe_beast en) req then s1\<lparr>px_check_websocket := True\<rparr> else s1))\<lparr>px_next_op := ReadInternalPeer\<rparr>,
           lg\<lparr>lg_manager := pm1\<rparr>, vs)
     else (let (r, vs') = (case resp of Some r \<Rightarrow> (r, vs) | None \<Rightarrow>
             handle_request (pe_fs en) (pe_beast en) (pe_now en) (lg\<lparr>lg_manager := pm1\<rparr>, pe_clock en, pe_draws en) (pe_manager en) req vs)
           in ((px_do en (Ext_Write_Http r) s1)\<lparr>px_next_op := ReadExternalPeer\<rparr>,
               proxy_answer en req (resp = None) (lg\<lparr>lg_manager := pm1\<rparr>), vs')))"
  using assms
  by (cases resp) (simp_all add: proxy_branch_def handle_request_with_pred_def proxy_answer_def split_beta Let_def)

text \<open>Logins with the right password, in any interleaving with the events of all connections.\<close>

definition granted :: "proxy_env \<Rightarrow> login_state \<Rightarrow> string set" where
  "granted en lg =
     (case pe_request en of
        None \<Rightarrow> {}
      | Some req \<Rightarrow>
          if strip_query (req_target req) = ''/login'' \<and> req_method req = Post \<and> req_body req = password (lg_manager lg)
          then {map hex_lookup (pe_draws en)} else {})"

inductive proxy_reach :: "login_state \<Rightarrow> string set \<Rightarrow> bool" where
  init: "no_tokens (lg_manager lg) \<Longrightarrow> proxy_reach lg {}"
| step: "proxy_reach lg G \<Longrightarrow> proxy_on_new_data en e (s, lg, vs) = Inr (s', lg', vs') \<Longrightarrow> proxy_reach lg' (G \<union> granted en lg)"

inductive_cases proxy_reachE: "proxy_reach lg G"

lemma proxy_answer_tokens:
  assumes "pe_request en = Some req" "password (lg_manager lg1) = password (lg_manager lg)"
  shows "tokens (lg_manager (proxy_answer en req h lg1)) \<subseteq> tokens (lg_manager lg1) \<union> granted en lg"
  using assms tokens_create [of "pe_clock en" "pe_draws en" "lg_manager lg1"]
  by (auto simp: proxy_answer_def login_handler_def granted_def split_beta Let_def)

lemma proxy_event_effect:
  assumes "proxy_on_new_data en e (s, lg, vs) = Inr (s', lg', vs')"
  shows "tokens (lg_manager lg') \<subseteq> tokens (lg_manager lg) \<union> granted en lg \<and>
    (\<exists>cs. px_calls s' = px_calls s @ cs \<and> (\<forall>req. Int_Write_Http req \<in> set cs \<longrightarrow>
       (\<exists>cookie tok. fields_find (pe_beast en) ''Cookie'' (req_fields req) = Some cookie \<and>
         get_token cookie = Some tok \<and> tok \<in> tokens (lg_manager lg))))"
proof (cases "\<exists>c task st rc req. e = ChildTaskCompletion c task st rc \<and> 0 < rc \<and> px_next_op s = WritePeerBranch \<and> pe_request en = Some req")
  case True
  then obtain req where b: "proxy_branch en req (s, lg, vs) = (s', lg', vs')" "pe_request en = Some req"
    using assms by (auto simp: proxy_on_new_data_def)
  obtain resp skip s1 pm1 where p: "proxy_pred en req True (s, lg_manager lg) = ((resp, skip), s1, pm1)" by (metis surj_pair)
  let ?lg1 = "lg\<lparr>lg_manager := pm1\<rparr>"
  note c = proxy_pred_cases [OF p]
  note eq = b(1) [unfolded proxy_branch_eq [OF p]]
  show ?thesis
  proof (cases "resp = None \<and> \<not> skip")
    case True
    then have "lg' = ?lg1" "px_calls s' = px_calls s1 @ [Int_Write_Http req]"
      using eq by (auto split: if_splits)
    then show ?thesis
      using c(1,3) c(4) [OF True] by auto
  next
    case False
    then obtain r where l: "lg' = proxy_answer en req (resp = None) ?lg1" "px_calls s' = px_calls s1 @ [Ext_Write_Http r]"
      using eq by (auto simp: split_beta Let_def)
    then show ?thesis
      using c(1,3) proxy_answer_tokens [OF b(2), of ?lg1 lg] c(2) by auto
  qed
next
  case False
  then show ?thesis
    using assms
    by (auto simp: proxy_on_new_data_def proxy_websocket_def px_call_def Let_def split: event_type.splits proxy_state.splits option.splits if_splits)
qed


lemma reach_tokens: "proxy_reach lg G \<Longrightarrow> tokens (lg_manager lg) \<subseteq> G"
proof (induction rule: proxy_reach.induct)
  case (init lg)
  then show ?case by (auto simp: tokens_def no_tokens_def stamp_in_def bin_at_def)
next
  case (step lg G en e s vs s' lg' vs')
  then show ?case using proxy_event_effect [OF step(2)] by blast
qed

text \<open>
  C6: Whatever the connections of the proxy did before and in whatever order, a request is
  handed to the internal peer only if it carries a cookie with a token that a login with the right
  password was given.
\<close>

theorem forwarded_is_authenticated:
  assumes "proxy_reach lg G" "proxy_on_new_data en e (s, lg, vs) = Inr (s', lg', vs')"
    and "px_calls s' = px_calls s @ cs" "Int_Write_Http req \<in> set cs"
  shows "\<exists>cookie tok. fields_find (pe_beast en) ''Cookie'' (req_fields req) = Some cookie \<and> get_token cookie = Some tok \<and> tok \<in> G"
  using proxy_event_effect [OF assms(2)] reach_tokens [OF assms(1)] assms(3,4) by fastforce

text \<open>
  A login with the right password is answered with a fresh token in a Set-Cookie header,
  and until the end of the current 20 minutes a request that sends this cookie back is forwarded to the
  connected peer.
\<close>

theorem login_grants_access:
  assumes "req_body req = password (lg_manager lg)" "login_handler bl (lg, t, draws) req = (resp, lg')"
    and "fields_find (pe_beast en) ''Cookie'' (req_fields req') = Some (takeWhile (\<lambda>ch. ch \<noteq> CHR '';'') (token_cookie tok))"
    and "tok = map hex_lookup draws" "\<forall>d \<in> set draws. d < 16" "pe_clock en div 1200 = t div 1200" "px_connected s"
  shows "resp = prepare_response bl (lg_headers lg @ [(''Set-Cookie'', token_cookie tok)]) Ok (redirect_url (lg_manager lg)) 11 \<and>
    (\<exists>s' lg''. proxy_branch en req' (s, lg', vs) = (s', lg'', vs) \<and> px_calls s' = px_calls s @ [Int_Write_Http req'] \<and>
      px_next_op s' = ReadInternalPeer)"
proof -
  let ?pm = "snd (create_new_token t draws (lg_manager lg))"
  have tk: "fst (create_new_token t draws (lg_manager lg)) = tok" "redirect_url ?pm = redirect_url (lg_manager lg)"
    by (simp_all add: create_new_token_def assms(4) Let_def)
  have h: "resp = prepare_response bl (lg_headers lg @ [(''Set-Cookie'', token_cookie tok)]) Ok (redirect_url (lg_manager lg)) 11"
    "lg_manager lg' = ?pm"
    using assms(1,2) tk by (auto simp: login_handler_def split_beta Let_def)
  have nosep: "hex_lookup d \<noteq> CHR '';'' \<and> hex_lookup d \<noteq> CHR '' ''" if "d < 16" for d
    using that by (auto simp: hex_lookup_def less_Suc_eq numeral_eq_Suc)
  have "\<forall>ch \<in> set tok. ch \<noteq> CHR '';'' \<and> ch \<noteq> CHR '' ''" using assms(4,5) nosep by auto
  then have c: "takeWhile (\<lambda>ch. ch \<noteq> CHR '';'') (token_cookie tok) = ''token='' @ tok"
    "takeWhile (\<lambda>ch. ch \<noteq> CHR '';'' \<and> ch \<noteq> CHR '' '') tok = tok"
    by (auto simp: token_cookie_def takeWhile_append takeWhile_eq_all_conv)
  have g: "get_token (''token='' @ tok) = Some tok" using c(2) by (simp add: get_token_def)
  have "stamp_in (lg_manager lg') (bin_of (pe_clock en)) tok \<noteq> None"
    using assms(4,6) h(2) by (auto simp: stamp_in_create bin_of_def)
  then have a: "fst (check_auth (pe_clock en) tok (lg_manager lg'))" by (simp add: check_auth_result)
  obtain pm1 where "proxy_pred en req' True (s, lg_manager lg') = ((None, False), s, pm1)"
    using a g assms(3,7) c(1) by (auto simp: proxy_pred_def split_beta Let_def)
  from proxy_branch_eq [OF this, of vs] show ?thesis using h(1) by auto
qed

section \<open>The relay\<close>

text \<open>A forwarded exchange: the completions that follow it pass the answer back.\<close>

text \<open>
  A forwarded request comes back answered: when it was written to the peer the answer is
  read, when it was read it is written to the client, and when that is done the next request is read;
  an accepted websocket upgrade goes to the relay instead.
\<close>

theorem forwarded_exchange:
  assumes "px_next_op s = ReadInternalPeer" "pe_response en = Some resp" "0 < n1" "0 < n2" "0 < n3"
  shows "\<exists>s1 s2. proxy_on_new_data en (ChildTaskCompletion c t1 st n1) (s, lg, vs) = Inr (s1, lg, vs) \<and>
    proxy_on_new_data en (ChildTaskCompletion c t2 st n2) (s1, lg, vs) = Inr (s2, lg, vs) \<and>
    px_calls s2 = px_calls s @ [Int_Read_Http, Ext_Write_Http resp] \<and>
    (if px_check_websocket s \<and> res_status resp = Switching_Protocols then px_next_op s2 = Proxy_Websocket
     else \<exists>s3. proxy_on_new_data en (ChildTaskCompletion c t3 st n3) (s2, lg, vs) = Inr (s3, lg, vs) \<and>
       px_calls s3 = px_calls s2 @ [Ext_Read_Http] \<and> px_next_op s3 = WritePeerBranch)"
  using assms by (simp add: proxy_on_new_data_def)


section \<open>Witnesses\<close>

definition demo_px_env :: "http_request \<Rightarrow> proxy_env" where
  "demo_px_env req = \<lparr>pe_ids = of_nat, pe_beast = list_beast,
     pe_fs = \<lparr>fs_is_directory = (\<lambda>p. False), fs_canonical = Some, fs_exists = (\<lambda>p. False), fs_content = (\<lambda>p. None)\<rparr>,
     pe_manager = add_endpoint ''/login'' (\<lambda>g req. fst (login_handler list_beast g req)) Post
       \<lparr>service = ''/srv/rp:'', base_path = ''/srv/rp'', handlers = []\<rparr>,
     pe_request = Some req, pe_response = None, pe_peer = Connected 7, pe_now = 0, pe_clock = 100, pe_draws = [0, 15]\<rparr>"

definition demo_login_request :: http_request where
  "demo_login_request = \<lparr>req_method = Post, req_target = ''/login'', req_version = 11, req_fields = [], req_body = ''secret''\<rparr>"

definition demo_cookie_request :: http_request where
  "demo_cookie_request = \<lparr>req_method = Get, req_target = ''/app'', req_version = 11,
     req_fields = [(''Cookie'', ''token=0f'')], req_body = []\<rparr>"

definition demo_lg :: login_state where
  "demo_lg = \<lparr>lg_headers = [], lg_manager = demo_proxy\<rparr>"

definition demo_conn :: proxy_server where
  "demo_conn = \<lparr>px_check_websocket = False, px_e_read = True, px_i_read = True, px_e_to_i = 0, px_i_to_e = 0,
     px_connected = True, px_next_op = WritePeerBranch, px_calls = []\<rparr>"

lemma demo_token: "map hex_lookup [0, 15] = ''0f''" "get_token ''token=0f'' = Some ''0f''"
  by (simp_all add: hex_lookup_def get_token_def)

lemma demo_find [simp]:
  "pe_request (demo_px_env r) = Some r" "pe_beast (demo_px_env r) = list_beast" "pe_clock (demo_px_env r) = 100"
  "pe_draws (demo_px_env r) = [0, 15]"
  "fields_find list_beast ''Cookie'' (req_fields demo_cookie_request) = Some ''token=0f''"
  "fields_find list_beast ''Cookie'' (req_fields demo_login_request) = None"
  by (simp_all add: demo_px_env_def demo_cookie_request_def demo_login_request_def list_beast_def)

text \<open>The login of the example, and the request after it.\<close>

lemma demo_login_done:
  "\<exists>s' lg' vs'. proxy_on_new_data (demo_px_env demo_login_request) (ChildTaskCompletion 0 1 Finished 1) (demo_conn, demo_lg, []) =
      Inr (s', lg', vs') \<and> lg_manager lg' = snd (create_new_token 100 [0, 15] demo_proxy)"
proof -
  let ?en = "demo_px_env demo_login_request"
  have p: "proxy_pred ?en demo_login_request True (demo_conn, lg_manager demo_lg) = ((None, True), demo_conn, demo_proxy)"
    by (simp add: proxy_pred_def demo_lg_def)
  have "demo_lg\<lparr>lg_manager := demo_proxy\<rparr> = demo_lg" by (simp add: demo_lg_def)
  then have "lg_manager (proxy_answer ?en demo_login_request True (demo_lg\<lparr>lg_manager := demo_proxy\<rparr>)) =
      snd (create_new_token 100 [0, 15] demo_proxy)"
    by (simp add: proxy_answer_def login_handler_def demo_login_request_def demo_lg_def demo_proxy_def strip_query_def split_beta Let_def)
  then show ?thesis
    using proxy_branch_eq [OF p, of "[]"] by (simp add: proxy_on_new_data_def demo_conn_def split_beta Let_def)
qed

lemma demo_forwarded:
  assumes "lg_manager lg = snd (create_new_token 100 [0, 15] demo_proxy)"
  shows "\<exists>s' lg'. proxy_on_new_data (demo_px_env demo_cookie_request) (ChildTaskCompletion 0 2 Finished 1) (demo_conn, lg, []) =
      Inr (s', lg', []) \<and> px_calls s' = px_calls demo_conn @ [Int_Write_Http demo_cookie_request]"
proof -
  let ?en = "demo_px_env demo_cookie_request"
  have "fst (check_auth 100 ''0f'' (lg_manager lg))"
    unfolding assms check_auth_result using demo_token by (simp add: stamp_in_create)
  then obtain pm1 where "proxy_pred ?en demo_cookie_request True (demo_conn, lg_manager lg) = ((None, False), demo_conn, pm1)"
    using demo_token by (simp add: proxy_pred_def demo_conn_def split_beta Let_def)
  from proxy_branch_eq [OF this, of "[]"] show ?thesis by (simp add: proxy_on_new_data_def demo_conn_def)
qed

lemma forwarded_is_authenticated_witness:
  "\<exists>lg s' lg'. proxy_reach lg {''0f''} \<and>
    proxy_on_new_data (demo_px_env demo_cookie_request) (ChildTaskCompletion 0 2 Finished 1) (demo_conn, lg, []) = Inr (s', lg', []) \<and>
    px_calls s' = px_calls demo_conn @ [Int_Write_Http demo_cookie_request] \<and>
    (\<exists>cookie tok. fields_find list_beast ''Cookie'' (req_fields demo_cookie_request) = Some cookie \<and> get_token cookie = Some tok \<and>
      tok \<in> {''0f''})"
proof -
  obtain s1 lg vs1 where l: "proxy_on_new_data (demo_px_env demo_login_request) (ChildTaskCompletion 0 1 Finished 1) (demo_conn, demo_lg, []) =
      Inr (s1, lg, vs1)" "lg_manager lg = snd (create_new_token 100 [0, 15] demo_proxy)"
    using demo_login_done by blast
  have "proxy_reach demo_lg {}" by (rule proxy_reach.init) (simp add: demo_lg_def)
  from proxy_reach.step [OF this l(1)] have r: "proxy_reach lg {''0f''}"
    using demo_token(1) by (simp add: granted_def demo_login_request_def demo_lg_def demo_proxy_def strip_query_def)
  obtain s' lg' where f: "proxy_on_new_data (demo_px_env demo_cookie_request) (ChildTaskCompletion 0 2 Finished 1) (demo_conn, lg, []) =
      Inr (s', lg', [])" "px_calls s' = px_calls demo_conn @ [Int_Write_Http demo_cookie_request]"
    using demo_forwarded [OF l(2)] by blast
  from forwarded_is_authenticated [OF r f, of demo_cookie_request] r f show ?thesis by auto
qed

lemma login_grants_access_witness:
  "\<exists>resp lg' s' lg''. login_handler list_beast (demo_lg, 100, [0, 15]) demo_login_request = (resp, lg') \<and>
    proxy_branch (demo_px_env demo_cookie_request) demo_cookie_request (demo_conn, lg', []) = (s', lg'', []) \<and>
    px_calls s' = [Int_Write_Http demo_cookie_request]"
proof -
  obtain resp lg' where l: "login_handler list_beast (demo_lg, 100, [0, 15]) demo_login_request = (resp, lg')" by fastforce
  have "takeWhile (\<lambda>ch. ch \<noteq> CHR '';'') (token_cookie ''0f'') = ''token=0f''" by (simp add: token_cookie_def)
  then have f: "fields_find (pe_beast (demo_px_env demo_cookie_request)) ''Cookie'' (req_fields demo_cookie_request) =
      Some (takeWhile (\<lambda>ch. ch \<noteq> CHR '';'') (token_cookie ''0f''))" by simp
  have pw: "req_body demo_login_request = password (lg_manager demo_lg)"
    by (simp add: demo_login_request_def demo_lg_def demo_proxy_def)
  have rest: "\<forall>d \<in> set [0, 15 :: nat]. d < 16" "pe_clock (demo_px_env demo_cookie_request) div 1200 = 100 div 1200" "px_connected demo_conn"
    by (simp_all add: demo_conn_def)
  obtain s' lg'' where "proxy_branch (demo_px_env demo_cookie_request) demo_cookie_request (demo_conn, lg', []) = (s', lg'', [])"
    "px_calls s' = px_calls demo_conn @ [Int_Write_Http demo_cookie_request]"
    using login_grants_access [OF pw l f demo_token(1) [symmetric] rest, of "[]"] by blast
  then show ?thesis using l by (intro exI [of _ resp] exI [of _ lg'] exI [of _ s'] exI [of _ lg'']) (simp add: demo_conn_def)
qed

lemma forwarded_exchange_witness:
  "\<exists>s1 s2. proxy_on_new_data ((demo_px_env demo_cookie_request)\<lparr>pe_response := Some (prepare_response list_beast [] Ok ''hi'' 11)\<rparr>)
      (ChildTaskCompletion 0 5 Finished 1) (demo_conn\<lparr>px_next_op := ReadInternalPeer\<rparr>, demo_lg, []) = Inr (s1, demo_lg, []) \<and>
    proxy_on_new_data ((demo_px_env demo_cookie_request)\<lparr>pe_response := Some (prepare_response list_beast [] Ok ''hi'' 11)\<rparr>)
      (ChildTaskCompletion 0 6 Finished 1) (s1, demo_lg, []) = Inr (s2, demo_lg, []) \<and>
    px_calls s2 = [Int_Read_Http, Ext_Write_Http (prepare_response list_beast [] Ok ''hi'' 11)]"
  using forwarded_exchange [of "demo_conn\<lparr>px_next_op := ReadInternalPeer\<rparr>"
      "(demo_px_env demo_cookie_request)\<lparr>pe_response := Some (prepare_response list_beast [] Ok ''hi'' 11)\<rparr>"
      "prepare_response list_beast [] Ok ''hi'' 11" 1 1 1 0 5 Finished demo_lg "[]" 6 7]
  by (auto simp: demo_conn_def)

end
