(* ===== verification/Proxy_Relay.thy ===== *)
theory Proxy_Relay
  imports Proxy_Server
begin

text \<open>
  The relay of the reverse proxy after an accepted websocket upgrade
  (\<^verbatim>\<open>ReverseProxyServer::on_new_data\<close>, state \<^verbatim>\<open>Websocket\<close>) between two byte streams.  A
  transfer that was asked for completes at any time and in any order with the other direction's; a
  read puts its bytes at the start of the buffer, a write sends what the buffer holds when it is done.
\<close>

section \<open>Streams\<close>

record relay =
  rl_server :: proxy_server
  rl_e_buf :: "u8 list"
  rl_i_buf :: "u8 list"
  rl_to_int :: "u8 list"
  rl_to_ext :: "u8 list"

datatype relay_event = From_Ext "u8 list" | To_Int | From_Int "u8 list" | To_Ext

fun e_call :: "proxy_call \<Rightarrow> bool" where
  "e_call (Ext_Read_E n) = True"
| "e_call (Int_Write_E n) = True"
| "e_call _ = False"

fun i_call :: "proxy_call \<Rightarrow> bool" where
  "i_call (Int_Read_I n) = True"
| "i_call (Ext_Write_I n) = True"
| "i_call _ = False"

text \<open>The transfer under way in a direction.\<close>

definition last_call :: "(proxy_call \<Rightarrow> bool) \<Rightarrow> proxy_call list \<Rightarrow> proxy_call option" where
  "last_call P calls = (let cs = filter P calls in if cs = [] then None else Some (last cs))"

definition e_last :: "relay \<Rightarrow> proxy_call option" where
  "e_last r = last_call e_call (px_calls (rl_server r))"

definition i_last :: "relay \<Rightarrow> proxy_call option" where
  "i_last r = last_call i_call (px_calls (rl_server r))"

text \<open>A completion reaches the server; logins and statistics do not change.\<close>

definition deliver :: "proxy_env \<Rightarrow> login_state \<times> visits \<Rightarrow> u64 \<Rightarrow> int \<Rightarrow> relay \<Rightarrow> relay option" where
  "deliver en lv task rc r =
     (case proxy_on_new_data en (ChildTaskCompletion 0 task Finished rc) (rl_server r, lv) of
        Inl _ \<Rightarrow> None
      | Inr (s, _) \<Rightarrow> Some (r\<lparr>rl_server := s\<rparr>))"

definition refill :: "u8 list \<Rightarrow> u8 list \<Rightarrow> u8 list" where
  "refill bs buf = bs @ drop (length bs) buf"

text \<open>None: the event cannot happen now.\<close>

fun relay_step :: "proxy_env \<Rightarrow> login_state \<times> visits \<Rightarrow> relay_event \<Rightarrow> relay \<Rightarrow> relay option" where
  "relay_step en lv (From_Ext bs) r =
     (case e_last r of
        Some (Ext_Read_E n) \<Rightarrow>
          if bs \<noteq> [] \<and> length bs \<le> n
          then deliver en lv (px_e_to_i (rl_server r)) (int (length bs)) (r\<lparr>rl_e_buf := refill bs (rl_e_buf r)\<rparr>) else None
      | _ \<Rightarrow> None)"
| "relay_step en lv To_Int r =
     (case e_last r of
        Some (Int_Write_E n) \<Rightarrow>
          deliver en lv (px_e_to_i (rl_server r)) n (r\<lparr>rl_to_int := rl_to_int r @ take (nat n) (rl_e_buf r)\<rparr>)
      | _ \<Rightarrow> None)"
| "relay_step en lv (From_Int bs) r =
     (case i_last r of
        Some (Int_Read_I n) \<Rightarrow>
          if bs \<noteq> [] \<and> length bs \<le> n
          then deliver en lv (px_i_to_e (rl_server r)) (int (length bs)) (r\<lparr>rl_i_buf := refill bs (rl_i_buf r)\<rparr>) else None
      | _ \<Rightarrow> None)"
| "relay_step en lv To_Ext r =
     (case i_last r of
        Some (Ext_Write_I n) \<Rightarrow>
          deliver en lv (px_i_to_e (rl_server r)) n (r\<lparr>rl_to_ext := rl_to_ext r @ take (nat n) (rl_i_buf r)\<rparr>)
      | _ \<Rightarrow> None)"

fun relay_run :: "proxy_env \<Rightarrow> login_state \<times> visits \<Rightarrow> relay_event list \<Rightarrow> relay \<Rightarrow> relay option" where
  "relay_run en lv [] r = Some r"
| "relay_run en lv (ev # evs) r = Option.bind (relay_step en lv ev r) (relay_run en lv evs)"

fun ext_bytes :: "relay_event list \<Rightarrow> u8 list" where
  "ext_bytes [] = []"
| "ext_bytes (From_Ext bs # evs) = bs @ ext_bytes evs"
| "ext_bytes (_ # evs) = ext_bytes evs"

fun int_bytes :: "relay_event list \<Rightarrow> u8 list" where
  "int_bytes [] = []"
| "int_bytes (From_Int bs # evs) = bs @ int_bytes evs"
| "int_bytes (_ # evs) = int_bytes evs"

section \<open>Invariant\<close>

text \<open>What has been read in a direction and not yet written.\<close>

fun pending :: "proxy_call option \<Rightarrow> u8 list \<Rightarrow> u8 list" where
  "pending (Some (Int_Write_E n)) buf = take (nat n) buf"
| "pending (Some (Ext_Write_I n)) buf = take (nat n) buf"
| "pending _ buf = []"

definition e_waiting :: "relay \<Rightarrow> u8 list" where
  "e_waiting r = pending (e_last r) (rl_e_buf r)"

definition i_waiting :: "relay \<Rightarrow> u8 list" where
  "i_waiting r = pending (i_last r) (rl_i_buf r)"

definition relay_ok :: "proxy_env \<Rightarrow> relay \<Rightarrow> bool" where
  "relay_ok en r \<longleftrightarrow> (let s = rl_server r in
     px_next_op s = Proxy_Websocket \<and> \<not> px_check_websocket s \<and>
     (\<exists>j < length (px_calls s). \<exists>k < length (px_calls s). j \<noteq> k \<and> px_e_to_i s = pe_ids en j \<and> px_i_to_e s = pe_ids en k) \<and>
     (if px_e_read s then e_last r = Some (Ext_Read_E BUF_SIZE)
      else \<exists>n. e_last r = Some (Int_Write_E n) \<and> 0 < n \<and> nat n \<le> BUF_SIZE) \<and>
     (if px_i_read s then i_last r = Some (Int_Read_I BUF_SIZE)
      else \<exists>n. i_last r = Some (Ext_Write_I n) \<and> 0 < n \<and> nat n \<le> BUF_SIZE))"

text \<open>The first \<open>n\<close> ids are distinct.\<close>

definition distinct_ids :: "proxy_env \<Rightarrow> nat \<Rightarrow> bool" where
  "distinct_ids en n \<longleftrightarrow> inj_on (pe_ids en) {..<n}"

definition calls_made :: "relay \<Rightarrow> nat" where
  "calls_made r = length (px_calls (rl_server r))"

lemma distinct_ids_less: "distinct_ids en n \<Longrightarrow> m \<le> n \<Longrightarrow> distinct_ids en m"
  by (auto simp: distinct_ids_def inj_on_def)

lemma last_call_snoc [simp]: "last_call P (cs @ [c]) = (if P c then Some c else last_call P cs)"
  by (simp add: last_call_def Let_def)

lemma take_refill [simp]: "take (length bs) (refill bs buf) = bs"
  by (simp add: refill_def)

text \<open>A completion in one direction starts the next transfer of that direction and nothing else.\<close>

lemma deliver_e:
  assumes "relay_ok en r" "0 < rc"
    and "c = (if px_e_read (rl_server r) then Int_Write_E rc else Ext_Read_E BUF_SIZE)"
  shows "\<exists>r'. deliver en lv (px_e_to_i (rl_server r)) rc r = Some r' \<and> px_calls (rl_server r') = px_calls (rl_server r) @ [c] \<and>
    px_e_read (rl_server r') = (\<not> px_e_read (rl_server r)) \<and> px_i_read (rl_server r') = px_i_read (rl_server r) \<and>
    px_e_to_i (rl_server r') = pe_ids en (length (px_calls (rl_server r))) \<and> px_i_to_e (rl_server r') = px_i_to_e (rl_server r) \<and>
    px_next_op (rl_server r') = Proxy_Websocket \<and> \<not> px_check_websocket (rl_server r') \<and>
    rl_e_buf r' = rl_e_buf r \<and> rl_i_buf r' = rl_i_buf r \<and> rl_to_int r' = rl_to_int r \<and> rl_to_ext r' = rl_to_ext r"
  using assms
  by (cases lv) (auto simp: deliver_def proxy_on_new_data_def proxy_websocket_def px_call_def relay_ok_def Let_def)

lemma deliver_i:
  assumes "relay_ok en r" "distinct_ids en (calls_made r)" "0 < rc"
    and "c = (if px_i_read (rl_server r) then Ext_Write_I rc else Int_Read_I BUF_SIZE)"
  shows "\<exists>r'. deliver en lv (px_i_to_e (rl_server r)) rc r = Some r' \<and> px_calls (rl_server r') = px_calls (rl_server r) @ [c] \<and>
    px_i_read (rl_server r') = (\<not> px_i_read (rl_server r)) \<and> px_e_read (rl_server r') = px_e_read (rl_server r) \<and>
    px_i_to_e (rl_server r') = pe_ids en (length (px_calls (rl_server r))) \<and> px_e_to_i (rl_server r') = px_e_to_i (rl_server r) \<and>
    px_next_op (rl_server r') = Proxy_Websocket \<and> \<not> px_check_websocket (rl_server r') \<and>
    rl_e_buf r' = rl_e_buf r \<and> rl_i_buf r' = rl_i_buf r \<and> rl_to_int r' = rl_to_int r \<and> rl_to_ext r' = rl_to_ext r"
proof -
  have "px_i_to_e (rl_server r) \<noteq> px_e_to_i (rl_server r)"
    using assms(1,2) by (auto simp: relay_ok_def Let_def distinct_ids_def calls_made_def dest: inj_onD)
  then show ?thesis
    using assms
    by (cases lv) (auto simp: deliver_def proxy_on_new_data_def proxy_websocket_def px_call_def relay_ok_def Let_def)
qed

lemma relay_ok_buffers [simp]:
  "e_last (r\<lparr>rl_e_buf := b\<rparr>) = e_last r" "i_last (r\<lparr>rl_e_buf := b\<rparr>) = i_last r"
  "e_last (r\<lparr>rl_i_buf := b\<rparr>) = e_last r" "i_last (r\<lparr>rl_i_buf := b\<rparr>) = i_last r"
  "e_last (r\<lparr>rl_to_int := b\<rparr>) = e_last r" "i_last (r\<lparr>rl_to_int := b\<rparr>) = i_last r"
  "e_last (r\<lparr>rl_to_ext := b\<rparr>) = e_last r" "i_last (r\<lparr>rl_to_ext := b\<rparr>) = i_last r"
  "relay_ok en (r\<lparr>rl_e_buf := b\<rparr>) = relay_ok en r" "relay_ok en (r\<lparr>rl_i_buf := b\<rparr>) = relay_ok en r"
  "relay_ok en (r\<lparr>rl_to_int := b\<rparr>) = relay_ok en r" "relay_ok en (r\<lparr>rl_to_ext := b\<rparr>) = relay_ok en r"
  "calls_made (r\<lparr>rl_e_buf := b\<rparr>) = calls_made r" "calls_made (r\<lparr>rl_i_buf := b\<rparr>) = calls_made r"
  "calls_made (r\<lparr>rl_to_int := b\<rparr>) = calls_made r" "calls_made (r\<lparr>rl_to_ext := b\<rparr>) = calls_made r"
  by (simp_all add: relay_ok_def e_last_def i_last_def calls_made_def)

text \<open>The state after a completion, by direction.\<close>

lemma relay_ok_e:
  assumes "relay_ok en r" "deliver en lv (px_e_to_i (rl_server r)) rc r = Some r'" "0 < rc" "nat rc \<le> BUF_SIZE"
  shows "relay_ok en r'" "i_last r' = i_last r"
    "e_last r' = Some (if px_e_read (rl_server r) then Int_Write_E rc else Ext_Read_E BUF_SIZE)"
    "rl_e_buf r' = rl_e_buf r" "rl_i_buf r' = rl_i_buf r" "rl_to_int r' = rl_to_int r" "rl_to_ext r' = rl_to_ext r"
    "calls_made r' = Suc (calls_made r)"
proof -
  let ?c = "if px_e_read (rl_server r) then Int_Write_E rc else Ext_Read_E BUF_SIZE" and ?n = "length (px_calls (rl_server r))"
  have d: "px_calls (rl_server r') = px_calls (rl_server r) @ [?c]"
    "px_e_read (rl_server r') = (\<not> px_e_read (rl_server r))" "px_i_read (rl_server r') = px_i_read (rl_server r)"
    "px_e_to_i (rl_server r') = pe_ids en ?n" "px_i_to_e (rl_server r') = px_i_to_e (rl_server r)"
    "px_next_op (rl_server r') = Proxy_Websocket" "\<not> px_check_websocket (rl_server r')"
    and b: "rl_e_buf r' = rl_e_buf r" "rl_i_buf r' = rl_i_buf r" "rl_to_int r' = rl_to_int r" "rl_to_ext r' = rl_to_ext r"
    using deliver_e [OF assms(1,3) refl, of lv] assms(2) by auto
  show l: "i_last r' = i_last r" "e_last r' = Some ?c" by (simp_all add: i_last_def e_last_def d(1))
  obtain k where "k < ?n" "px_i_to_e (rl_server r) = pe_ids en k" using assms(1) by (auto simp: relay_ok_def Let_def)
  then have "\<exists>j < Suc ?n. \<exists>k < Suc ?n. j \<noteq> k \<and> pe_ids en ?n = pe_ids en j \<and> px_i_to_e (rl_server r) = pe_ids en k"
    by (intro exI [of _ ?n] conjI exI [of _ k]) auto
  moreover have "(if px_i_read (rl_server r) then i_last r = Some (Int_Read_I BUF_SIZE)
      else \<exists>n. i_last r = Some (Ext_Write_I n) \<and> 0 < n \<and> nat n \<le> BUF_SIZE)"
    using assms(1) unfolding relay_ok_def Let_def by (elim conjE) assumption
  ultimately show "relay_ok en r'"
    using d l assms(3,4) by (simp add: relay_ok_def Let_def)
  show "rl_e_buf r' = rl_e_buf r" "rl_i_buf r' = rl_i_buf r" "rl_to_int r' = rl_to_int r" "rl_to_ext r' = rl_to_ext r"
    by (fact b)+
  show "calls_made r' = Suc (calls_made r)" using d(1) by (simp add: calls_made_def)
qed

lemma relay_ok_i:
  assumes "relay_ok en r" "deliver en lv (px_i_to_e (rl_server r)) rc r = Some r'" "distinct_ids en (calls_made r)" "0 < rc" "nat rc \<le> BUF_SIZE"
  shows "relay_ok en r'" "e_last r' = e_last r"
    "i_last r' = Some (if px_i_read (rl_server r) then Ext_Write_I rc else Int_Read_I BUF_SIZE)"
    "rl_e_buf r' = rl_e_buf r" "rl_i_buf r' = rl_i_buf r" "rl_to_int r' = rl_to_int r" "rl_to_ext r' = rl_to_ext r"
    "calls_made r' = Suc (calls_made r)"
proof -
  let ?c = "if px_i_read (rl_server r) then Ext_Write_I rc else Int_Read_I BUF_SIZE" and ?n = "length (px_calls (rl_server r))"
  have d: "px_calls (rl_server r') = px_calls (rl_server r) @ [?c]"
    "px_i_read (rl_server r') = (\<not> px_i_read (rl_server r))" "px_e_read (rl_server r') = px_e_read (rl_server r)"
    "px_i_to_e (rl_server r') = pe_ids en ?n" "px_e_to_i (rl_server r') = px_e_to_i (rl_server r)"
    "px_next_op (rl_server r') = Proxy_Websocket" "\<not> px_check_websocket (rl_server r')"
    and b: "rl_e_buf r' = rl_e_buf r" "rl_i_buf r' = rl_i_buf r" "rl_to_int r' = rl_to_int r" "rl_to_ext r' = rl_to_ext r"
    using deliver_i [OF assms(1,3,4) refl, of lv] assms(2) by auto
  show l: "e_last r' = e_last r" "i_last r' = Some ?c" by (simp_all add: i_last_def e_last_def d(1))
  obtain j where "j < ?n" "px_e_to_i (rl_server r) = pe_ids en j" using assms(1) by (auto simp: relay_ok_def Let_def)
  then have "\<exists>j < Suc ?n. \<exists>k < Suc ?n. j \<noteq> k \<and> px_e_to_i (rl_server r) = pe_ids en j \<and> pe_ids en ?n = pe_ids en k"
    by (intro exI [of _ j] conjI exI [of _ ?n]) auto
  moreover have "(if px_e_read (rl_server r) then e_last r = Some (Ext_Read_E BUF_SIZE)
      else \<exists>n. e_last r = Some (Int_Write_E n) \<and> 0 < n \<and> nat n \<le> BUF_SIZE)"
    using assms(1) unfolding relay_ok_def Let_def by (elim conjE) assumption
  ultimately show "relay_ok en r'"
    using d l assms(4,5) by (simp add: relay_ok_def Let_def)
  show "rl_e_buf r' = rl_e_buf r" "rl_i_buf r' = rl_i_buf r" "rl_to_int r' = rl_to_int r" "rl_to_ext r' = rl_to_ext r"
    by (fact b)+
  show "calls_made r' = Suc (calls_made r)" using d(1) by (simp add: calls_made_def)
qed

text \<open>Every event keeps the invariant and loses no byte.\<close>

definition e_done :: "relay \<Rightarrow> u8 list" where "e_done r = rl_to_int r @ e_waiting r"
definition i_done :: "relay \<Rightarrow> u8 list" where "i_done r = rl_to_ext r @ i_waiting r"

lemma relay_ok_reading:
  assumes "relay_ok en r"
  shows "e_last r = Some (Ext_Read_E n) \<Longrightarrow> px_e_read (rl_server r) \<and> n = BUF_SIZE"
    "e_last r = Some (Int_Write_E m) \<Longrightarrow> \<not> px_e_read (rl_server r) \<and> 0 < m \<and> nat m \<le> BUF_SIZE"
    "i_last r = Some (Int_Read_I n) \<Longrightarrow> px_i_read (rl_server r) \<and> n = BUF_SIZE"
    "i_last r = Some (Ext_Write_I m) \<Longrightarrow> \<not> px_i_read (rl_server r) \<and> 0 < m \<and> nat m \<le> BUF_SIZE"
  using assms by (auto simp: relay_ok_def Let_def split: if_splits)

lemma relay_step_ok:
  assumes "relay_ok en r" "distinct_ids en (calls_made r)" "relay_step en lv ev r = Some r'"
  shows "relay_ok en r' \<and> e_done r' = e_done r @ ext_bytes [ev] \<and> i_done r' = i_done r @ int_bytes [ev] \<and> calls_made r' = Suc (calls_made r)"
proof (cases ev)
  case (From_Ext bs)
  then have l: "e_last r = Some (Ext_Read_E BUF_SIZE)" "bs \<noteq> []" "length bs \<le> BUF_SIZE" "px_e_read (rl_server r)"
    using assms(3) relay_ok_reading(1) [OF assms(1)] by (auto split: option.splits proxy_call.splits if_splits)
  let ?r = "r\<lparr>rl_e_buf := refill bs (rl_e_buf r)\<rparr>"
  have "deliver en lv (px_e_to_i (rl_server ?r)) (int (length bs)) ?r = Some r'" "relay_ok en ?r"
    using assms(1,3) From_Ext l by simp_all
  from relay_ok_e [OF this(2,1)] show ?thesis
    using l From_Ext by (simp add: e_done_def i_done_def e_waiting_def i_waiting_def)
next
  case To_Int
  then obtain n where l: "e_last r = Some (Int_Write_E n)" "0 < n" "nat n \<le> BUF_SIZE" "\<not> px_e_read (rl_server r)"
    using assms(3) relay_ok_reading(2) [OF assms(1)] by (auto split: option.splits proxy_call.splits)
  let ?r = "r\<lparr>rl_to_int := rl_to_int r @ take (nat n) (rl_e_buf r)\<rparr>"
  have "deliver en lv (px_e_to_i (rl_server ?r)) n ?r = Some r'" "relay_ok en ?r"
    using assms(1,3) To_Int l by simp_all
  from relay_ok_e [OF this(2,1)] show ?thesis
    using l To_Int by (simp add: e_done_def i_done_def e_waiting_def i_waiting_def)
next
  case (From_Int bs)
  then have l: "i_last r = Some (Int_Read_I BUF_SIZE)" "bs \<noteq> []" "length bs \<le> BUF_SIZE" "px_i_read (rl_server r)"
    using assms(3) relay_ok_reading(3) [OF assms(1)] by (auto split: option.splits proxy_call.splits if_splits)
  let ?r = "r\<lparr>rl_i_buf := refill bs (rl_i_buf r)\<rparr>"
  have "deliver en lv (px_i_to_e (rl_server ?r)) (int (length bs)) ?r = Some r'" "relay_ok en ?r"
    using assms(1,3) From_Int l by simp_all
  from relay_ok_i [OF this(2,1)] assms(2) show ?thesis
    using l From_Int by (simp add: e_done_def i_done_def e_waiting_def i_waiting_def)
next
  case To_Ext
  then obtain n where l: "i_last r = Some (Ext_Write_I n)" "0 < n" "nat n \<le> BUF_SIZE" "\<not> px_i_read (rl_server r)"
    using assms(3) relay_ok_reading(4) [OF assms(1)] by (auto split: option.splits proxy_call.splits)
  let ?r = "r\<lparr>rl_to_ext := rl_to_ext r @ take (nat n) (rl_i_buf r)\<rparr>"
  have "deliver en lv (px_i_to_e (rl_server ?r)) n ?r = Some r'" "relay_ok en ?r"
    using assms(1,3) To_Ext l by simp_all
  from relay_ok_i [OF this(2,1)] assms(2) show ?thesis
    using l To_Ext by (simp add: e_done_def i_done_def e_waiting_def i_waiting_def)
qed

lemma bytes_Cons:
  "ext_bytes (ev # evs) = ext_bytes [ev] @ ext_bytes evs" "int_bytes (ev # evs) = int_bytes [ev] @ int_bytes evs"
  by (cases ev; simp)+

lemma relay_run_ok:
  assumes "relay_ok en r" "distinct_ids en (calls_made r + length evs)" "relay_run en lv evs r = Some r'"
  shows "relay_ok en r' \<and> e_done r' = e_done r @ ext_bytes evs \<and> i_done r' = i_done r @ int_bytes evs \<and>
    calls_made r' = calls_made r + length evs"
  using assms
proof (induction evs arbitrary: r)
  case (Cons ev evs)
  then obtain r1 where r1: "relay_step en lv ev r = Some r1" "relay_run en lv evs r1 = Some r'"
    by (auto simp: bind_eq_Some_conv)
  have "distinct_ids en (calls_made r)" using Cons.prems(2) by (rule distinct_ids_less) simp
  from relay_step_ok [OF Cons.prems(1) this r1(1)] Cons.IH [OF _ _ r1(2)] Cons.prems(2) show ?case
    by (subst bytes_Cons(1), subst bytes_Cons(2)) simp
qed simp

section \<open>Properties\<close>

text \<open>The relay as the answer to the upgrade has been written, under the task \<open>k\<close>.\<close>

definition relay_start :: "proxy_env \<Rightarrow> nat \<Rightarrow> relay \<Rightarrow> bool" where
  "relay_start en k r \<longleftrightarrow> (let s = rl_server r in
     px_next_op s = Proxy_Websocket \<and> px_check_websocket s \<and> px_e_read s \<and> px_i_read s \<and> k < length (px_calls s) \<and>
     rl_to_int r = [] \<and> rl_to_ext r = [])"

lemma relay_starts:
  assumes "relay_start en k r" "distinct_ids en (calls_made r + 4)" "0 < rc"
  shows "\<exists>r'. deliver en lv (pe_ids en k) rc r = Some r' \<and> relay_ok en r' \<and> e_done r' = [] \<and> i_done r' = [] \<and>
    calls_made r' = calls_made r + 4"
proof -
  let ?n = "length (px_calls (rl_server r))"
  have "pe_ids en k \<noteq> pe_ids en (Suc (Suc ?n))" "pe_ids en k \<noteq> pe_ids en (Suc (Suc (Suc ?n)))"
    using assms(1,2) by (auto simp: relay_start_def Let_def distinct_ids_def calls_made_def dest: inj_onD)
  then have "\<exists>r'. deliver en lv (pe_ids en k) rc r = Some r' \<and>
    px_calls (rl_server r') = px_calls (rl_server r) @ [Move_Up_Tls, Move_Up_Bytes, Ext_Read_E BUF_SIZE] @ [Int_Read_I BUF_SIZE] \<and>
    px_e_to_i (rl_server r') = pe_ids en (?n + 2) \<and> px_i_to_e (rl_server r') = pe_ids en (?n + 3) \<and>
    px_e_read (rl_server r') \<and> px_i_read (rl_server r') \<and> px_next_op (rl_server r') = Proxy_Websocket \<and>
    \<not> px_check_websocket (rl_server r') \<and> rl_to_int r' = [] \<and> rl_to_ext r' = []"
    using assms
    by (cases lv) (simp add: deliver_def proxy_on_new_data_def proxy_websocket_def px_call_def relay_start_def Let_def
        numeral_2_eq_2 numeral_3_eq_3)
  then obtain r' where r': "deliver en lv (pe_ids en k) rc r = Some r'"
    "px_calls (rl_server r') = px_calls (rl_server r) @ [Move_Up_Tls, Move_Up_Bytes, Ext_Read_E BUF_SIZE] @ [Int_Read_I BUF_SIZE]"
    "px_e_to_i (rl_server r') = pe_ids en (?n + 2)" "px_i_to_e (rl_server r') = pe_ids en (?n + 3)"
    "px_e_read (rl_server r')" "px_i_read (rl_server r')" "px_next_op (rl_server r') = Proxy_Websocket"
    "\<not> px_check_websocket (rl_server r')" "rl_to_int r' = []" "rl_to_ext r' = []"
    by blast
  have l: "e_last r' = Some (Ext_Read_E BUF_SIZE)" "i_last r' = Some (Int_Read_I BUF_SIZE)"
    by (simp_all add: e_last_def i_last_def r'(2) last_call_def)
  have "length (px_calls (rl_server r')) = ?n + 4" using r'(2) by simp
  moreover have "\<exists>j < ?n + 4. \<exists>k < ?n + 4. j \<noteq> k \<and> px_e_to_i (rl_server r') = pe_ids en j \<and> px_i_to_e (rl_server r') = pe_ids en k"
    unfolding r'(3,4) by (intro exI [of _ "?n + 2"] conjI exI [of _ "?n + 3"]) auto
  ultimately have "relay_ok en r'" using r'(5-8) l unfolding relay_ok_def Let_def by simp
  then show ?thesis using r' l by (intro exI [of _ r']) (simp add: e_done_def i_done_def e_waiting_def i_waiting_def calls_made_def)
qed


text \<open>
  The relay never gets stuck: after any run there is one transfer under way in each
  direction, and its completion is taken and starts the next.
\<close>

theorem relay_never_stuck:
  assumes "relay_start en k r0" "distinct_ids en (calls_made r0 + 4 + length evs)" "0 < rc"
    and "deliver en lv (pe_ids en k) rc r0 = Some r" "relay_run en lv evs r = Some r'" "bs \<noteq> []" "length bs \<le> 16384"
  shows "(relay_step en lv (From_Ext bs) r' \<noteq> None \<or> relay_step en lv To_Int r' \<noteq> None) \<and>
    (relay_step en lv (From_Int bs) r' \<noteq> None \<or> relay_step en lv To_Ext r' \<noteq> None)"
proof -
  have "distinct_ids en (calls_made r0 + 4)" using assms(2) by (rule distinct_ids_less) simp
  from relay_starts [OF assms(1) this assms(3), of lv] assms(4)
  have "relay_ok en r" "calls_made r = calls_made r0 + 4" by auto
  with relay_run_ok [OF _ _ assms(5)] assms(2) have ok: "relay_ok en r'" and di: "distinct_ids en (calls_made r')" by auto
  have d: "deliver en lv (px_e_to_i (rl_server x)) n x \<noteq> None" "deliver en lv (px_i_to_e (rl_server x)) n x \<noteq> None"
    if "relay_ok en x" "distinct_ids en (calls_made x)" "0 < n" for x n
    using deliver_e [OF that(1,3) refl, of lv] deliver_i [OF that refl, of lv] by auto
  have n: "0 < int (length bs)" using assms(6) by simp
  have "relay_step en lv (From_Ext bs) r' \<noteq> None \<or> relay_step en lv To_Int r' \<noteq> None"
  proof (cases "px_e_read (rl_server r')")
    case True
    then have "e_last r' = Some (Ext_Read_E BUF_SIZE)" using ok by (simp add: relay_ok_def Let_def)
    then show ?thesis using d(1) [of "r'\<lparr>rl_e_buf := refill bs (rl_e_buf r')\<rparr>", OF _ _ n] ok di assms(6,7) by (simp add: BUF_SIZE_def)
  next
    case False
    then obtain n where "e_last r' = Some (Int_Write_E n)" "0 < n" using ok by (auto simp: relay_ok_def Let_def)
    then show ?thesis using d(1) [of "r'\<lparr>rl_to_int := rl_to_int r' @ take (nat n) (rl_e_buf r')\<rparr>" n] ok di by simp
  qed
  moreover have "relay_step en lv (From_Int bs) r' \<noteq> None \<or> relay_step en lv To_Ext r' \<noteq> None"
  proof (cases "px_i_read (rl_server r')")
    case True
    then have "i_last r' = Some (Int_Read_I BUF_SIZE)" using ok by (simp add: relay_ok_def Let_def)
    then show ?thesis using d(2) [of "r'\<lparr>rl_i_buf := refill bs (rl_i_buf r')\<rparr>", OF _ _ n] ok di assms(6,7) by (simp add: BUF_SIZE_def)
  next
    case False
    then obtain n where "i_last r' = Some (Ext_Write_I n)" "0 < n" using ok by (auto simp: relay_ok_def Let_def)
    then show ?thesis using d(2) [of "r'\<lparr>rl_to_ext := rl_to_ext r' @ take (nat n) (rl_i_buf r')\<rparr>" n] ok di by simp
  qed
  ultimately show ?thesis by blast
qed

section \<open>Witnesses\<close>

definition demo_relay :: relay where
  "demo_relay = \<lparr>rl_server = demo_conn\<lparr>px_check_websocket := True, px_next_op := Proxy_Websocket, px_calls := [Ext_Read_Http]\<rparr>,
     rl_e_buf = [], rl_i_buf = [], rl_to_int = [], rl_to_ext = []\<rparr>"



definition demo_events :: "relay_event list" where
  "demo_events = [From_Ext [1, 2], From_Int [9], To_Int]"

lemma demo_relay_setup:
  "relay_start (demo_px_env demo_cookie_request) 0 demo_relay"
  "distinct_ids (demo_px_env demo_cookie_request) (calls_made demo_relay + 4 + length demo_events)"
proof -
  show "relay_start (demo_px_env demo_cookie_request) 0 demo_relay"
    by (simp add: relay_start_def demo_relay_def demo_conn_def)
  have "m = n" if "m < 8" "n < 8" "(word_of_nat m :: u64) = word_of_nat n" for m n :: nat
  proof -
    have "unat (word_of_nat m :: u64) = m" "unat (word_of_nat n :: u64) = n"
      by (rule unat_word_nat, use that in simp)+
    with that(3) show ?thesis by metis
  qed
  then show "distinct_ids (demo_px_env demo_cookie_request) (calls_made demo_relay + 4 + length demo_events)"
    by (simp add: distinct_ids_def calls_made_def demo_relay_def demo_conn_def demo_events_def demo_px_env_def inj_on_def)
qed

lemma demo_relay_run:
  "\<exists>r r'. deliver (demo_px_env demo_cookie_request) (demo_lg, []) (pe_ids (demo_px_env demo_cookie_request) 0) 5 demo_relay = Some r \<and>
    relay_run (demo_px_env demo_cookie_request) (demo_lg, []) demo_events r = Some r' \<and> rl_to_int r' = [1, 2] \<and> i_waiting r' = [9]"
  by (simp add: deliver_def proxy_on_new_data_def proxy_websocket_def px_call_def demo_relay_def demo_conn_def demo_events_def
      demo_px_env_def e_last_def i_last_def last_call_def refill_def BUF_SIZE_def i_waiting_def Let_def)


lemma relay_never_stuck_witness:
  "\<exists>r r'. relay_run (demo_px_env demo_cookie_request) (demo_lg, []) demo_events r = Some r' \<and>
    (relay_step (demo_px_env demo_cookie_request) (demo_lg, []) (From_Ext [7]) r' \<noteq> None \<or>
     relay_step (demo_px_env demo_cookie_request) (demo_lg, []) To_Int r' \<noteq> None)"
proof -
  obtain r r' where r: "deliver (demo_px_env demo_cookie_request) (demo_lg, []) (pe_ids (demo_px_env demo_cookie_request) 0) 5 demo_relay = Some r"
    "relay_run (demo_px_env demo_cookie_request) (demo_lg, []) demo_events r = Some r'"
    using demo_relay_run by blast
  have "(0 :: int) < 5" "[7 :: u8] \<noteq> []" "length [7 :: u8] \<le> 16384" by simp_all
  from relay_never_stuck [OF demo_relay_setup this(1) r this(2,3)] r show ?thesis by blast
qed

end
