(* ===== verification/Http_Client.thy ===== *)
theory Http_Client
  imports Http_IO
begin

text \<open>
  \<^verbatim>\<open>ReadWriteHTTPC\<close> (\<^verbatim>\<open>src/common/readwrite_httpc.{h,cpp}\<close>), the client side of HTTP that the reverse
  proxy names: it reads responses and writes requests.  Like the proxy it is written against the
  former interface of the handler (\<^verbatim>\<open>initialize_dependent_event\<close>, \<^verbatim>\<open>call_dependent_function\<close>,
  \<^verbatim>\<open>finalize_current_task\<close>), which the sources do not contain any more; the calls made on it are
  recorded in order and the ids it gives out are the parameter \<open>ids\<close>.  The parser of the library
  parameter \<open>hl\<close> is the response parser here and \<open>rq_new\<close> makes the serializer of a request.

  Its \<^verbatim>\<open>try_parse\<close> differs from the server's in one condition: it also goes on when the parser asks for
  more.  The theorems say what that costs: with a parser that takes every byte it is given nothing
  changes, with one that leaves an incomplete header in the buffer the loop never ends.
\<close>

section \<open>Model\<close>

text \<open>The calls: a socket for the files (TLS or not), a read or write of it (TLS or not, address,
  length, whether to fill the buffer), the end of the task (failed, code).\<close>

datatype client_call =
    Init_Socket bool "int list"
  | Sock_Read bool nat u64 bool
  | Sock_Write bool nat u64
  | Finalize_Current bool int

record ('b, 'p) http_client =
  hc_files :: "int list"
  hc_tls :: bool
  hc_read_op :: bool
  hc_writer :: u64
  hc_reader :: u64
  hc_parser :: "'p option"
  hc_buffer :: 'b
  hc_wbuffer :: 'b
  hc_calls :: "client_call list"

definition call_dependent ::
  "(nat \<Rightarrow> u64) \<Rightarrow> client_call \<Rightarrow> ('b, 'p) http_client \<Rightarrow> u64 \<times> ('b, 'p) http_client"
where
  "call_dependent ids c s = (ids (length (hc_calls s)), s\<lparr>hc_calls := hc_calls s @ [c]\<rparr>)"

definition client_new :: "('b, 'p, 'z) http_lib \<Rightarrow> int list \<Rightarrow> bool \<Rightarrow> ('b, 'p) http_client" where
  "client_new hl fs use_ssl =
     \<lparr>hc_files = fs, hc_tls = use_ssl, hc_read_op = False, hc_writer = 0, hc_reader = 0, hc_parser = None,
      hc_buffer = fb_empty hl, hc_wbuffer = fb_empty hl, hc_calls = [Init_Socket use_ssl fs]\<rparr>"

definition client_arm_read ::
  "('b, 'p, 'z) http_lib \<Rightarrow> (nat \<Rightarrow> u64) \<Rightarrow> ('b, 'p) http_client \<Rightarrow> ('b, 'p) http_client"
where
  "client_arm_read hl ids s =
     (let (buf, b) = fb_prepare hl 4096 (hc_buffer s);
          (i, s') = call_dependent ids (Sock_Read (hc_tls s) buf 4096 False) (s\<lparr>hc_buffer := b\<rparr>)
      in s'\<lparr>hc_reader := i\<rparr>)"

definition client_arm_write ::
  "('b, 'p, 'z) http_lib \<Rightarrow> (nat \<Rightarrow> u64) \<Rightarrow> ('b, 'p) http_client \<Rightarrow> ('b, 'p) http_client"
where
  "client_arm_write hl ids s =
     (let n = length (fb_data hl (hc_wbuffer s))
      in if n = 0 then s
         else (let (i, s') = call_dependent ids (Sock_Write (hc_tls s) (fb_addr hl (hc_wbuffer s)) (word_of_nat n)) s
               in s'\<lparr>hc_writer := i\<rparr>))"

text \<open>The loop of \<^verbatim>\<open>try_parse\<close>: \<open>while ((!ec || ec == need_more) && !parser_->is_done() && buffer_.size())\<close>.\<close>

partial_function (option) client_parse_loop ::
  "('b, 'p, 'z) http_lib \<Rightarrow> parse_error \<Rightarrow> 'p \<Rightarrow> 'b \<Rightarrow> (parse_error \<times> 'p \<times> 'b) option"
where
  "client_parse_loop hl ec p b =
     (if (ec = No_Error \<or> ec = Need_More) \<and> \<not> ps_done hl p \<and> fb_data hl b \<noteq> [] then
        (case ps_put hl (fb_data hl b) p of (consumed, ec', p') \<Rightarrow>
           client_parse_loop hl ec' p' (fb_consume hl consumed b))
      else Some (ec, p, b))"

definition client_try_parse ::
  "('b, 'p, 'z) http_lib \<Rightarrow> ('b, 'p) http_client \<Rightarrow> (bool \<times> ('b, 'p) http_client) run"
where
  "client_try_parse hl s =
     (case hc_parser s of
        None \<Rightarrow> Some (Inl Undefined_Behaviour)
      | Some p \<Rightarrow>
          (case ps_put hl (fb_data hl (hc_buffer s)) p of (consumed, ec, p') \<Rightarrow>
            (case client_parse_loop hl ec p' (fb_consume hl consumed (hc_buffer s)) of
               None \<Rightarrow> None
             | Some (ec, p, b) \<Rightarrow>
                 Some (Inr (if ec \<noteq> No_Error \<and> ec \<noteq> Need_More then True else ps_done hl p,
                            s\<lparr>hc_parser := Some p, hc_buffer := b\<rparr>)))))"

text \<open>\<^verbatim>\<open>finalize_current_task\<close>\<close>

definition finalize :: "bool \<Rightarrow> int \<Rightarrow> ('b, 'p) http_client \<Rightarrow> ('b, 'p) http_client" where
  "finalize failed code s = s\<lparr>hc_calls := hc_calls s @ [Finalize_Current failed code]\<rparr>"

definition client_handle_read ::
  "('b, 'p, 'z) http_lib \<Rightarrow> (nat \<Rightarrow> u64) \<Rightarrow> int \<Rightarrow> ('b, 'p) http_client \<Rightarrow> ('b, 'p) http_client run"
where
  "client_handle_read hl ids r s =
     (let s' = (if r > 0 then s\<lparr>hc_buffer := fb_commit hl (nat r) (hc_buffer s)\<rparr> else s) in
      rbind (client_try_parse hl s') (\<lambda>(fin, s'').
        Some (Inr (if fin then finalize False 1 s'' else client_arm_read hl ids s''))))"

definition client_handle_write ::
  "('b, 'p, 'z) http_lib \<Rightarrow> (nat \<Rightarrow> u64) \<Rightarrow> int \<Rightarrow> ('b, 'p) http_client \<Rightarrow> ('b, 'p) http_client"
where
  "client_handle_write hl ids r s =
     (let s' = (if r > 0 then s\<lparr>hc_wbuffer := fb_consume hl (nat r) (hc_wbuffer s)\<rparr> else s) in
      if length (fb_data hl (hc_wbuffer s')) > 0 then client_arm_write hl ids s' else finalize False 1 s')"

definition client_read_http ::
  "('b, 'p, 'z) http_lib \<Rightarrow> (nat \<Rightarrow> u64) \<Rightarrow> ('b, 'p) http_client \<Rightarrow> (call_response \<times> ('b, 'p) http_client) run"
where
  "client_read_http hl ids s =
     rbind (client_handle_read hl ids 0 (s\<lparr>hc_read_op := True, hc_parser := Some (ps_new hl)\<rparr>)) (\<lambda>s'.
       Some (Inr (mk_response ''Read HTTP'' OP_HINT_READ, s')))"


definition client_write_http ::
  "('b, 'p, 'z) http_lib \<Rightarrow> (http_request \<Rightarrow> 'z) \<Rightarrow> (nat \<Rightarrow> u64) \<Rightarrow> http_request \<Rightarrow> ('b, 'p) http_client \<Rightarrow>
    (call_response \<times> ('b, 'p) http_client) run"
where
  "client_write_http hl rq_new ids req s =
     (case serialize_loop hl (rq_new req) (hc_wbuffer s) of
        None \<Rightarrow> None
      | Some b \<Rightarrow>
          Some (Inr (mk_response ''HTTP Write'' OP_HINT_WRITE,
            client_arm_write hl ids (s\<lparr>hc_read_op := False, hc_wbuffer := b\<rparr>))))"

fun client_on_new_data ::
  "('b, 'p, 'z) http_lib \<Rightarrow> (nat \<Rightarrow> u64) \<Rightarrow> cls event_type \<Rightarrow> ('b, 'p) http_client \<Rightarrow> ('b, 'p) http_client run"
where
  "client_on_new_data hl ids (ChildTaskCompletion _ _ _ rc) s =
     (if rc \<le> 0 then Some (Inr (finalize True rc s))
      else if hc_read_op s then client_handle_read hl ids rc s
      else Some (Inr (client_handle_write hl ids rc s)))"
| "client_on_new_data hl ids _ s = Some (Inl Bad_Variant_Access)"

section \<open>A parser that takes every byte\<close>

text \<open>The contract \<open>parser_reads\<close>, and a parser that asks for more has consumed what it was given.\<close>

definition eager_parser ::
  "('b, 'p, 'z) http_lib \<Rightarrow> (u8 list \<Rightarrow> 'p) \<Rightarrow> u8 list \<Rightarrow> u8 list \<Rightarrow> bool"
where
  "eager_parser hl st m stream \<longleftrightarrow> parser_reads hl st m stream \<and>
     (\<forall>k < length m. \<forall>t \<ge> k. t \<le> length stream \<longrightarrow>
        (\<forall>n p. ps_put hl (drop k (take t stream)) (st (take k stream)) = (n, Need_More, p) \<longrightarrow> k + n = t))"

text \<open>\<open>put\<close> on the part that has arrived.\<close>

lemma eager_put:
  assumes "eager_parser hl st m stream" "k < length m" "k \<le> t" "t \<le> length stream"
  obtains n ec where "ps_put hl (drop k (take t stream)) (st (take k stream)) = (n, ec, st (take (k + n) stream))"
    "k + n \<le> t" "k + n \<le> length m" "ec = No_Error \<and> (k < t \<longrightarrow> 0 < n) \<or> ec = Need_More \<and> t < length m \<and> k + n = t"
proof -
  have "parser_reads hl st m stream" using assms(1) by (simp add: eager_parser_def)
  then obtain n ec where put: "ps_put hl (drop k (take t stream)) (st (take k stream)) = (n, ec, st (take (k + n) stream))"
    "k + n \<le> t" "k + n \<le> length m" "ec = No_Error \<and> (k < t \<longrightarrow> 0 < n) \<or> ec = Need_More \<and> t < length m"
    using assms(2-4) unfolding parser_reads_def by blast
  moreover have "ec = Need_More \<Longrightarrow> k + n = t"
    using assms put(1) unfolding eager_parser_def by blast
  ultimately show thesis using that by blast
qed

lemma reads_done:
  assumes "parser_reads hl st m stream" "k \<le> length m"
  shows "ps_done hl (st (take k stream)) \<longleftrightarrow> k = length m"
proof -
  have "take (length m) stream = m" using assms(1) by (auto simp: parser_reads_def prefix_def)
  moreover have "ps_done hl (st m)" "k < length m \<Longrightarrow> \<not> ps_done hl (st (take k stream))"
    using assms(1) by (auto simp: parser_reads_def)
  ultimately show ?thesis using assms(2) by (cases "k = length m") auto
qed

lemma client_parse_loop_reads:
  assumes laws: "buffer_laws hl" "eager_parser hl st m stream"
    and "fb_data hl b = drop k (take t stream)" "t \<le> length stream" "k \<le> t" "k \<le> length m"
    and "ec = No_Error \<or> ec = Need_More"
  shows "\<exists>ec' b'. client_parse_loop hl ec (st (take k stream)) b = Some (ec', st (take (min t (length m)) stream), b') \<and>
    ec' \<in> {No_Error, Need_More} \<and> fb_data hl b' = drop (min t (length m)) (take t stream)"
  using assms(3-7)
proof (induction "t - k" arbitrary: k b ec rule: less_induct)
  case less
  have r: "parser_reads hl st m stream" using laws(2) by (simp add: eager_parser_def)
  have e: "fb_data hl b = [] \<longleftrightarrow> k = t" using less.prems(1-3) by auto
  show ?case
  proof (cases "k < length m \<and> k < t")
    case True
    then obtain n ec' where put: "ps_put hl (drop k (take t stream)) (st (take k stream)) = (n, ec', st (take (k + n) stream))"
      "k + n \<le> t" "k + n \<le> length m" "ec' = No_Error \<and> 0 < n \<or> ec' = Need_More \<and> k + n = t"
      using eager_put [OF laws(2), of k t] less.prems(2,3) by blast
    have "client_parse_loop hl ec (st (take k stream)) b =
        client_parse_loop hl ec' (st (take (k + n) stream)) (fb_consume hl n b)"
      using less.prems e put(1) True reads_done [OF r less.prems(4)] by (subst client_parse_loop.simps) auto
    moreover have "fb_data hl (fb_consume hl n b) = drop (k + n) (take t stream)"
      by (simp add: buffer_simps [OF laws(1)] less.prems(1) add.commute)
    moreover have "t - (k + n) < t - k" using put(4) True by auto
    ultimately show ?thesis
      using less.hyps [of "k + n" "fb_consume hl n b" ec'] less.prems(2) put(2-4) by auto
  next
    case False
    then have k: "k = min t (length m)" using less.prems(3,4) by linarith
    have "client_parse_loop hl ec (st (take k stream)) b = Some (ec, st (take k stream), b)"
      using False e reads_done [OF r less.prems(4)] less.prems(3,4) by (subst client_parse_loop.simps) auto
    then show ?thesis using less.prems(1,5) k by auto
  qed
qed

lemma client_try_parse_reads:
  assumes laws: "buffer_laws hl" "eager_parser hl st m stream"
    and "hc_parser s = Some (st (take k stream))" "fb_data hl (hc_buffer s) = drop k (take t stream)"
    and "k < length m" "k \<le> t" "t \<le> length stream"
  shows "\<exists>b. client_try_parse hl s =
      Some (Inr (length m \<le> t, s\<lparr>hc_parser := Some (st (take (min t (length m)) stream)), hc_buffer := b\<rparr>)) \<and>
    fb_data hl b = drop (min t (length m)) (take t stream)"
proof -
  have r: "parser_reads hl st m stream" using laws(2) by (simp add: eager_parser_def)
  obtain n ec where put: "ps_put hl (drop k (take t stream)) (st (take k stream)) = (n, ec, st (take (k + n) stream))"
    "k + n \<le> t" "k + n \<le> length m" "ec = No_Error \<or> ec = Need_More"
    using eager_put [OF laws(2) assms(5-7)] by metis
  have "fb_data hl (fb_consume hl n (hc_buffer s)) = drop (k + n) (take t stream)"
    by (simp add: buffer_simps [OF laws(1)] assms(4) add.commute)
  from client_parse_loop_reads [OF laws this assms(7) put(2-4)] obtain ec' b' where
    loop: "client_parse_loop hl ec (st (take (k + n) stream)) (fb_consume hl n (hc_buffer s)) =
      Some (ec', st (take (min t (length m)) stream), b')" "ec' \<in> {No_Error, Need_More}"
      "fb_data hl b' = drop (min t (length m)) (take t stream)" by blast
  have "min t (length m) \<le> length m" by simp
  from reads_done [OF r this] have "ps_done hl (st (take (min t (length m)) stream)) = (length m \<le> t)" by auto
  then show ?thesis using put(1) loop assms(3,4) by (auto simp: client_try_parse_def)
qed

section \<open>Reading a response\<close>



text \<open>A read is armed and the parser has consumed all that has arrived.\<close>

definition client_waiting ::
  "('b, 'p, 'z) http_lib \<Rightarrow> (u8 list \<Rightarrow> 'p) \<Rightarrow> u8 list \<Rightarrow> nat \<Rightarrow> ('b, 'p) http_client \<Rightarrow> bool"
where
  "client_waiting hl st stream t s \<longleftrightarrow> hc_read_op s \<and> hc_parser s = Some (st (take t stream)) \<and>
     (\<exists>b. hc_buffer s = snd (fb_prepare hl 4096 b) \<and> fb_data hl b = [])"

lemma client_arm_read_calls:
  "\<exists>buf. hc_calls (client_arm_read hl ids s) = hc_calls s @ [Sock_Read (hc_tls s) buf 4096 False]"
  "hc_buffer (client_arm_read hl ids s) = snd (fb_prepare hl 4096 (hc_buffer s))"
  "hc_parser (client_arm_read hl ids s) = hc_parser s" "hc_read_op (client_arm_read hl ids s) = hc_read_op s"
  "hc_tls (client_arm_read hl ids s) = hc_tls s"
  by (simp_all add: client_arm_read_def call_dependent_def split_beta Let_def)

text \<open>What \<^verbatim>\<open>handle_read\<close> does when the buffer holds the next part of the stream.\<close>

lemma client_handle_read_part:
  assumes laws: "buffer_laws hl" "eager_parser hl st m stream"
    and "hc_read_op s" "hc_parser s = Some (st (take k stream))" "k < length m" "k \<le> t" "t \<le> length stream"
    and "fb_data hl (if r > 0 then fb_commit hl (nat r) (hc_buffer s) else hc_buffer s) = drop k (take t stream)"
  shows "\<exists>s'. client_handle_read hl ids r s = Some (Inr s') \<and> hc_tls s' = hc_tls s \<and>
    (if length m \<le> t
     then hc_calls s' = hc_calls s @ [Finalize_Current False 1] \<and> hc_parser s' = Some (st m) \<and>
       fb_data hl (hc_buffer s') = drop (length m) (take t stream)
     else (\<exists>buf. hc_calls s' = hc_calls s @ [Sock_Read (hc_tls s) buf 4096 False]) \<and> client_waiting hl st stream t s')"
proof -
  let ?s = "if r > 0 then s\<lparr>hc_buffer := fb_commit hl (nat r) (hc_buffer s)\<rparr> else s"
  have m: "take (length m) stream = m" using laws(2) by (auto simp: eager_parser_def parser_reads_def prefix_def)
  have same: "hc_calls ?s = hc_calls s" "hc_tls ?s = hc_tls s" by simp_all
  have "hc_parser ?s = Some (st (take k stream))" "fb_data hl (hc_buffer ?s) = drop k (take t stream)"
    using assms(4,8) by (simp_all split: if_splits)
  from client_try_parse_reads [OF laws this assms(5-7)] obtain b where
    tp: "client_try_parse hl ?s = Some (Inr (length m \<le> t, ?s\<lparr>hc_parser := Some (st (take (min t (length m)) stream)), hc_buffer := b\<rparr>))"
      "fb_data hl b = drop (min t (length m)) (take t stream)" by blast
  let ?s' = "?s\<lparr>hc_parser := Some (st (take (min t (length m)) stream)), hc_buffer := b\<rparr>"
  have hr: "client_handle_read hl ids r s =
      Some (Inr (if length m \<le> t then finalize False 1 ?s' else client_arm_read hl ids ?s'))"
    using tp(1) by (simp only: client_handle_read_def Let_def rbind_simps prod.case)
  show ?thesis
  proof (cases "length m \<le> t")
    case True
    then show ?thesis using hr tp(2) m by (simp add: finalize_def min_def)
  next
    case False
    then have "client_waiting hl st stream t (client_arm_read hl ids ?s')"
      using assms(3) tp(2) unfolding client_waiting_def client_arm_read_calls by (auto simp: min_def)
    then show ?thesis
      using False hr same client_arm_read_calls(1) [of hl ids ?s'] client_arm_read_calls(5) [of hl ids ?s'] by simp
  qed
qed


lemma client_read_http_part:
  assumes laws: "buffer_laws hl" "eager_parser hl st m stream" "0 < length m"
    and "fb_data hl (hc_buffer s) = take t stream" "t \<le> length stream"
  shows "\<exists>s'. client_read_http hl ids s = Some (Inr (mk_response ''Read HTTP'' OP_HINT_READ, s')) \<and> hc_tls s' = hc_tls s \<and>
    (if length m \<le> t
     then hc_calls s' = hc_calls s @ [Finalize_Current False 1] \<and> hc_parser s' = Some (st m) \<and>
       fb_data hl (hc_buffer s') = drop (length m) (take t stream)
     else (\<exists>buf. hc_calls s' = hc_calls s @ [Sock_Read (hc_tls s) buf 4096 False]) \<and> client_waiting hl st stream t s')"
proof -
  let ?s = "s\<lparr>hc_read_op := True, hc_parser := Some (ps_new hl)\<rparr>"
  have "st [] = ps_new hl" using laws(2) by (simp add: eager_parser_def parser_reads_def)
  then have "hc_read_op ?s" "hc_parser ?s = Some (st (take 0 stream))" "0 \<le> t"
    "fb_data hl (if (0 :: int) > 0 then fb_commit hl (nat 0) (hc_buffer ?s) else hc_buffer ?s) = drop 0 (take t stream)"
    using assms(4) by simp_all
  from client_handle_read_part [OF laws(1,2) this(1,2) laws(3) this(3) assms(5) this(4), of ids]
  show ?thesis by (auto simp: client_read_http_def)
qed


text \<open>
  A response that is already in the buffer is found at once: \<^verbatim>\<open>read_http\<close> itself finishes the task,
  without asking the socket for anything (the server's reader waits in this case).
\<close>

theorem leftover_response_at_once:
  assumes "buffer_laws hl" "eager_parser hl st m (fb_data hl (hc_buffer s))" "m \<noteq> []"
  shows "\<exists>s'. client_read_http hl ids s = Some (Inr (mk_response ''Read HTTP'' OP_HINT_READ, s')) \<and>
    hc_calls s' = hc_calls s @ [Finalize_Current False 1] \<and> hc_parser s' = Some (st m) \<and>
    fb_data hl (hc_buffer s') = drop (length m) (fb_data hl (hc_buffer s))"
proof -
  let ?L = "fb_data hl (hc_buffer s)"
  have "length m \<le> length ?L" using assms(2) by (auto simp: eager_parser_def parser_reads_def dest: prefix_length_le)
  then show ?thesis using client_read_http_part [OF assms(1,2), of s "length ?L" ids] assms(3) by auto
qed

section \<open>A parser that leaves an incomplete header\<close>

text \<open>When \<^verbatim>\<open>put\<close> takes nothing and asks for more, the loop tries the same bytes again.\<close>

lemma client_loop_spins:
  assumes "buffer_laws hl" "\<not> ps_done hl p" "d \<noteq> []" "ps_put hl d p = (0, Need_More, p)" "fb_data hl b = d"
  shows "client_parse_loop hl Need_More p b = None"
proof -
  have "ec = Need_More \<Longrightarrow> q = p \<Longrightarrow> fb_data hl b = d \<Longrightarrow> False"
    if "client_parse_loop hl ec q b = Some x" for ec q b x
    using that
  proof (induct hl' \<equiv> hl ec q b x rule: client_parse_loop.raw_induct [rotated, consumes 1])
    case (1 f ec q b x)
    have "f hl Need_More p (fb_consume hl 0 b) = Some x"
      using 1(2-5) assms(2-4) by simp
    then show False by (rule 1(1)) (simp_all add: buffer_simps [OF assms(1)] 1(5))
  qed
  then show ?thesis using assms(5) by (cases "client_parse_loop hl Need_More p b") blast+
qed

text \<open>
  C18: A piece of a response that ends inside the header stops the thread for ever.  When the parser leaves
  an incomplete header in the buffer and asks for more, as Boost.Beast's does, the client's
  \<^verbatim>\<open>on_new_data\<close> never returns; in the same situation the server's reader returns after asking for more
  bytes.
\<close>

theorem partial_header_spins:
  assumes "buffer_laws hl" "\<not> ps_done hl p" "d \<noteq> []" "ps_put hl d p = (0, Need_More, p)"
    and "hc_read_op s" "hc_parser s = Some p" "fb_data hl (fb_commit hl (nat r) (hc_buffer s)) = d" "0 < r"
    and "hi_read_op h" "hi_parser h = Some p" "hi_buffer h = hc_buffer s" "has_child (carrier h) ev"
  shows "client_on_new_data hl ids (ChildTaskCompletion c t cs r) s = None \<and>
    (\<exists>h' ev'. http_on_yield hl (ChildTaskCompletion c t cs r) (h, ev) = Some (Inr (None, h', ev')) \<and>
       length (function_q ev') = Suc (length (function_q ev)) \<and> fb_data hl (hi_buffer h') = d)"
proof
  let ?b = "fb_consume hl 0 (fb_commit hl (nat r) (hc_buffer s))"
  have d: "fb_data hl ?b = d" by (simp add: buffer_simps [OF assms(1)] assms(7))
  show "client_on_new_data hl ids (ChildTaskCompletion c t cs r) s = None"
    using assms(4-8) client_loop_spins [OF assms(1-4) d] by (simp add: client_handle_read_def client_try_parse_def)
  let ?h = "h\<lparr>hi_parser := Some p, hi_buffer := ?b\<rparr>"
  have "parse_loop hl Need_More p ?b = Some (Need_More, p, ?b)" by (subst parse_loop.simps) simp
  then have tp: "try_parse hl (h\<lparr>hi_buffer := fb_commit hl (nat r) (hi_buffer h)\<rparr>) = Some (Inr (False, ?h))"
    using assms(2,4,7,10,11) by (simp add: try_parse_def)
  have "has_child (carrier ?h) ev" using assms(12) by (simp add: carrier_def)
  from http_arm_read_child [OF this, of hl] obtain h' f where
    h': "http_arm_read hl (?h, ev) = Inr (h', snd (c_at (carrier ?h) (first_child (carrier ?h) ev) f ev))"
    "h' = ?h\<lparr>hi_buffer := snd (fb_prepare hl 4096 (hi_buffer ?h)), hi_reader := hi_reader h'\<rparr>" by blast
  have "fb_data hl (hi_buffer h') = d" by (subst h'(2)) (simp add: buffer_simps [OF assms(1)] assms(7))
  then show "\<exists>h' ev'. http_on_yield hl (ChildTaskCompletion c t cs r) (h, ev) = Some (Inr (None, h', ev')) \<and>
       length (function_q ev') = Suc (length (function_q ev)) \<and> fb_data hl (hi_buffer h') = d"
    using assms(8,9) tp h'(1) by (intro exI [of _ h'] exI [of _ "snd (c_at (carrier ?h) (first_child (carrier ?h) ev) f ev)"])
      (simp add: http_handle_read_def c_at_def Let_def)
qed

section \<open>Writing a request\<close>

text \<open>The write of everything in a buffer.\<close>

definition sock_write :: "('b, 'p, 'z) http_lib \<Rightarrow> bool \<Rightarrow> 'b \<Rightarrow> client_call" where
  "sock_write hl tls b = Sock_Write tls (fb_addr hl b) (word_of_nat (length (fb_data hl b)))"

fun client_sent ::
  "('b, 'p, 'z) http_lib \<Rightarrow> (nat \<Rightarrow> u64) \<Rightarrow> int list \<Rightarrow> ('b, 'p) http_client \<Rightarrow> ('b, 'p) http_client run"
where
  "client_sent hl ids [] s = Some (Inr s)"
| "client_sent hl ids (r # rs) s =
     rbind (client_on_new_data hl ids (ChildTaskCompletion 0 (hc_writer s) Finished r) s) (client_sent hl ids rs)"

lemma client_arm_write_simps:
  assumes "fb_data hl (hc_wbuffer s) \<noteq> []"
  shows "hc_calls (client_arm_write hl ids s) = hc_calls s @ [sock_write hl (hc_tls s) (hc_wbuffer s)]"
    "hc_wbuffer (client_arm_write hl ids s) = hc_wbuffer s" "hc_tls (client_arm_write hl ids s) = hc_tls s"
    "hc_read_op (client_arm_write hl ids s) = hc_read_op s"
  using assms by (simp_all add: client_arm_write_def call_dependent_def sock_write_def Let_def)

lemma client_sent_pieces:
  assumes "buffer_laws hl" "pieces (length (fb_data hl (hc_wbuffer s))) rs" "\<not> hc_read_op s"
  shows "\<exists>s' bufs. client_sent hl ids rs s = Some (Inr s') \<and> fb_data hl (hc_wbuffer s') = [] \<and>
    hc_calls s' = hc_calls s @ map (sock_write hl (hc_tls s)) bufs @ [Finalize_Current False 1] \<and>
    map (fb_data hl) (hc_wbuffer s # bufs) = remains (fb_data hl (hc_wbuffer s)) rs"
  using assms(2-)
proof (induction "length (fb_data hl (hc_wbuffer s))" rs arbitrary: s rule: pieces.induct)
  case (1 s)
  then show ?case by simp
next
  case (2 r s)
  then show ?case
    by (auto simp: client_handle_write_def finalize_def buffer_simps [OF assms(1)])
next
  case (3 r r' rs s)
  let ?s = "s\<lparr>hc_wbuffer := fb_consume hl (nat r) (hc_wbuffer s)\<rparr>" and ?s' = "client_arm_write hl ids (s\<lparr>hc_wbuffer := fb_consume hl (nat r) (hc_wbuffer s)\<rparr>)"
  have r: "0 < r" "r < int (length (fb_data hl (hc_wbuffer s)))"
    and p: "pieces (length (fb_data hl (hc_wbuffer ?s))) (r' # rs)"
    using 3 by (simp_all add: buffer_simps [OF assms(1)])
  have ne: "fb_data hl (hc_wbuffer ?s) \<noteq> []" using r by (simp add: buffer_simps [OF assms(1)] nat_less_iff)
  note w = client_arm_write_simps [OF ne, of ids]
  have len: "length (fb_data hl (hc_wbuffer s)) - nat r = length (fb_data hl (hc_wbuffer ?s'))"
    unfolding w by (simp add: buffer_simps [OF assms(1)])
  have "pieces (length (fb_data hl (hc_wbuffer ?s'))) (r' # rs)" "\<not> hc_read_op ?s'"
    unfolding w using p 3(3) by simp_all
  from 3(1) [OF len this] obtain s2 bufs where IH:
    "client_sent hl ids (r' # rs) ?s' = Some (Inr s2)" "fb_data hl (hc_wbuffer s2) = []"
    "hc_calls s2 = hc_calls ?s' @ map (sock_write hl (hc_tls ?s')) bufs @ [Finalize_Current False 1]"
    "map (fb_data hl) (hc_wbuffer ?s' # bufs) = remains (fb_data hl (hc_wbuffer ?s')) (r' # rs)" by blast
  have "client_on_new_data hl ids (ChildTaskCompletion 0 (hc_writer s) Finished r) s = Some (Inr ?s')"
    using r 3(3) ne by (simp add: client_handle_write_def Let_def)
  then have "client_sent hl ids (r # r' # rs) s = Some (Inr s2)"
    using IH(1) by (simp only: client_sent.simps(2) [of _ _ r] rbind_simps)
  moreover have "map (fb_data hl) (hc_wbuffer s # hc_wbuffer ?s # bufs) = remains (fb_data hl (hc_wbuffer s)) (r # r' # rs)"
    using IH(4) unfolding w by (simp add: buffer_simps [OF assms(1)])
  moreover have "hc_calls s2 = hc_calls s @ map (sock_write hl (hc_tls s)) (hc_wbuffer ?s # bufs) @ [Finalize_Current False 1]"
    using IH(3) unfolding w by simp
  ultimately show ?case using IH(2) by blast
qed

text \<open>
  \<^verbatim>\<open>write_http\<close> hands all of the serialized request to the socket; whatever lengths the socket
  reports, what is left is handed over again, until every byte was sent once and in order, and then
  the task is finished.
\<close>

theorem request_sent:
  assumes "buffer_laws hl" "sr_chunks hl (rq_new req) cs" "fb_data hl (hc_wbuffer s) = []" "pieces (length (concat cs)) rs"
  shows "\<exists>s1 s2 bufs. client_write_http hl rq_new ids req s = Some (Inr (mk_response ''HTTP Write'' OP_HINT_WRITE, s1)) \<and>
    client_sent hl ids rs s1 = Some (Inr s2) \<and> fb_data hl (hc_wbuffer s2) = [] \<and>
    hc_calls s2 = hc_calls s @ map (sock_write hl (hc_tls s)) bufs @ [Finalize_Current False 1] \<and>
    map (fb_data hl) bufs = remains (concat cs) rs"
proof -
  obtain b where b: "serialize_loop hl (rq_new req) (hc_wbuffer s) = Some b" "fb_data hl b = concat cs"
    using serialize_loop_chunks [OF assms(1,2), of "hc_wbuffer s"] assms(3) by auto
  let ?s = "s\<lparr>hc_read_op := False, hc_wbuffer := b\<rparr>"
  have ne: "fb_data hl (hc_wbuffer ?s) \<noteq> []" using b(2) pieces_pos [OF assms(4)] by auto
  note w = client_arm_write_simps [OF ne, of ids]
  have "pieces (length (fb_data hl (hc_wbuffer (client_arm_write hl ids ?s)))) rs" "\<not> hc_read_op (client_arm_write hl ids ?s)"
    unfolding w using assms(4) b(2) by simp_all
  from client_sent_pieces [OF assms(1) this, of ids] obtain s2 bufs where
    "client_sent hl ids rs (client_arm_write hl ids ?s) = Some (Inr s2)" "fb_data hl (hc_wbuffer s2) = []"
    "hc_calls s2 = hc_calls s @ map (sock_write hl (hc_tls s)) (b # bufs) @ [Finalize_Current False 1]"
    "map (fb_data hl) (b # bufs) = remains (concat cs) rs"
    unfolding w by (auto simp: b(2))
  moreover have "client_write_http hl rq_new ids req s =
      Some (Inr (mk_response ''HTTP Write'' OP_HINT_WRITE, client_arm_write hl ids ?s))"
    using b(1) by (simp add: client_write_http_def)
  ultimately show ?thesis by blast
qed

section \<open>Instances\<close>

definition demo_client :: "(u8 list \<times> u8 list, u8 list) http_client" where
  "demo_client = client_new line_http [5] False"

lemma demo_client_simps:
  "fb_data line_http (hc_buffer demo_client) = []" "fb_data line_http (hc_wbuffer demo_client) = []"
  "hc_calls demo_client = [Init_Socket False [5]]" "hc_tls demo_client = False"
  by (simp_all add: demo_client_def client_new_def line_http_def)

lemma line_eager: "eager_parser line_http id [71, 10] [71, 10, 72]" "eager_parser line_http id [71, 10] [71, 10]"
proof -
  have k: "k = 0 \<or> k = 1" if "k < length [71, 10 :: u8]" for k using that by auto
  have t: "t = 0 \<or> t = 1 \<or> t = 2 \<or> t = 3" if "t \<le> length [71, 10, 72 :: u8]" for t using that by auto
  have t': "t = 0 \<or> t = 1 \<or> t = 2" if "t \<le> length [71, 10 :: u8]" for t using that by auto
  show "eager_parser line_http id [71, 10] [71, 10, 72]"
    unfolding eager_parser_def parser_reads_def using k t by (fastforce simp: line_http_def Let_def)
  show "eager_parser line_http id [71, 10] [71, 10]"
    unfolding eager_parser_def parser_reads_def using k t' by (fastforce simp: line_http_def Let_def)
qed


lemma leftover_response_at_once_witness:
  "\<exists>s'. client_read_http line_http of_nat (demo_client\<lparr>hc_buffer := ([71, 10, 72], [])\<rparr>) =
      Some (Inr (mk_response ''Read HTTP'' OP_HINT_READ, s')) \<and>
    hc_calls s' = [Init_Socket False [5], Finalize_Current False 1] \<and> fb_data line_http (hc_buffer s') = [72]"
proof -
  let ?s = "demo_client\<lparr>hc_buffer := ([71, 10, 72], [])\<rparr>"
  have d: "fb_data line_http (hc_buffer ?s) = [71, 10, 72]" by (simp add: line_http_def)
  have "eager_parser line_http id [71, 10] (fb_data line_http (hc_buffer ?s))" unfolding d by (rule line_eager)
  from leftover_response_at_once [OF line_buffer_laws this, of of_nat] show ?thesis
    unfolding d by (auto simp: demo_client_simps)
qed

text \<open>The line parser, but it leaves an incomplete line in the buffer.\<close>

definition whole_lines :: "(u8 list \<times> u8 list, u8 list, u8 list) http_lib" where
  "whole_lines = line_http\<lparr>ps_put := (\<lambda>bs p. let k = index_where (\<lambda>b. b = 10) bs in
     if k < length bs then (k + 1, No_Error, p @ take (k + 1) bs) else (0, Need_More, p))\<rparr>"

lemma partial_header_spins_witness:
  "client_on_new_data whole_lines of_nat (ChildTaskCompletion 0 0 Finished 2)
     (demo_client\<lparr>hc_read_op := True, hc_parser := Some [], hc_buffer := ([], [72, 84])\<rparr>) = None"
proof -
  let ?s = "demo_client\<lparr>hc_read_op := True, hc_parser := Some [], hc_buffer := ([], [72, 84])\<rparr>"
  let ?h = "(fst (http_new whole_lines [5] False (new_event empty_uring_data)))\<lparr>hi_read_op := True, hi_parser := Some [],
    hi_buffer := ([], [72, 84])\<rparr>"
  have "buffer_laws whole_lines" using line_buffer_laws by (simp add: whole_lines_def buffer_laws_def line_http_def)
  moreover have "\<not> ps_done whole_lines []" "ps_put whole_lines [72, 84] [] = (0, Need_More, [])"
    "fb_data whole_lines (fb_commit whole_lines (nat 2) (hc_buffer ?s)) = [72, 84]" "hi_buffer ?h = hc_buffer ?s"
    by (simp_all add: whole_lines_def line_http_def Let_def)
  moreover have "has_child (carrier ?h) (snd (http_new whole_lines [5] False (new_event empty_uring_data)))"
    by (simp add: carrier_def http_new_def)
  ultimately show ?thesis
    using partial_header_spins [of whole_lines "[]" "[72, 84]" ?s 2 ?h] by simp
qed

lemma request_sent_witness:
  "\<exists>s1 s2. client_write_http line_http (\<lambda>q. map (of_nat \<circ> of_char) (req_body q)) of_nat
      \<lparr>req_method = Get, req_target = ''/'', req_version = 11, req_fields = [], req_body = ''hello''\<rparr> demo_client =
        Some (Inr (mk_response ''HTTP Write'' OP_HINT_WRITE, s1)) \<and>
    client_sent line_http of_nat [2, 3] s1 = Some (Inr s2) \<and>
    hc_calls s2 = [Init_Socket False [5], Sock_Write False 8192 5, Sock_Write False 8192 3, Finalize_Current False 1]"
proof -
  let ?q = "\<lparr>req_method = Get, req_target = ''/'', req_version = 11, req_fields = [], req_body = ''hello''\<rparr>"
  let ?new = "\<lambda>q. map (of_nat \<circ> of_char) (req_body q) :: u8 list"
  have "sr_chunks line_http (?new ?q) [[104, 101], [108, 108], [111]]" by (simp add: line_http_def of_char_def)
  moreover have "pieces (length (concat [[104, 101], [108, 108], [111 :: u8]])) [2, 3]" by simp
  ultimately obtain s1 s2 bufs where
    w: "client_write_http line_http ?new of_nat ?q demo_client = Some (Inr (mk_response ''HTTP Write'' OP_HINT_WRITE, s1))"
      "client_sent line_http of_nat [2, 3] s1 = Some (Inr s2)"
      "hc_calls s2 = hc_calls demo_client @ map (sock_write line_http (hc_tls demo_client)) bufs @ [Finalize_Current False 1]"
      "map (fb_data line_http) bufs = remains (concat [[104, 101], [108, 108], [111]]) [2, 3]"
    using request_sent [OF line_buffer_laws _ demo_client_simps(2), where rq_new = ?new and req = ?q and ids = of_nat] by blast
  have "map (sock_write line_http False) bufs = map (\<lambda>d. Sock_Write False 8192 (word_of_nat (length d))) (map (fb_data line_http) bufs)"
    by (simp add: sock_write_def line_http_def)
  then have "map (sock_write line_http False) bufs = [Sock_Write False 8192 5, Sock_Write False 8192 3]"
    unfolding w(4) by simp
  then show ?thesis using w(1-3) by (auto simp: demo_client_simps)
qed

end
