(* ===== verification/Sched_Types.thy ===== *)
theory Sched_Types
  imports Sched_Flow
begin

text \<open>
  Typing of the scheduler's state.  The compiler checks the classes only up to \<^verbatim>\<open>shared_ptr<Event>\<close>:
  \<^verbatim>\<open>Event::c\<close>, \<^verbatim>\<open>initialize_root_event\<close> and \<^verbatim>\<open>direct_access\<close> cast the pointer they get to the class
  they expect (\<^verbatim>\<open>static_pointer_cast\<close>), and what makes the cast right is the bookkeeping of the slots
  and object ids at run time.  This theory states that bookkeeping as a typing of object ids by
  classes, and shows that every handler of the scheduler preserves it when the bodies of the
  classes respect a small contract, the locale \<open>class_bodies\<close>.
\<close>

section \<open>Typing\<close>

text \<open>The class a constructor makes, the class a member function belongs to, the class of an object.\<close>

record ('t, 'k, 'f, 'o) signature =
  sg_ctor :: "'k \<Rightarrow> 't"
  sg_call :: "'f \<Rightarrow> 't"
  sg_obj :: "'o \<Rightarrow> 't option"

text \<open>A slot of class \<open>ty\<close> names objects of that class only; \<open>G\<close> is the class of every id issued.\<close>

definition info_ok :: "(u64 \<rightharpoonup> 't) \<Rightarrow> 't \<Rightarrow> event_info option \<Rightarrow> bool" where
  "info_ok G ty e \<longleftrightarrow> (\<forall>info. e = Some info \<longrightarrow>
     (\<forall>l. ev_locator info = Some l \<longrightarrow> G (object_id l) = Some ty) \<and>
     (\<forall>i. ev_event info = Some i \<longrightarrow> G i = Some ty))"

definition slots_ok :: "(u64 \<rightharpoonup> 't) \<Rightarrow> 't io_uring_data \<Rightarrow> bool" where
  "slots_ok G ud \<longleftrightarrow> (\<forall>ty v. sub_events ud ty = Some v \<longrightarrow> (\<forall>e \<in> set v. info_ok G ty e))"

definition queues_ok :: "('t, 'k, 'f, 'o) signature \<Rightarrow> ('t, 'k, 'f) event \<Rightarrow> bool" where
  "queues_ok sg ev \<longleftrightarrow> (\<forall>c \<in> set (construct_q ev). sg_ctor sg (qc_fun c) = qc_idx c) \<and>
     (\<forall>f \<in> set (function_q ev). sg_call sg (qf_fun f) = qf_idx f)"

text \<open>What a body may do with its event: keep both, and queue at most \<open>n\<close> constructions.\<close>

definition ev_ok :: "('t, 'k, 'f, 'o) signature \<Rightarrow> nat \<Rightarrow> ('t, 'k, 'f) event \<Rightarrow> ('t, 'k, 'f) event \<Rightarrow> bool" where
  "ev_ok sg n ev ev' \<longleftrightarrow> (queues_ok sg ev \<longrightarrow> queues_ok sg ev') \<and>
     (\<forall>G. slots_ok G (uring_data ev) \<longrightarrow> slots_ok G (uring_data ev')) \<and>
     length (construct_q ev') \<le> length (construct_q ev) + n"

text \<open>What it may do with the objects: change their members, not their classes.\<close>

definition same_classes :: "('t, 'k, 'f, 'o) signature \<Rightarrow> (u64 \<rightharpoonup> 'o) \<Rightarrow> (u64 \<rightharpoonup> 'o) \<Rightarrow> bool" where
  "same_classes sg os os' \<longleftrightarrow> (\<forall>j. j \<noteq> no_id \<longrightarrow> map_option (sg_obj sg) (os' j) = map_option (sg_obj sg) (os j))"

lemma same_classes_refl [simp]: "same_classes sg os os"
  by (simp add: same_classes_def)

lemma same_classes_trans: "same_classes sg a b \<Longrightarrow> same_classes sg b c \<Longrightarrow> same_classes sg a c"
  by (simp add: same_classes_def)

lemma same_classes_upd:
  "os i = Some o' \<Longrightarrow> sg_obj sg o'' = sg_obj sg o' \<Longrightarrow> same_classes sg os (os(i \<mapsto> o''))"
  by (simp add: same_classes_def)

lemma same_classes_global: "same_classes sg os (os(no_id \<mapsto> x))"
  by (simp add: same_classes_def)

named_theorems ev_ok_intros

lemma ev_ok_refl [ev_ok_intros]: "ev_ok sg n ev ev"
  by (simp add: ev_ok_def)

lemma ev_ok_trans: "ev_ok sg m a b \<Longrightarrow> ev_ok sg n b c \<Longrightarrow> m + n \<le> k \<Longrightarrow> ev_ok sg k a c"
  by (fastforce simp: ev_ok_def)

lemma ev_ok_0_trans: "ev_ok sg 0 a b \<Longrightarrow> ev_ok sg n b c \<Longrightarrow> ev_ok sg n a c"
  by (erule (1) ev_ok_trans) simp

lemma ev_ok_mono: "ev_ok sg m a b \<Longrightarrow> m \<le> n \<Longrightarrow> ev_ok sg n a b"
  by (fastforce simp: ev_ok_def)

lemma info_ok_None [simp]: "info_ok G ty None"
  by (simp add: info_ok_def)

lemma slots_okD: "slots_ok G ud \<Longrightarrow> sub_events ud ty = Some v \<Longrightarrow> e \<in> set v \<Longrightarrow> info_ok G ty e"
  by (auto simp: slots_ok_def)

lemma slots_ok_slots: "slots_ok G (uring_data ev) \<Longrightarrow> e \<in> set (slots ty ev) \<Longrightarrow> info_ok G ty e"
  by (cases "sub_events (uring_data ev) ty") (auto simp: slots_def slots_ok_def)

lemma slots_ok_cong: "sub_events ud' = sub_events ud \<Longrightarrow> slots_ok G ud' = slots_ok G ud"
  by (simp add: slots_ok_def)

lemma slots_ok_set_slots:
  "slots_ok G (uring_data ev) \<Longrightarrow> \<forall>e \<in> set v. info_ok G ty e \<Longrightarrow> slots_ok G (uring_data (set_slots ty v ev))"
  by (simp add: slots_ok_def set_slots_def)

lemma map_le_SomeD: "G \<subseteq>\<^sub>m G' \<Longrightarrow> G i = Some x \<Longrightarrow> G' i = Some x"
  unfolding map_le_def by force

lemma info_ok_mono: "info_ok G ty e \<Longrightarrow> G \<subseteq>\<^sub>m G' \<Longrightarrow> info_ok G' ty e"
  unfolding info_ok_def by (blast dest: map_le_SomeD)

lemma slots_ok_mono: "slots_ok G ud \<Longrightarrow> G \<subseteq>\<^sub>m G' \<Longrightarrow> slots_ok G' ud"
  unfolding slots_ok_def by (intro allI impI ballI) (rule info_ok_mono; simp)

lemma ev_ok_same:
  "sub_events (uring_data ev') = sub_events (uring_data ev) \<Longrightarrow> construct_q ev' = construct_q ev \<Longrightarrow>
     function_q ev' = function_q ev \<Longrightarrow> ev_ok sg n ev ev'"
  by (simp add: ev_ok_def queues_ok_def slots_ok_def)

lemma ev_ok_attach [ev_ok_intros]: "ev_ok sg n ev (attach i ev)"
  by (rule ev_ok_same) (simp_all add: attach_def)

lemma ev_ok_timer [ev_ok_intros]: "timer ts ev = (i, ev') \<Longrightarrow> ev_ok sg n ev ev'"
  by (rule ev_ok_same) (auto simp: timer_def Let_def)

lemma ev_ok_cancel_timer [ev_ok_intros]: "ev_ok sg n ev (cancel_timer i ev)"
  by (rule ev_ok_same) (simp_all add: cancel_timer_def)

lemma ev_ok_uring [ev_ok_intros]: "ev_ok sg n ev (c_uring o' p ev)"
  by (rule ev_ok_same) (simp_all add: c_uring_def)

lemma ev_ok_c_at: "c_at ty k f ev = (i, ev') \<Longrightarrow> sg_call sg f = ty \<Longrightarrow> ev_ok sg n ev ev'"
  by (auto simp: ev_ok_def c_at_def Let_def queues_ok_def slots_ok_def)

lemma ev_ok_c_first: "c_first ty f ev = Inr (i, ev') \<Longrightarrow> sg_call sg f = ty \<Longrightarrow> ev_ok sg n ev ev'"
  by (auto simp: c_first_def Let_def split: option.splits if_splits intro: ev_ok_c_at)

lemma ev_ok_construct:
  assumes "construct_ev ty sh k ev = (i, ev')" "sg_ctor sg k = ty" "0 < n"
  shows "ev_ok sg n ev ev'"
proof -
  let ?fresh = "Some \<lparr>ev_locator = None, ev_event = None\<rparr>" and ?v = "slots ty ev"
  let ?loc = "index_where (\<lambda>e. e = None) ?v"
  let ?v' = "if ?loc = length ?v then ?v @ [?fresh] else ?v[?loc := ?fresh]"
  have ev': "uring_data ev' = uring_data (set_slots ty ?v' ev)" "function_q ev' = function_q ev"
    "construct_q ev' = construct_q ev @ [\<lparr>qc_idx = ty, qc_vidx = ?loc, qc_fun = k, qc_shared = sh\<rparr>]"
    using assms(1) by (auto simp: construct_ev_def Let_def set_slots_def)
  have "slots_ok G (uring_data ev')" if "slots_ok G (uring_data ev)" for G
  proof -
    have "info_ok G ty ?fresh" by (simp add: info_ok_def)
    moreover have "set ?v' \<subseteq> insert ?fresh (set ?v)" by (auto dest: subsetD [OF set_update_subset_insert])
    ultimately show ?thesis
      unfolding ev' using slots_ok_set_slots [OF that] slots_ok_slots [OF that] by blast
  qed
  then show ?thesis using ev'(2,3) assms(2,3) by (auto simp: ev_ok_def queues_ok_def)
qed

lemma ev_ok_delete_child: "delete_child ty idx ev = Inr ev' \<Longrightarrow> ev_ok sg n ev ev'"
proof -
  assume d: "delete_child ty idx ev = Inr ev'"
  then obtain v ev1 where v: "sub_events (uring_data ev) ty = Some v" "ev' = set_slots ty (v[idx := None]) ev1"
    "uring_data ev1 = uring_data ev" "construct_q ev1 = construct_q ev" "function_q ev1 = function_q ev"
    by (auto simp: delete_child_def split: option.splits if_splits)
  have "slots_ok G (uring_data ev')" if "slots_ok G (uring_data ev)" for G
    unfolding v(2) using that v(1,3) set_update_subset_insert [of v idx None]
    by (intro slots_ok_set_slots) (auto dest: slots_okD subsetD)
  moreover have "queues_ok sg ev' = queues_ok sg ev" "construct_q ev' = construct_q ev"
    using v by (simp_all add: queues_ok_def set_slots_def)
  ultimately show ?thesis by (simp add: ev_ok_def)
qed


section \<open>Typed worlds\<close>

fun closure_ok :: "('t, 'k, 'f, 'o) signature \<Rightarrow> ('t, 'k) construct_func \<Rightarrow> bool" where
  "closure_ok sg (Root_Ctor k) = True"
| "closure_ok sg (Child_Ctor k p ty i) = (sg_ctor sg k = ty)"

fun msg_ok :: "('t, 'k, 'f, 'o) signature \<Rightarrow> (u64 \<rightharpoonup> 't) \<Rightarrow> ('t, 'k, 'f) message \<Rightarrow> bool" where
  "msg_ok sg G (Constructor_Call cf ci ti ctx) =
     (closure_ok sg cf \<and> G (ti_obj ti) = Some (sg_ctor sg (ctor_closure cf)))"
| "msg_ok sg G (Function_Call f ci ti) = (G (ti_obj ti) = Some (sg_call sg f))"
| "msg_ok sg G (Root_Start cf f ti) =
     (closure_ok sg cf \<and> G (ti_obj ti) = Some (sg_ctor sg (ctor_closure cf)) \<and>
      sg_call sg f = sg_ctor sg (ctor_closure cf))"
| "msg_ok sg G (Delete_Msg ci ti) = True"
| "msg_ok sg G (Data_Msg ci ti d) = True"
| "msg_ok sg G (Cqe_Ready i r) = True"

text \<open>\<open>b i\<close> bounds the constructions that object \<open>i\<close> has queued; between messages it is 0.\<close>

definition memory_ok ::
  "('t, 'k, 'f, 'o) signature \<Rightarrow> (u64 \<rightharpoonup> 't) \<Rightarrow> (u64 \<Rightarrow> nat) \<Rightarrow> (u64 \<rightharpoonup> ('t, 'k, 'f) event \<times> nat) \<Rightarrow>
    (nat \<rightharpoonup> 't io_uring_data) \<Rightarrow> bool"
where
  "memory_ok sg G b em cx \<longleftrightarrow> (\<forall>c ud. cx c = Some ud \<longrightarrow> slots_ok G ud) \<and>
     (\<forall>i ev c. em i = Some (ev, c) \<longrightarrow> queues_ok sg ev \<and> length (construct_q ev) \<le> b i \<and> cx c \<noteq> None)"

definition payloads_ok :: "('t, 'k, 'f, 'o) signature \<Rightarrow> (u64 \<rightharpoonup> 't) \<Rightarrow> (u64 \<rightharpoonup> 'o) \<Rightarrow> bool" where
  "payloads_ok sg G os \<longleftrightarrow> (\<forall>i o'. os i = Some o' \<longrightarrow> i \<noteq> no_id \<longrightarrow> G i \<noteq> None \<and> sg_obj sg o' = G i)"

lemma payloads_okD:
  "payloads_ok sg G os \<Longrightarrow> G no_id = None \<Longrightarrow> os i = Some x \<Longrightarrow> G i = Some ty \<Longrightarrow> sg_obj sg x = Some ty"
  by (cases "i = no_id") (simp_all add: payloads_ok_def)

definition pointers_ok :: "(u64 \<rightharpoonup> 't) \<Rightarrow> ('t, 'k, 'f, 'o) world \<Rightarrow> bool" where
  "pointers_ok G w \<longleftrightarrow> (\<forall>i j. obj_ptr i w = Some j \<longrightarrow>
     j = i \<and> ev_mem w i \<noteq> None \<and> payloads w i \<noteq> None \<and> G i \<noteq> None)"

definition world_ok ::
  "('t, 'k, 'f, 'o) signature \<Rightarrow> (u64 \<rightharpoonup> 't) \<Rightarrow> (u64 \<Rightarrow> nat) \<Rightarrow> ('t, 'k, 'f, 'o) world \<Rightarrow> bool"
where
  "world_ok sg G b w \<longleftrightarrow> memory_ok sg G b (ev_mem w) (ctxs w) \<and> payloads_ok sg G (payloads w) \<and>
     pointers_ok G w \<and> nat (self_thread w) < length (queues w) \<and>
     (\<forall>q \<in> set (queues w). \<forall>m \<in> set q. msg_ok sg G m)"

text \<open>Ids come from the pools of \<open>Ids\<close>: the running thread and the root handler, whose cursors are
  \<open>rids\<close>; \<open>N\<close> ids are left at least.\<close>

definition typed ::
  "('t, 'k, 'f, 'o) signature \<Rightarrow> thread_ids \<Rightarrow> (u64 \<rightharpoonup> 't) \<Rightarrow> (u64 \<Rightarrow> nat) \<Rightarrow> nat \<Rightarrow> ('t, 'k, 'f, 'o) world \<Rightarrow> bool"
where
  "typed sg rids G b N w \<longleftrightarrow> world_ok sg G b w \<and> pool_inv (obj_pool rids (dom G) w) \<and>
     N \<le> pool_room (obj_pool rids (dom G) w)"

text \<open>The parts of the state the typing depends on.\<close>

definition core where
  "core w = (ctxs w, ev_mem w, payloads w, (\<lambda>i. obj_ptr i w), queues w, self_thread w,
             obj_cur (tids w), obj_block (blocks w))"

lemma typed_core: "core w' = core w \<Longrightarrow> typed sg rids G b N w' = typed sg rids G b N w"
proof -
  assume eq: "core w' = core w"
  then have "obj_ptr i w' = obj_ptr i w" for i by (auto simp: core_def dest: fun_cong)
  moreover have "ctxs w' = ctxs w" "ev_mem w' = ev_mem w" "payloads w' = payloads w" "queues w' = queues w"
    "self_thread w' = self_thread w" "obj_cur (tids w') = obj_cur (tids w)" "obj_block (blocks w') = obj_block (blocks w)"
    using eq by (simp_all add: core_def)
  ultimately show ?thesis by (simp add: typed_def world_ok_def pointers_ok_def obj_pool_def)
qed

lemma typed_less: "typed sg rids G b N w \<Longrightarrow> N' \<le> N \<Longrightarrow> typed sg rids G b N' w"
  by (simp add: typed_def)

lemma typed_bound: "typed sg rids G b N w \<Longrightarrow> (\<And>i. b i \<le> b' i) \<Longrightarrow> typed sg rids G b' N w"
  by (fastforce simp: typed_def world_ok_def memory_ok_def intro: le_trans)

lemma msg_ok_mono: "msg_ok sg G m \<Longrightarrow> G \<subseteq>\<^sub>m G' \<Longrightarrow> msg_ok sg G' m"
  by (cases m) (auto dest: map_le_SomeD)

lemma core_upd [simp]:
  "core (upd_call p h w) = core w"
  "core (touch_obj i w) = core w"
  "core (snd (draw_proc w)) = core w"
  "core (snd (draw_tim w)) = core w"
  "core (snd (new_attached d w)) = core w"
  "core (put_sqe x a w) = core w"
  "core (w\<lparr>timers := tm\<rparr>) = core w"
  "core (w\<lparr>attached := at'\<rparr>) = core w"
  "core (w\<lparr>also_notify := an\<rparr>) = core w"
  "core (w\<lparr>proc_to_dat := pd\<rparr>) = core w"
  "core (submit w) = core w"
  "core (w\<lparr>next_ctx := n\<rparr>) = core w"
  by (simp_all add: core_def upd_call_def draw_proc_def draw_tim_def get_proc_id_def get_tim_id_def new_attached_def
      put_sqe_def submit_def obj_ptr_def touch_obj_def map_touch_def map_at_def fun_eq_iff
      split: prod.split option.split)

lemma core_upd_obj [simp]: "(\<And>d. od_ptr (g d) = od_ptr d) \<Longrightarrow> core (upd_obj i g w) = core w"
  by (simp add: core_def upd_obj_def obj_ptr_def map_at_def fun_eq_iff default_object_def split: option.split)

lemmas typed_upd [simp] = core_upd [THEN typed_core]

lemma typed_upd_obj [simp]:
  "(\<And>d. od_ptr (g d) = od_ptr d) \<Longrightarrow> typed sg rids G b N (upd_obj i g w) = typed sg rids G b N w"
  by (rule typed_core) simp

lemma typed_push:
  assumes "typed sg rids G b N w" "msg_ok sg G m" "push_msg t m w = Inr w'"
  shows "typed sg rids G b N w'"
proof -
  have w': "w' = w\<lparr>queues := upd_at (nat t) (\<lambda>q. q @ [m]) (queues w)\<rparr>" "nat t < length (queues w)"
    using assms(3) by (auto simp: push_msg_def split: if_splits)
  have "\<forall>q \<in> set (queues w'). \<forall>m' \<in> set q. msg_ok sg G m'"
    using assms(1,2) w' set_update_subset_insert [of "queues w" "nat t" "queues w ! nat t @ [m]"]
    by (fastforce simp: typed_def world_ok_def upd_at_def dest!: nth_mem)
  then show ?thesis
    using assms(1) w'(1) by (simp add: typed_def world_ok_def pointers_ok_def obj_pool_def obj_ptr_def)
qed

lemma typed_push_data:
  "typed sg rids G b N w \<Longrightarrow> push_msg t (Data_Msg ci ti d) w = Inr w' \<Longrightarrow> typed sg rids G b N w'"
  by (erule typed_push [rotated 2]) simp_all

lemma typed_push_fold:
  assumes "efold (\<lambda>x. push_msg (t x) (m x)) xs w = Inr w'" "typed sg rids G b N w" "\<And>x. msg_ok sg G (m x)"
  shows "typed sg rids G b N w'"
  using assms(1) by (rule efold_invariant [where I = "typed sg rids G b N"]) (use assms(2,3) typed_push in blast)+

text \<open>A new id gets its class.\<close>

lemma world_ok_extend:
  assumes "world_ok sg G b w" "G \<subseteq>\<^sub>m G'"
  shows "world_ok sg G' b w"
proof -
  note mono = map_le_SomeD [OF assms(2)]
  have "memory_ok sg G' b (ev_mem w) (ctxs w)"
    using assms(1) slots_ok_mono [OF _ assms(2)] by (auto simp: world_ok_def memory_ok_def)
  moreover have "payloads_ok sg G' (payloads w)"
    using assms(1) mono by (fastforce simp: world_ok_def payloads_ok_def)
  moreover have "pointers_ok G' w"
    using assms(1) mono by (fastforce simp: world_ok_def pointers_ok_def)
  moreover have "\<forall>q \<in> set (queues w). \<forall>m \<in> set q. msg_ok sg G' m"
    using assms(1) msg_ok_mono [OF _ assms(2)] by (auto simp: world_ok_def)
  ultimately show ?thesis using assms(1) by (simp add: world_ok_def)
qed

lemma typed_draw_obj:
  assumes "typed sg rids G b (Suc N) w" "draw_obj w = (i, w')"
  shows "G i = None" "i \<noteq> no_id" "typed sg rids (G(i \<mapsto> ty)) b N w'"
proof -
  let ?p = "obj_pool rids (dom G) w"
  have inv: "pool_inv ?p" "Suc N \<le> pool_room ?p" using assms(1) by (simp_all add: typed_def)
  have draw: "pool_draw 0 ?p = (i, obj_pool rids (insert i (dom G)) w')"
    using draw_obj_pool [of rids "dom G" w] assms(2) by simp
  have f: "i \<notin> dom G \<and> pool_inv (obj_pool rids (insert i (dom G)) w') \<and>
      pool_room ?p \<le> Suc (pool_room (obj_pool rids (insert i (dom G)) w'))"
    using pool_draw_fresh [OF inv(1) _ _ draw] inv(2) by (simp add: obj_pool_def)
  then show new: "G i = None" by blast
  have "no_id \<notin> history (obj_pool rids (insert i (dom G)) w')" using f by (intro pool.null_fresh) simp
  then show "i \<noteq> no_id" by (auto simp: obj_pool_def)
  obtain t bl where "w' = w\<lparr>tids := t, blocks := bl\<rparr>"
    using assms(2) by (auto simp: draw_obj_def split: prod.splits)
  then have "world_ok sg G b w'"
    using assms(1) by (simp add: typed_def world_ok_def pointers_ok_def obj_ptr_def)
  moreover have "G \<subseteq>\<^sub>m G(i \<mapsto> ty)" using new by (simp add: map_le_def dom_def)
  ultimately have "world_ok sg (G(i \<mapsto> ty)) b w'" by (rule world_ok_extend)
  then show "typed sg rids (G(i \<mapsto> ty)) b N w'" using f inv(2) by (simp add: typed_def)
qed


section \<open>Turning the queues into messages\<close>

definition ev_typed :: "('t, 'k, 'f, 'o) signature \<Rightarrow> (u64 \<rightharpoonup> 't) \<Rightarrow> ('t, 'k, 'f) event \<Rightarrow> bool" where
  "ev_typed sg G ev \<longleftrightarrow> queues_ok sg ev \<and> slots_ok G (uring_data ev)"

lemma ev_typed_global [simp]:
  "ev_typed sg G (global_to_local g l ev) = ev_typed sg G ev"
  "ev_typed sg G (global_to_local_tim g l ev) = ev_typed sg G ev"
  by (simp_all add: ev_typed_def queues_ok_def slots_ok_def global_to_local_def global_to_local_tim_def)

lemma get_evinfo_typed:
  assumes "get_evinfo ty i ev = Inr (Some e)" "ev_typed sg G ev"
  shows "i < length (slots ty ev)" "info_ok G ty (Some e)"
  using assms slots_ok_slots [of G ev "Some e" ty] by (auto simp: get_evinfo_def ev_typed_def in_set_conv_nth split: if_splits)

lemma ev_typed_mono: "ev_typed sg G ev \<Longrightarrow> G \<subseteq>\<^sub>m G' \<Longrightarrow> ev_typed sg G' ev"
  using slots_ok_mono by (auto simp: ev_typed_def)

lemma ev_typed_set_slot:
  assumes "ev_typed sg G ev" "info_ok G ty e"
  shows "ev_typed sg G (set_slots ty ((slots ty ev)[i := e]) ev)"
proof -
  have "\<forall>x \<in> set ((slots ty ev)[i := e]). info_ok G ty x"
    using assms slots_ok_slots [of G ev _ ty] set_update_subset_insert [of "slots ty ev" i e]
    by (auto simp: ev_typed_def)
  then have "slots_ok G (uring_data (set_slots ty ((slots ty ev)[i := e]) ev))"
    using assms(1) by (intro slots_ok_set_slots) (simp_all add: ev_typed_def)
  then show ?thesis using assms(1) by (simp add: ev_typed_def queues_ok_def set_slots_def)
qed

lemma construct_step_typed:
  assumes "typed sg rids G b (Suc N) w" "ev_typed sg G ev" "sg_ctor sg (qc_fun c) = qc_idx c"
    and "queued_construct_step ti (c, ctx) (ev, w) = Inr (ev', w')"
  shows "\<exists>G'. G \<subseteq>\<^sub>m G' \<and> typed sg rids G' b N w' \<and> ev_typed sg G' ev'"
proof -
  obtain info where info: "get_evinfo (qc_idx c) (qc_vidx c) ev = Inr info"
    using assms(4) by (auto simp: queued_construct_step_def ebind_Inr_iff)
  show ?thesis
  proof (cases info)
    case None
    then have "ev' = ev" "w' = w" using assms(4) info by (simp_all add: queued_construct_step_def)
    then show ?thesis using assms(1,2) typed_less [OF assms(1), of N] by (intro exI [of _ G]) simp
  next
    case (Some e)
    obtain t where t: "find_target_thread [] w = Inr t"
      using assms(4) info Some by (auto simp: queued_construct_step_def ebind_Inr_iff)
    obtain i w1 where d: "draw_obj w = (i, w1)" by fastforce
    let ?G = "G(i \<mapsto> qc_idx c)"
    let ?e = "Some (e\<lparr>ev_locator := Some \<lparr>object_id = i, thread_id = [t]\<rparr>\<rparr>)"
    let ?w2 = "upd_obj (ti_obj ti) (\<lambda>d. d\<lparr>children := AList.update i default_child (children d)\<rparr>) w1"
    let ?m = "Constructor_Call (Child_Ctor (qc_fun c) (ti_obj ti) (qc_idx c) (qc_vidx c))
                       \<lparr>ci_thread = t, ci_obj = ti_obj ti, ci_proc = ti_proc ti\<rparr>
                       \<lparr>ti_obj = i, ti_proc = no_id\<rparr> ctx"
    have r: "push_msg (self_thread w) ?m ?w2 = Inr w'"
      "ev' = set_slots (qc_idx c) ((slots (qc_idx c) ev)[qc_vidx c := ?e]) ev"
      using assms(4) info Some t d by (auto simp: queued_construct_step_def ebind_Inr_iff)
    note new = typed_draw_obj [OF assms(1) d]
    have sub: "G \<subseteq>\<^sub>m ?G" using new(1) by (simp add: map_le_def dom_def)
    have "typed sg rids ?G b N ?w2" using new(3) by simp
    then have "typed sg rids ?G b N w'" by (rule typed_push [OF _ _ r(1)]) (simp add: assms(3))
    moreover have "info_ok ?G (qc_idx c) ?e"
      using get_evinfo_typed [OF _ assms(2)] info Some info_ok_mono [OF _ sub] by (fastforce simp: info_ok_def)
    then have "ev_typed sg ?G ev'" unfolding r(2) by (rule ev_typed_set_slot [OF ev_typed_mono [OF assms(2) sub]])
    ultimately show ?thesis using sub by blast
  qed
qed

lemma construct_steps_typed:
  assumes "efold (queued_construct_step ti) cs (ev, w) = Inr (ev', w')"
    and "typed sg rids G b (length cs + N) w" "ev_typed sg G ev"
    and "\<forall>p \<in> set cs. sg_ctor sg (qc_fun (fst p)) = qc_idx (fst p)"
  shows "\<exists>G'. G \<subseteq>\<^sub>m G' \<and> typed sg rids G' b N w' \<and> ev_typed sg G' ev'"
  using assms
proof (induction cs arbitrary: ev w G)
  case Nil
  then show ?case by (intro exI [of _ G]) simp
next
  case (Cons p cs)
  obtain c ctx where p: "p = (c, ctx)" by fastforce
  obtain ev1 w1 where s: "queued_construct_step ti (c, ctx) (ev, w) = Inr (ev1, w1)"
    "efold (queued_construct_step ti) cs (ev1, w1) = Inr (ev', w')"
    using Cons.prems(1) p by (auto simp: ebind_Inr_iff)
  have "typed sg rids G b (Suc (length cs + N)) w" "sg_ctor sg (qc_fun c) = qc_idx c"
    using Cons.prems(2,4) p by simp_all
  from construct_step_typed [OF this(1) Cons.prems(3) this(2) s(1)] obtain G1 where
    G1: "G \<subseteq>\<^sub>m G1" "typed sg rids G1 b (length cs + N) w1" "ev_typed sg G1 ev1" by blast
  have "\<forall>p \<in> set cs. sg_ctor sg (qc_fun (fst p)) = qc_idx (fst p)" using Cons.prems(4) by simp
  from Cons.IH [OF s(2) G1(2,3) this] show ?case using map_le_trans [OF G1(1)] by blast
qed

lemma function_step_typed:
  assumes "typed sg rids G b N w" "ev_typed sg G ev" "sg_call sg (qf_fun f) = qf_idx f"
    and "queued_function_step ti f (ev, w) = Inr (ev', w')"
  shows "typed sg rids G b N w' \<and> ev_typed sg G ev'"
proof -
  obtain info where info: "get_evinfo (qf_idx f) (qf_vidx f) ev = Inr info"
    using assms(4) by (auto simp: queued_function_step_def ebind_Inr_iff)
  show ?thesis
  proof (cases info)
    case None
    then show ?thesis using assms(1,2,4) info by (simp add: queued_function_step_def)
  next
    case (Some e)
    obtain l t where l: "ev_locator e = Some l" "find_target_thread (thread_id l) w = Inr t"
      using assms(4) info Some by (auto simp: queued_function_step_def ebind_Inr_iff split: option.splits)
    obtain pid w1 where d: "draw_proc w = (pid, w1)" by fastforce
    let ?w2 = "upd_obj (ti_obj ti) (\<lambda>d. d\<lparr>children :=
                 AList.map_default (object_id l) \<lparr>ch_thread = self_thread w, ch_procs = [pid]\<rparr>
                   (\<lambda>ch. \<lparr>ch_thread = self_thread w, ch_procs = List.insert pid (ch_procs ch)\<rparr>) (children d)\<rparr>) w1"
    have r: "push_msg t (Function_Call (qf_fun f) \<lparr>ci_thread = self_thread w, ci_obj = ti_obj ti, ci_proc = ti_proc ti\<rparr>
          \<lparr>ti_obj = object_id l, ti_proc = pid\<rparr>) ?w2 = Inr w'" "ev' = global_to_local pid (qf_local_id f) ev"
      using assms(4) info Some l d by (auto simp: queued_function_step_def ebind_Inr_iff)
    have "typed sg rids G b N w1" using typed_upd(3) assms(1) d by (metis snd_conv)
    then have "typed sg rids G b N ?w2" by simp
    moreover have "G (object_id l) = Some (qf_idx f)"
      using get_evinfo_typed(2) [OF _ assms(2)] info Some l(1) by (fastforce simp: info_ok_def)
    ultimately have "typed sg rids G b N w'" using assms(3) by (intro typed_push [OF _ _ r(1)]) simp_all
    then show ?thesis using assms(2) r(2) by simp
  qed
qed


lemma function_steps_typed:
  assumes "efold (queued_function_step ti) fs (ev, w) = Inr (ev', w')"
    and "typed sg rids G b N w" "ev_typed sg G ev" "\<And>f. f \<in> set fs \<Longrightarrow> sg_call sg (qf_fun f) = qf_idx f"
  shows "typed sg rids G b N w' \<and> ev_typed sg G ev'"
  using assms
proof (induction fs arbitrary: ev w)
  case Nil
  then show ?case by simp
next
  case (Cons f fs)
  obtain ev1 w1 where s: "queued_function_step ti f (ev, w) = Inr (ev1, w1)"
    "efold (queued_function_step ti) fs (ev1, w1) = Inr (ev', w')"
    using Cons.prems(1) by (auto simp: ebind_Inr_iff)
  have "sg_call sg (qf_fun f) = qf_idx f" using Cons.prems(4) by simp
  from function_step_typed [OF Cons.prems(2,3) this s(1)] Cons.IH [OF s(2)] Cons.prems(4) show ?case by simp
qed

lemma uring_step_core: "core (queued_uring_step ti u w) = core w"
proof -
  obtain a w1 where a: "new_attached (Event_Data (qu_op u) (ti_obj ti) (ti_proc ti)) w = (a, w1)" by fastforce
  then have "core w1 = core w" using core_upd(5) by (metis snd_conv)
  then show ?thesis using a by (simp add: queued_uring_step_def)
qed

lemma uring_steps_typed: "typed sg rids G b N (fold (queued_uring_step ti) us w) = typed sg rids G b N w"
  by (rule typed_core) (induction us arbitrary: w, simp_all add: uring_step_core)

lemma timer_step_typed:
  assumes "queued_timer_step ti t (ev, w) = Inr (ev', w')"
  shows "core w' = core w \<and> (ev_typed sg G ev \<longrightarrow> ev_typed sg G ev')"
proof -
  let ?g = "translate_tim_local (qt_local_id t) ev"
  show ?thesis
  proof (cases "timers w ?g")
    case None
    obtain i w1 where d: "draw_tim w = (i, w1)" by fastforce
    obtain a w2 where a: "new_attached (Timer_Data i (ti_obj ti) (ti_proc ti)) w1 = (a, w2)" by fastforce
    have "core w1 = core w" "core w2 = core w1" using core_upd(4,5) d a by (metis snd_conv)+
    then show ?thesis using assms None d a by (auto simp: queued_timer_step_def Let_def split: if_splits)
  next
    case (Some td)
    let ?w = "w\<lparr>timers := (timers w)(?g \<mapsto> td\<lparr>td_ts := qt_time t\<rparr>)\<rparr>"
    obtain a w1 where a: "new_attached (Timer_Update ?g True) w = (a, w1)" by fastforce
    obtain a' w2 where a': "new_attached (Timer_Update ?g False) ?w = (a', w2)" by fastforce
    have "core w1 = core w" "core w2 = core ?w" using core_upd(5) a a' by (metis snd_conv)+
    then show ?thesis using assms Some a a' by (auto simp: queued_timer_step_def Let_def split: if_splits)
  qed
qed

lemma timer_steps_typed:
  assumes "efold (queued_timer_step ti) ts (ev, w) = Inr (ev', w')"
  shows "core w' = core w \<and> (ev_typed sg G ev \<longrightarrow> ev_typed sg G ev')"
  using assms
proof (induction ts arbitrary: ev w)
  case (Cons t ts)
  obtain ev1 w1 where s: "queued_timer_step ti t (ev, w) = Inr (ev1, w1)" "efold (queued_timer_step ti) ts (ev1, w1) = Inr (ev', w')"
    using Cons.prems by (auto simp: ebind_Inr_iff)
  show ?case using timer_step_typed [OF s(1), of sg G] Cons.IH [OF s(2)] by (elim conjE) (intro conjI, metis, blast)
qed simp

lemma delete_step_typed:
  assumes "typed sg rids G b N w" "queued_delete_step ti d w = Inr w'"
  shows "typed sg rids G b N w'"
proof -
  obtain w1 where w1: "efold (\<lambda>i. push_msg i (Delete_Msg
              \<lparr>ci_thread = self_thread w, ci_obj = ti_obj ti, ci_proc = ti_proc ti\<rparr>
              \<lparr>ti_obj = qd_obj_id d, ti_proc = no_id\<rparr>)) (qd_thread d) w = Inr w1"
    "w' = upd_obj (ti_obj ti) (\<lambda>o'. o'\<lparr>children := AList.delete (qd_obj_id d) (children o')\<rparr>) w1"
    using assms(2) by (auto simp: queued_delete_step_def ebind_Inr_iff)
  have "typed sg rids G b N w1" by (rule typed_push_fold [OF w1(1) assms(1)]) simp
  then show ?thesis unfolding w1(2) by simp
qed

lemma attach_steps_typed: "typed sg rids G b N (fold (queued_attach_step ti ev) ls w) = typed sg rids G b N w"
  by (rule typed_core) (induction ls arbitrary: w, simp_all add: queued_attach_step_def Let_def)

lemma process_queued_event_typed:
  assumes "process_queued_event ti c (ev, w) = Inr (ev', w')"
    and "typed sg rids G b (length (construct_q ev) + N) w" "ev_typed sg G ev"
  shows "\<exists>G'. G \<subseteq>\<^sub>m G' \<and> typed sg rids G' b N w' \<and> ev_typed sg G' ev' \<and> construct_q ev' = []"
proof -
  obtain ev1 w1 where s1: "process_queued_construct ti c (ev, w) = Inr (ev1, w1)"
    and r1: "ebind (process_queued_function ti (ev1, w1)) (\<lambda>s.
       ebind (process_queued_timers ti (process_queued_uring ti s)) (\<lambda>s.
       ebind (process_queued_delete ti s) (\<lambda>s.
       case process_queued_attach ti s of (ev, w) \<Rightarrow> Inr (clear ev, w)))) = Inr (ev', w')"
    using assms(1) by (auto simp: process_queued_event_def ebind_Inr_iff)
  obtain ev2 w2 where s2: "process_queued_function ti (ev1, w1) = Inr (ev2, w2)"
    and r2: "ebind (process_queued_timers ti (process_queued_uring ti (ev2, w2))) (\<lambda>s.
       ebind (process_queued_delete ti s) (\<lambda>s.
       case process_queued_attach ti s of (ev, w) \<Rightarrow> Inr (clear ev, w))) = Inr (ev', w')"
    using r1 by (auto simp: ebind_Inr_iff)
  obtain ev3 w3 where s3: "process_queued_timers ti (process_queued_uring ti (ev2, w2)) = Inr (ev3, w3)"
    and r3: "ebind (process_queued_delete ti (ev3, w3)) (\<lambda>s.
       case process_queued_attach ti s of (ev, w) \<Rightarrow> Inr (clear ev, w)) = Inr (ev', w')"
    using r2 by (auto simp: ebind_Inr_iff)
  obtain w4 where s4: "efold (queued_delete_step ti) (delete_q ev3) w3 = Inr w4"
    "ev' = clear ev3" "w' = fold (queued_attach_step ti ev3) (attach_q ev3) w4"
    using r3 by (auto simp: ebind_Inr_iff process_queued_delete_def process_queued_attach_def)
  have q: "\<forall>p \<in> set (map (\<lambda>x. (x, if qc_shared x then Some c else None)) (construct_q ev)).
      sg_ctor sg (qc_fun (fst p)) = qc_idx (fst p)"
    using assms(3) by (auto simp: ev_typed_def queues_ok_def)
  have "typed sg rids G b (length (map (\<lambda>x. (x, if qc_shared x then Some c else None)) (construct_q ev)) + N) w"
    using assms(2) by simp
  from construct_steps_typed [OF s1 [unfolded process_queued_construct_def prod.case] this assms(3) q] obtain G1 where
    G1: "G \<subseteq>\<^sub>m G1" "typed sg rids G1 b N w1" "ev_typed sg G1 ev1" by blast
  have "typed sg rids G1 b N w2 \<and> ev_typed sg G1 ev2"
    using function_steps_typed [OF s2 [unfolded process_queued_function_def prod.case] G1(2,3)] G1(3)
    by (auto simp: ev_typed_def queues_ok_def)
  then have "typed sg rids G1 b N w3 \<and> ev_typed sg G1 ev3"
    using timer_steps_typed [OF s3 [unfolded process_queued_timers_def process_queued_uring_def prod.case], of sg G1]
      typed_core uring_steps_typed by metis
  moreover have "typed sg rids G1 b N w4"
    using s4(1) by (rule efold_invariant) (use calculation delete_step_typed in blast)+
  ultimately show ?thesis using G1(1) s4(2,3)
    by (intro exI [of _ G1]) (simp add: attach_steps_typed ev_typed_def queues_ok_def clear_def)
qed

text \<open>Reading the object's event back and storing what is left of it.\<close>

lemma load_typed:
  assumes "load_event (Some i) w = Inr (j, ev)" "typed sg rids G b N w"
  shows "j = i" "ev_typed sg G ev" "length (construct_q ev) \<le> b i" "ev_mem w i \<noteq> None"
  using assms by (auto simp: load_event_def typed_def world_ok_def memory_ok_def ev_typed_def queues_ok_def
      split: option.splits)

lemma store_typed:
  assumes "typed sg rids G b N w" "ev_typed sg G ev"
  shows "typed sg rids G (b(i := length (construct_q ev))) N (store_event i ev w)"
proof (cases "ev_mem w i")
  case None
  then show ?thesis using assms(1) by (auto simp: store_event_def typed_def world_ok_def memory_ok_def)
next
  case (Some p)
  obtain ev0 c where p: "p = (ev0, c)" by fastforce
  have st: "store_event i ev w = w\<lparr>ev_mem := (ev_mem w)(i \<mapsto> (ev, c)), ctxs := (ctxs w)(c \<mapsto> uring_data ev)\<rparr>"
    using Some p by (simp add: store_event_def)
  have w: "world_ok sg G b w" using assms(1) by (simp add: typed_def)
  have "memory_ok sg G (b(i := length (construct_q ev))) ((ev_mem w)(i \<mapsto> (ev, c))) ((ctxs w)(c \<mapsto> uring_data ev))"
    using w assms(2) by (auto simp: world_ok_def memory_ok_def ev_typed_def)
  moreover have "pointers_ok G (store_event i ev w)"
    using w by (auto simp: st world_ok_def pointers_ok_def obj_ptr_def)
  ultimately have "world_ok sg G (b(i := length (construct_q ev))) (store_event i ev w)"
    using w by (simp add: st world_ok_def)
  then show ?thesis using assms(1) by (simp add: typed_def obj_pool_def st)
qed

lemma process_queued_typed:
  assumes "process_queued (Some i) ti w = Inr w'" "typed sg rids G b (b i + N) w"
  shows "\<exists>G'. G \<subseteq>\<^sub>m G' \<and> typed sg rids G' (b(i := 0)) N w'"
proof -
  obtain ev where ev: "load_event (Some i) w = Inr (i, ev)"
    using assms(1) load_typed(1) [OF _ assms(2)] by (auto simp: process_queued_def ebind_Inr_iff)
  note l = load_typed [OF ev assms(2)]
  obtain c ev1 w1 where e: "process_queued_event ti c (ev, w) = Inr (ev1, w1)" "w' = store_event i ev1 w1"
    using assms(1) ev by (auto simp: process_queued_def ebind_Inr_iff)
  have "typed sg rids G b (length (construct_q ev) + N) w" using assms(2) l(3) by (elim typed_less) simp
  from process_queued_event_typed [OF e(1) this l(2)] store_typed show ?thesis unfolding e(2) by fastforce
qed


section \<open>The contract of the classes\<close>

lemma typed_no_id: "typed sg rids G b N w \<Longrightarrow> G no_id = None"
  using pool.null_fresh [of "obj_pool rids (dom G) w"] by (auto simp: typed_def obj_pool_def)

lemma typed_root:
  assumes "initialize_root_event k f rids w = Inr (rids', w')" "typed sg rids G b (Suc N) w" "sg_call sg f = sg_ctor sg k"
  shows "\<exists>G'. G \<subseteq>\<^sub>m G' \<and> typed sg rids' G' b N w'"
proof -
  obtain ob r1 b1 where d: "root_get_obj_id rids (blocks w) = (ob, r1, b1)" by (metis prod_cases3)
  obtain pr r2 b2 where e: "root_get_proc_id r1 b1 = (pr, r2, b2)" by (metis prod_cases3)
  let ?w = "w\<lparr>blocks := b2\<rparr>" and ?p = "obj_pool rids (dom G) w" and ?p' = "obj_pool r2 (insert ob (dom G)) (w\<lparr>blocks := b2\<rparr>)"
  have p: "push_msg 0 (Root_Start (Root_Ctor k) f \<lparr>ti_obj = ob, ti_proc = pr\<rparr>) ?w = Inr w'" "rids' = r2"
    using assms(1) d e by (auto simp: initialize_root_event_def ebind_Inr_iff)
  have "obj_cur r2 = obj_cur r1" "obj_block b2 = obj_block b1"
    using e by (auto simp: root_get_proc_id_def split: prod.splits)
  then have "pool_draw 1 ?p = (ob, ?p')"
    using d by (auto simp: pool_draw_def obj_pool_def root_get_obj_id_def root_take_id_eq split: prod.splits)
  then have f: "ob \<notin> dom G \<and> pool_inv ?p' \<and> pool_room ?p \<le> Suc (pool_room ?p')"
    using pool_draw_fresh [of ?p 1] assms(2) by (simp add: typed_def obj_pool_def)
  let ?G = "G(ob \<mapsto> sg_ctor sg k)"
  have sub: "G \<subseteq>\<^sub>m ?G" using f by (auto simp: map_le_def)
  have "world_ok sg G b ?w"
    using assms(2) by (simp add: typed_def world_ok_def pointers_ok_def obj_ptr_def)
  then have "typed sg r2 ?G b N ?w" using world_ok_extend [OF _ sub] f assms(2) by (simp add: typed_def)
  then have "typed sg r2 ?G b N w'" by (rule typed_push [OF _ _ p(1)]) (simp add: assms(3))
  then show ?thesis using sub p(2) by blast
qed

lemma typed_init: "typed sg init_thread_ids Map.empty (\<lambda>_. 0) max_blocks (init_world 1 0 :: ('t, 'k, 'f, 'o) world)"
proof -
  let ?w = "init_world 1 0 :: ('t, 'k, 'f, 'o) world"
  have "world_ok sg Map.empty (\<lambda>_. 0) ?w"
    by (simp add: world_ok_def init_world_def memory_ok_def payloads_ok_def pointers_ok_def obj_ptr_def map_at_def
        default_object_def)
  then show ?thesis by (simp add: typed_def init_pools(2) del: One_nat_def)
qed

lemma typed_payloads:
  assumes "typed sg rids G b N w" "same_classes sg (payloads w) os"
  shows "typed sg rids G b N (w\<lparr>payloads := os\<rparr>)"
proof -
  have same: "map_option (sg_obj sg) (os j) = map_option (sg_obj sg) (payloads w j)" if "j \<noteq> no_id" for j
    using assms(2) that by (simp add: same_classes_def)
  have w: "world_ok sg G b w" using assms(1) by (simp add: typed_def)
  have "payloads_ok sg G os"
    unfolding payloads_ok_def
  proof (intro allI impI)
    fix i o' assume i: "os i = Some o'" "i \<noteq> no_id"
    then obtain o'' where "payloads w i = Some o''" "sg_obj sg o'' = sg_obj sg o'"
      using same [OF i(2)] by (cases "payloads w i") auto
    then show "G i \<noteq> None \<and> sg_obj sg o' = G i" using w i(2) by (simp add: world_ok_def payloads_ok_def) metis
  qed
  moreover have "pointers_ok G (w\<lparr>payloads := os\<rparr>)"
    unfolding pointers_ok_def
  proof (intro allI impI)
    fix i j assume "obj_ptr i (w\<lparr>payloads := os\<rparr>) = Some j"
    then have p: "j = i \<and> ev_mem w i \<noteq> None \<and> payloads w i \<noteq> None \<and> G i \<noteq> None"
      using w by (simp add: world_ok_def pointers_ok_def obj_ptr_def)
    then have "i \<noteq> no_id" using typed_no_id [OF assms(1)] by auto
    then show "j = i \<and> ev_mem (w\<lparr>payloads := os\<rparr>) i \<noteq> None \<and> payloads (w\<lparr>payloads := os\<rparr>) i \<noteq> None \<and> G i \<noteq> None"
      using p same [of i] by auto
  qed
  ultimately show ?thesis using assms(1) w by (simp add: typed_def world_ok_def obj_pool_def)
qed

text \<open>
  What can happen to the thread: a root object is started, the first message is handled, a completion
  is taken from the ring, or the kernel or a library writes into the buffers of an object.  The bodies
  may see another environment \<open>e\<close> every time.  \<open>n\<close> counts the steps.
\<close>

inductive sched_reach ::
  "('t, 'k, 'f, 'o) signature \<Rightarrow> ('e \<Rightarrow> ('t, 'k, 'f, 'o) classes) \<Rightarrow> thread_ids \<Rightarrow> ('t, 'k, 'f, 'o) world \<Rightarrow>
    nat \<Rightarrow> thread_ids \<Rightarrow> ('t, 'k, 'f, 'o) world \<Rightarrow> bool"
  for sg cl rids0 w0
where
  start: "sched_reach sg cl rids0 w0 0 rids0 w0"
| root: "sched_reach sg cl rids0 w0 n rids w \<Longrightarrow> sg_call sg f = sg_ctor sg k \<Longrightarrow>
    initialize_root_event k f rids w = Inr (rids', w') \<Longrightarrow> sched_reach sg cl rids0 w0 (Suc n) rids' w'"
| message: "sched_reach sg cl rids0 w0 n rids w \<Longrightarrow> handle_dequeue (cl e) w = Inr (busy, w') \<Longrightarrow>
    sched_reach sg cl rids0 w0 (Suc n) rids w'"
| completion: "sched_reach sg cl rids0 w0 n rids w \<Longrightarrow> completion_step cqe w = Inr w' \<Longrightarrow>
    sched_reach sg cl rids0 w0 (Suc n) rids w'"
| buffers: "sched_reach sg cl rids0 w0 n rids w \<Longrightarrow> same_classes sg (payloads w) os \<Longrightarrow>
    sched_reach sg cl rids0 w0 (Suc n) rids (w\<lparr>payloads := os\<rparr>)"

lemma completion_typed:
  assumes "completion_step cqe w = Inr w'" "typed sg rids G b N w"
  shows "typed sg rids G b N w'"
proof -
  obtain a r where cqe: "cqe = (a, r)" by fastforce
  obtain d where d: "attached w a = Some d" using assms(1) cqe by (cases "attached w a") (auto simp: completion_step_def)
  obtain w1 where w': "w' = w1\<lparr>attached := (attached w1)(a := None)\<rparr>"
    and w1: "w1 = w \<or> (\<exists>i. w1 = w\<lparr>timers := (timers w)(i := None)\<rparr>) \<or>
      (\<exists>m. msg_ok sg G m \<and> push_msg (self_thread w) m w = Inr w1)"
  proof (cases d)
    case (Event_Data o' ob pr)
    then show ?thesis using assms(1) cqe d that by (auto simp: completion_step_def ebind_Inr_iff) (metis msg_ok.simps(5))
  next
    case (Timer_Data i ob pr)
    then show ?thesis
      using assms(1) cqe d that by (auto simp: completion_step_def ebind_Inr_iff split: if_splits) (metis msg_ok.simps(5))+
  next
    case (Timer_Update i rem)
    then show ?thesis
      using assms(1) cqe d that [of "if 0 \<le> r \<and> rem then w\<lparr>timers := (timers w)(i := None)\<rparr> else w"]
      by (fastforce simp: completion_step_def split: if_splits)
  next
    case (Co_Event i)
    then show ?thesis using assms(1) cqe d that by (auto simp: completion_step_def ebind_Inr_iff) (metis msg_ok.simps(6))
  qed
  have "typed sg rids G b N w1" using w1 assms(2) typed_push [OF assms(2)] by auto
  then show ?thesis by (simp add: w')
qed

locale class_bodies =
  fixes sg :: "('t, 'k, 'f, 'o) signature"
    and cl :: "'e \<Rightarrow> ('t, 'k, 'f, 'o) classes"
    and B :: nat
  assumes some_room: "0 < B"
    and construct_ok: "cl_construct (cl e) k i os (new_event ud) = Inr (o', os', ev') \<Longrightarrow>
      sg_obj sg o' = Some (sg_ctor sg k) \<and> same_classes sg os os' \<and> ev_ok sg B (new_event ud) ev'"
    and invoke_ok: "cl_invoke (cl e) f i p os ev = Inr (resp, os', ev') \<Longrightarrow> same_classes sg os os' \<and> ev_ok sg B ev ev'"
    and yield_ok: "cl_yield (cl e) d i os ev = Inr (y, os', ev') \<Longrightarrow> same_classes sg os os' \<and> ev_ok sg B ev ev'"
begin

lemma body_typed:
  assumes "run_body body (obj_ptr i w) w = Inr (r, w1)" "process_queued (obj_ptr i w1) ti w1 = Inr w2"
    and "typed sg rids G (\<lambda>_. 0) (B + N) w"
    and "\<And>j os ev r os' ev'. body j os ev = Inr (r, os', ev') \<Longrightarrow> same_classes sg os os' \<and> ev_ok sg B ev ev'"
  shows "\<exists>G'. G \<subseteq>\<^sub>m G' \<and> typed sg rids G' (\<lambda>_. 0) N w2"
proof -
  obtain j ev os' ev' where l: "load_event (obj_ptr i w) w = Inr (j, ev)" "body j (payloads w) ev = Inr (r, os', ev')"
    "w1 = store_event j ev' (w\<lparr>payloads := os'\<rparr>)"
    using assms(1) by (auto simp: run_body_def ebind_Inr_iff)
  then have "obj_ptr i w = Some i"
    using assms(3) by (cases "obj_ptr i w") (auto simp: load_event_def typed_def world_ok_def pointers_ok_def)
  then have p: "load_event (Some i) w = Inr (j, ev)" "obj_ptr i w1 = Some i" using l by simp_all
  note t = load_typed [OF p(1) assms(3)]
  have b: "same_classes sg (payloads w) os'" "ev_ok sg B ev ev'" using assms(4) l(2) by blast+
  then have e: "ev_typed sg G ev'" "length (construct_q ev') \<le> B" using t(2,3) by (auto simp: ev_ok_def ev_typed_def)
  have "typed sg rids G ((\<lambda>_. 0)(i := length (construct_q ev'))) (B + N) w1"
    unfolding l(3) t(1) by (rule store_typed [OF typed_payloads [OF assms(3) b(1)] e(1)])
  then have "typed sg rids G ((\<lambda>_. 0)(i := B)) (((\<lambda>_. 0)(i := B)) i + N) w1"
    using e(2) by (simp add: typed_bound)
  from process_queued_typed [OF assms(2) [unfolded p(2)] this] show ?thesis by (simp add: fun_upd_idem)
qed

lemma function_call_typed:
  assumes "function_call (cl e) f ci ti w = Inr w'" "typed sg rids G (\<lambda>_. 0) (B + N) w"
  shows "\<exists>G'. G \<subseteq>\<^sub>m G' \<and> typed sg rids G' (\<lambda>_. 0) N w'"
proof -
  let ?w1 = "upd_obj (ti_obj ti) (\<lambda>d. d\<lparr>assoc_procs := assoc_procs d @ [ti_proc ti]\<rparr>) w"
  let ?w2 = "upd_call (ti_proc ti) (\<lambda>c. c\<lparr>assoc_obj := ti_obj ti,
                 back_notify := (ci_thread ci, ci_obj ci, ci_proc ci), cd_status := Running\<rparr>) ?w1"
  have t2: "typed sg rids G (\<lambda>_. 0) (B + N) ?w2" using assms(2) by simp
  obtain resp w3 where r3: "run_body (\<lambda>i. cl_invoke (cl e) f i (ti_proc ti)) (obj_ptr (ti_obj ti) ?w2) ?w2 = Inr (resp, w3)"
    using assms(1) unfolding function_call_def Let_def by (auto simp: ebind_Inr_iff)
  obtain w4 where r4: "process_queued (obj_ptr (ti_obj ti) w3) ti w3 = Inr w4"
    using assms(1) r3 unfolding function_call_def Let_def by (auto simp: ebind_Inr_iff)
  obtain G' where G': "G \<subseteq>\<^sub>m G'" "typed sg rids G' (\<lambda>_. 0) N w4"
    using body_typed [OF r3 r4 t2] invoke_ok by blast
  let ?w5 = "upd_call (ti_proc ti) (\<lambda>c. c\<lparr>cd_op_hint := op_hint resp, cd_description := description resp,
                      cd_status := if success resp then Running else Degraded\<rparr>) w4"
  have rest: "(case ret resp of None \<Rightarrow> Inr ?w5 | Some (failed, code) \<Rightarrow>
      let w6 = upd_call (ti_proc ti) (\<lambda>c. c\<lparr>cd_status := if failed then Failed else Finished, cd_return_code := code\<rparr>) ?w5
      in if length (queues w6) \<le> unat (int_to_size (ci_thread ci)) then Inr w6
         else push_msg (ci_thread ci) (Data_Msg \<lparr>ci_thread = self_thread w6, ci_obj = ti_obj ti, ci_proc = ti_proc ti\<rparr>
             \<lparr>ti_obj = ci_obj ci, ti_proc = ci_proc ci\<rparr>
             (ChildTaskCompletion (ci_proc ci) (ti_proc ti) (cd_status (call_of (ti_proc ti) w6)) code)) w6) = Inr w'"
    using assms(1) r3 r4 unfolding function_call_def Let_def by simp
  have "typed sg rids G' (\<lambda>_. 0) N w'"
  proof (cases "ret resp")
    case None
    then show ?thesis using rest G'(2) by auto
  next
    case (Some fc)
    obtain failed code where fc: "fc = (failed, code)" by fastforce
    define w6 where "w6 = upd_call (ti_proc ti)
      (\<lambda>c. c\<lparr>cd_status := if failed then Failed else Finished, cd_return_code := code\<rparr>) ?w5"
    have t6: "typed sg rids G' (\<lambda>_. 0) N w6" using G'(2) by (simp add: w6_def)
    have "w' = w6 \<or> (\<exists>d. push_msg (ci_thread ci) (Data_Msg \<lparr>ci_thread = self_thread w6, ci_obj = ti_obj ti, ci_proc = ti_proc ti\<rparr>
         \<lparr>ti_obj = ci_obj ci, ti_proc = ci_proc ci\<rparr> d) w6 = Inr w')"
      using rest unfolding Some fc option.case prod.case Let_def w6_def [symmetric] by (auto split: if_splits)
    then show ?thesis using typed_push_data [OF t6] t6 by blast
  qed
  then show ?thesis using G'(1) by blast
qed

lemma data_received_typed:
  assumes "data_received (cl e) ci ti d w = Inr w'" "typed sg rids G (\<lambda>_. 0) (B + N) w"
  shows "\<exists>G'. G \<subseteq>\<^sub>m G' \<and> typed sg rids G' (\<lambda>_. 0) N w'"
proof (cases "obj_info w (ti_obj ti) = None \<or> proc_to_dat w (ti_proc ti) = None")
  case True
  then have "w' = w" using assms(1) by (auto simp: data_received_def)
  then show ?thesis using typed_less [OF assms(2), of N] by (intro exI [of _ G]) simp
next
  case False
  let ?tail = "\<lambda>d' y w3. ebind (case y of
                 None \<Rightarrow> Inr w3
               | Some (failed, code) \<Rightarrow>
                   let w4 = upd_call (ti_proc ti) (\<lambda>c. c\<lparr>cd_status :=
                              if failed then Failed else Finished\<rparr>) w3;
                       (th, ob, pr) = back_notify (call_of (ti_proc ti) w4)
                   in push_msg th
                        (Data_Msg
                          \<lparr>ci_thread = self_thread w4, ci_obj = ti_obj ti, ci_proc = ti_proc ti\<rparr>
                          \<lparr>ti_obj = ob, ti_proc = pr\<rparr>
                          (ChildTaskCompletion pr (ti_proc ti)
                             (cd_status (call_of (ti_proc ti) w4)) code)) w4)
          (notify_attached ci ti d')"
  obtain d' w1 where m: "map_data d (obj_ptr (ti_obj ti) w) w = Inr (d', w1)"
    and r1: "ebind (run_body (cl_yield (cl e) d') (obj_ptr (ti_obj ti) w1) w1) (\<lambda>(y, w2).
        ebind (process_queued (obj_ptr (ti_obj ti) w2) ti w2) (?tail d' y)) = Inr w'"
    using assms(1) False unfolding data_received_def by (auto simp: ebind_Inr_iff)
  obtain y w2 where b: "run_body (cl_yield (cl e) d') (obj_ptr (ti_obj ti) w1) w1 = Inr (y, w2)"
    and r2: "ebind (process_queued (obj_ptr (ti_obj ti) w2) ti w2) (?tail d' y) = Inr w'"
    using r1 by (auto simp: ebind_Inr_iff)
  obtain w3 where p: "process_queued (obj_ptr (ti_obj ti) w2) ti w2 = Inr w3" and r3: "?tail d' y w3 = Inr w'"
    using r2 unfolding ebind_Inr_iff by blast
  obtain j ev where j: "load_event (obj_ptr (ti_obj ti) w) w = Inr (j, ev)"
    using m by (auto simp: map_data_def ebind_Inr_iff)
  obtain d'' ev' where me: "map_event_data d ev = (d'', ev')" by fastforce
  then have l: "load_event (obj_ptr (ti_obj ti) w) w = Inr (j, ev)" "map_event_data d ev = (d', ev')"
    "w1 = store_event j ev' w"
    using m j by (simp_all add: map_data_def)
  have "obj_ptr (ti_obj ti) w = Some (ti_obj ti)"
    using l(1) assms(2) by (cases "obj_ptr (ti_obj ti) w") (auto simp: load_event_def typed_def world_ok_def pointers_ok_def)
  note t = load_typed [OF l(1) [unfolded this] assms(2)]
  have "ev_typed sg G ev' \<and> construct_q ev' = construct_q ev"
    using t(2) l(2) by (cases d) (auto simp: ev_typed_def queues_ok_def slots_ok_def)
  then have "typed sg rids G ((\<lambda>_. 0)(j := 0)) (B + N) w1"
    using store_typed [OF assms(2), of ev' j] t(3) unfolding l(3) by simp
  then have "typed sg rids G (\<lambda>_. 0) (B + N) w1" by (simp add: fun_upd_idem)
  then obtain G' where G': "G \<subseteq>\<^sub>m G'" "typed sg rids G' (\<lambda>_. 0) N w3"
    using body_typed [OF b p] yield_ok by blast
  obtain w4 where w4: "notify_attached ci ti d' w4 = Inr w'" "typed sg rids G' (\<lambda>_. 0) N w4"
  proof (cases y)
    case None
    then show ?thesis using r3 that G'(2) by simp
  next
    case (Some fc)
    obtain failed code where fc: "fc = (failed, code)" by fastforce
    define w4 where "w4 = upd_call (ti_proc ti) (\<lambda>c. c\<lparr>cd_status := if failed then Failed else Finished\<rparr>) w3"
    obtain th ob pr where bn: "back_notify (call_of (ti_proc ti) w4) = (th, ob, pr)" by (metis prod_cases3)
    have t4: "typed sg rids G' (\<lambda>_. 0) N w4" using G'(2) by (simp add: w4_def)
    obtain w5 where "\<exists>ci' ti' d''. push_msg th (Data_Msg ci' ti' d'') w4 = Inr w5" "notify_attached ci ti d' w5 = Inr w'"
      using r3 unfolding Some fc option.case prod.case Let_def w4_def [symmetric] bn ebind_Inr_iff by blast
    then show ?thesis using that typed_push_data [OF t4] by blast
  qed
  have "typed sg rids G' (\<lambda>_. 0) N w'"
  proof (cases "also_notify w4 (ti_proc ti)")
    case None
    then show ?thesis using w4 by (simp add: notify_attached_def)
  next
    case (Some l)
    have "efold (\<lambda>x. push_msg (self_thread w4) (Data_Msg ci \<lparr>ti_obj = fst x, ti_proc = snd x\<rparr> d')) l w4 = Inr w'"
      using w4(1) Some by (simp add: notify_attached_def case_prod_unfold)
    then show ?thesis using w4(2) by (rule typed_push_fold) simp
  qed
  then show ?thesis using G'(1) by blast
qed

lemma delete_received_typed:
  assumes "delete_received ci ti w = Inr w'" "typed sg rids G (\<lambda>_. 0) N w"
  shows "typed sg rids G (\<lambda>_. 0) N w'"
proof -
  let ?i = "ti_obj ti" let ?d = "map_at (obj_info w) default_object ?i"
  obtain w1 where w1: "efold (\<lambda>(child, info). push_msg (ch_thread info)
                  (Delete_Msg ci \<lparr>ti_obj = child, ti_proc = no_id\<rparr>)) (children ?d) (touch_obj ?i w) = Inr w1"
    "w' = w1\<lparr>proc_to_dat := proc_to_dat w1 |` (- set (assoc_procs ?d)), obj_info := (obj_info w1)(?i := None),
       ev_mem := (case od_ptr ?d of None \<Rightarrow> ev_mem w1 | Some i \<Rightarrow> (ev_mem w1)(i := None)),
       payloads := (case od_ptr ?d of None \<Rightarrow> payloads w1 | Some i \<Rightarrow> (payloads w1)(i := None))\<rparr>"
    using assms(1) unfolding delete_received_def Let_def by (auto simp: ebind_Inr_iff)
  have "efold (\<lambda>x. push_msg (ch_thread (snd x)) (Delete_Msg ci \<lparr>ti_obj = fst x, ti_proc = no_id\<rparr>))
      (children ?d) (touch_obj ?i w) = Inr w1"
    using w1(1) by (simp add: case_prod_unfold)
  then have t1: "typed sg rids G (\<lambda>_. 0) N w1" by (rule typed_push_fold) (use assms(2) in simp_all)
  have "od_ptr ?d = obj_ptr ?i w" by (simp add: obj_ptr_def)
  then have ptr: "od_ptr ?d = None \<or> od_ptr ?d = Some ?i"
    using assms(2) by (cases "obj_ptr ?i w") (auto simp: typed_def world_ok_def pointers_ok_def)
  let ?em = "case od_ptr ?d of None \<Rightarrow> ev_mem w1 | Some i \<Rightarrow> (ev_mem w1)(i := None)"
  let ?os = "case od_ptr ?d of None \<Rightarrow> payloads w1 | Some i \<Rightarrow> (payloads w1)(i := None)"
  have w: "world_ok sg G (\<lambda>_. 0) w1" using t1 by (simp add: typed_def)
  have "memory_ok sg G (\<lambda>_. 0) ?em (ctxs w1)" "payloads_ok sg G ?os"
    using w ptr by (auto simp: world_ok_def memory_ok_def payloads_ok_def split: if_splits)
  moreover have "obj_ptr j w' = (if j = ?i then None else obj_ptr j w1)" for j
    unfolding w1(2) by (simp add: obj_ptr_def map_at_def default_object_def)
  then have "pointers_ok G w'"
    using w ptr unfolding pointers_ok_def world_ok_def by (auto simp: w1(2) split: if_splits)
  ultimately have "world_ok sg G (\<lambda>_. 0) w'" using w by (simp add: w1(2) world_ok_def)
  then show ?thesis using t1 by (simp add: typed_def obj_pool_def w1(2))
qed

lemma root_start_typed:
  assumes "root_start_received cf f ti w = Inr w'" "typed sg rids G (\<lambda>_. 0) N w" "msg_ok sg G (Root_Start cf f ti)"
  shows "typed sg rids G (\<lambda>_. 0) N w'"
proof -
  let ?nobody = "\<lparr>ci_thread = - 1, ci_obj = no_id, ci_proc = no_id\<rparr>"
  obtain w1 where p: "push_msg (self_thread w) (Constructor_Call cf ?nobody \<lparr>ti_obj = ti_obj ti, ti_proc = no_id\<rparr> None) w = Inr w1"
    "push_msg (self_thread w) (Function_Call f ?nobody ti) w1 = Inr w'"
    using assms(1) by (auto simp: root_start_received_def Let_def ebind_Inr_iff)
  have "typed sg rids G (\<lambda>_. 0) N w1" by (rule typed_push [OF assms(2) _ p(1)]) (use assms(3) in simp)
  then show ?thesis by (rule typed_push [OF _ _ p(2)]) (use assms(3) in simp)
qed

lemma cqe_ready_core: "core (cqe_ready_received i r w) = core w"
  by (simp add: cqe_ready_received_def core_def obj_ptr_def split: option.split)

lemma typed_ctxs:
  "typed sg rids G b N w \<Longrightarrow> slots_ok G ud \<Longrightarrow> typed sg rids G b N (w\<lparr>ctxs := (ctxs w)(c \<mapsto> ud)\<rparr>)"
  by (auto simp: typed_def world_ok_def memory_ok_def pointers_ok_def obj_pool_def obj_ptr_def split: if_splits)

lemma event_init_typed:
  assumes "event_init ctx w = Inr (c, ud, w1)" "typed sg rids G b N w"
  shows "typed sg rids G b N w1 \<and> slots_ok G ud \<and> ctxs w1 c = Some ud"
proof (cases ctx)
  case (Some c')
  then show ?thesis
    using assms by (auto simp: event_init_def typed_def world_ok_def memory_ok_def split: option.splits)
next
  case None
  have "slots_ok G empty_uring_data" by (simp add: slots_ok_def empty_uring_data_def)
  then show ?thesis
    using assms None typed_ctxs [OF assms(2), of empty_uring_data "next_ctx w"] by (auto simp: event_init_def)
qed

lemma register_child_typed:
  assumes "register_child cf i w = Inr w'" "typed sg rids G b N w" "closure_ok sg cf"
    and "G i = Some (sg_ctor sg (ctor_closure cf))"
  shows "typed sg rids G b N w' \<and> ev_mem w' = ev_mem w \<and> obj_info w' = obj_info w \<and> payloads w' = payloads w \<and>
    (\<forall>c. ctxs w c \<noteq> None \<longrightarrow> ctxs w' c \<noteq> None)"
proof (cases cf)
  case (Root_Ctor k)
  then show ?thesis using assms(1,2) by simp
next
  case (Child_Ctor k p ty loc)
  obtain j ev where l: "load_event (Some p) w = Inr (j, ev)" using assms(1) Child_Ctor by (auto simp: ebind_Inr_iff)
  obtain info where s: "get_evinfo ty loc ev = Inr (Some info)"
    "w' = w\<lparr>ctxs := (ctxs w)(snd (the (ev_mem w p)) \<mapsto>
       uring_data (set_slots ty ((slots ty ev)[loc := Some (info\<lparr>ev_event := Some i\<rparr>)]) ev))\<rparr>"
    using assms(1) Child_Ctor l by (auto simp: ebind_Inr_iff split: option.splits)
  note t = load_typed [OF l assms(2)]
  have "G i = Some ty" using assms(3,4) Child_Ctor by simp
  then have "info_ok G ty (Some (info\<lparr>ev_event := Some i\<rparr>))"
    using get_evinfo_typed(2) [OF s(1) t(2)] by (simp add: info_ok_def)
  from ev_typed_set_slot [OF t(2) this] have "typed sg rids G b N w'"
    unfolding s(2) by (intro typed_ctxs [OF assms(2)]) (simp add: ev_typed_def)
  then show ?thesis unfolding s(2) by simp
qed

lemma new_object_typed:
  assumes "typed sg rids G (\<lambda>_. 0) N w" "queues_ok sg ev" "length (construct_q ev) \<le> B" "ctxs w c \<noteq> None"
    and "G i = Some ty" "sg_obj sg o' = Some ty" "od_ptr d = Some i"
  shows "typed sg rids G ((\<lambda>_. 0)(i := B)) N
    (w\<lparr>ev_mem := (ev_mem w)(i \<mapsto> (ev, c)), payloads := (payloads w)(i \<mapsto> o'), obj_info := (obj_info w)(i \<mapsto> d)\<rparr>)"
    (is "typed _ _ _ _ _ ?w")
proof -
  have w: "world_ok sg G (\<lambda>_. 0) w" using assms(1) by (simp add: typed_def)
  have "memory_ok sg G ((\<lambda>_. 0)(i := B)) (ev_mem ?w) (ctxs ?w)" "payloads_ok sg G (payloads ?w)"
    using w assms by (auto simp: world_ok_def memory_ok_def payloads_ok_def)
  moreover have "obj_ptr j ?w = (if j = i then Some i else obj_ptr j w)" for j
    using assms(7) by (simp add: obj_ptr_def map_at_def)
  then have "pointers_ok G ?w" using w assms(5) by (auto simp: pointers_ok_def world_ok_def split: if_splits)
  ultimately have "world_ok sg G ((\<lambda>_. 0)(i := B)) ?w" using w by (simp add: world_ok_def)
  then show ?thesis using assms(1) by (simp add: typed_def obj_pool_def)
qed

lemma construct_call_typed:
  assumes "construct_call (cl e) cf ci ti ctx w = Inr w'" "typed sg rids G (\<lambda>_. 0) (B + N) w"
    and "msg_ok sg G (Constructor_Call cf ci ti ctx)"
  shows "\<exists>G'. G \<subseteq>\<^sub>m G' \<and> typed sg rids G' (\<lambda>_. 0) N w'"
proof -
  let ?i = "ti_obj ti"
  obtain c ud w1 where s1: "event_init ctx w = Inr (c, ud, w1)" using assms(1) by (auto simp: construct_call_def ebind_Inr_iff)
  obtain o' os ev where s2: "cl_construct (cl e) (ctor_closure cf) ?i (payloads w1) (new_event ud) = Inr (o', os, ev)"
    using assms(1) s1 by (auto simp: construct_call_def ebind_Inr_iff)
  obtain w2 where s3: "register_child cf ?i (w1\<lparr>payloads := os, ctxs := (ctxs w1)(c \<mapsto> uring_data ev)\<rparr>) = Inr w2"
    using assms(1) s1 s2 by (auto simp: construct_call_def ebind_Inr_iff)
  define w3 where "w3 = (if obj_info w2 ?i \<noteq> None then w2
     else w2\<lparr>ev_mem := (ev_mem w2)(?i \<mapsto> (ev, c)), payloads := (payloads w2)(?i \<mapsto> o'),
             obj_info := (obj_info w2)(?i \<mapsto> \<lparr>od_ptr = Some ?i, assoc_procs = [],
                            parents = [(ci_thread ci, ci_obj ci)], children = []\<rparr>)\<rparr>)"
  have p: "process_queued (obj_ptr ?i w3) ti (touch_obj ?i w3) = Inr w'"
    using assms(1) s1 s2 s3 by (simp add: construct_call_def obj_ptr_def w3_def Let_def)
  have cls: "closure_ok sg cf" "G ?i = Some (sg_ctor sg (ctor_closure cf))" using assms(3) by simp_all
  note t1 = event_init_typed [OF s1 assms(2)]
  note c = construct_ok [OF s2]
  have ev: "queues_ok sg ev" "slots_ok G (uring_data ev)" "length (construct_q ev) \<le> B"
    using c t1 by (auto simp: ev_ok_def new_event_def queues_ok_def)
  have "typed sg rids G (\<lambda>_. 0) (B + N) (w1\<lparr>payloads := os\<rparr>)" using typed_payloads t1 c by blast
  from typed_ctxs [OF this ev(2), of c]
  have "typed sg rids G (\<lambda>_. 0) (B + N) (w1\<lparr>payloads := os, ctxs := (ctxs w1)(c \<mapsto> uring_data ev)\<rparr>)" by simp
  note t2 = register_child_typed [OF s3 this cls]
  have t3: "typed sg rids G ((\<lambda>_. 0)(?i := B)) (B + N) w3"
  proof (cases "obj_info w2 ?i = None")
    case True
    have "typed sg rids G (\<lambda>_. 0) (B + N) w2" "ctxs w2 c \<noteq> None" using t2 by auto
    from new_object_typed [OF this(1) ev(1,3) this(2) cls(2)] c True show ?thesis by (simp add: w3_def)
  next
    case False
    then show ?thesis using t2 by (auto simp: w3_def intro: typed_bound)
  qed
  then obtain i where "obj_ptr ?i w3 = Some i" using p by (cases "obj_ptr ?i w3") (auto simp: process_queued_def load_event_def)
  moreover from this have "i = ?i" using t3 by (simp add: typed_def world_ok_def pointers_ok_def)
  ultimately have "process_queued (Some ?i) ti (touch_obj ?i w3) = Inr w'" using p by simp
  from process_queued_typed [OF this, of sg rids G "(\<lambda>_. 0)(?i := B)" N] t3 show ?thesis by (simp add: fun_upd_idem)
qed

lemma handle_message_typed:
  assumes "handle_message (cl e) m w = Inr w'" "typed sg rids G (\<lambda>_. 0) (B + N) w" "msg_ok sg G m"
  shows "\<exists>G'. G \<subseteq>\<^sub>m G' \<and> typed sg rids G' (\<lambda>_. 0) N w'"
proof -
  note less = typed_less [OF assms(2), of N]
  show ?thesis
  proof (cases m)
    case (Constructor_Call cf ci ti ctx)
    then show ?thesis using construct_call_typed assms by auto
  next
    case (Function_Call f ci ti)
    then show ?thesis using function_call_typed assms by auto
  next
    case (Delete_Msg ci ti)
    then show ?thesis using delete_received_typed [OF _ less] assms(1) by (intro exI [of _ G]) simp
  next
    case (Data_Msg ci ti d)
    then show ?thesis using data_received_typed assms by auto
  next
    case (Root_Start cf f ti)
    then show ?thesis using root_start_typed [OF _ less] assms(1,3) by (intro exI [of _ G]) simp
  next
    case (Cqe_Ready i r)
    then show ?thesis using less assms(1) by (intro exI [of _ G]) (auto simp: typed_core [OF cqe_ready_core])
  qed
qed

lemma handle_dequeue_typed:
  assumes "handle_dequeue (cl e) w = Inr (busy, w')" "typed sg rids G (\<lambda>_. 0) (B + N) w"
  shows "\<exists>G'. G \<subseteq>\<^sub>m G' \<and> typed sg rids G' (\<lambda>_. 0) N w'"
proof (cases "queues w ! nat (self_thread w)")
  case Nil
  then have "w' = w" using assms(1) by (simp add: handle_dequeue_def)
  then show ?thesis using typed_less [OF assms(2), of N] by (intro exI [of _ G]) simp
next
  case (Cons m q)
  let ?w = "w\<lparr>queues := upd_at (nat (self_thread w)) tl (queues w)\<rparr>"
  obtain w1 where w1: "handle_message (cl e) m ?w = Inr w1" "w' = submit w1"
    using assms(1) Cons by (auto simp: handle_dequeue_def ebind_Inr_iff)
  have w: "world_ok sg G (\<lambda>_. 0) w" using assms(2) by (simp add: typed_def)
  have mem: "m # q \<in> set (queues w)" using w Cons by (metis nth_mem world_ok_def)
  then have m: "msg_ok sg G m" using w by (force simp: world_ok_def)
  have "set (queues ?w) \<subseteq> insert q (set (queues w))"
    using set_update_subset_insert [of "queues w"] Cons by (simp add: upd_at_def)
  then have "\<forall>q' \<in> set (queues ?w). \<forall>m' \<in> set q'. msg_ok sg G m'"
    using w mem unfolding world_ok_def by (metis (no_types, lifting) insertE list.set_intros(2) subsetD)
  then have "typed sg rids G (\<lambda>_. 0) (B + N) ?w"
    using assms(2) by (simp add: typed_def world_ok_def pointers_ok_def obj_pool_def obj_ptr_def)
  from handle_message_typed [OF w1(1) this m] show ?thesis unfolding w1(2) by simp
qed

lemma reach_typed:
  assumes "sched_reach sg cl rids0 w0 n rids w" "typed sg rids0 G0 (\<lambda>_. 0) (n * B + N) w0"
  shows "\<exists>G. G0 \<subseteq>\<^sub>m G \<and> typed sg rids G (\<lambda>_. 0) N w"
  using assms
proof (induction n rids w arbitrary: N)
  case start
  then show ?case by (intro exI [of _ G0]) simp
next
  case (root n rids w f k rids' w')
  then obtain G where G: "G0 \<subseteq>\<^sub>m G" "typed sg rids G (\<lambda>_. 0) (B + N) w"
    using root.IH [of "B + N"] root.prems by (fastforce simp: add_ac)
  have "typed sg rids G (\<lambda>_. 0) (Suc N) w" using G(2) some_room by (elim typed_less) simp
  from typed_root [OF root.hyps(3) this root.hyps(2)] show ?case using map_le_trans [OF G(1)] by blast
next
  case (message n rids w e busy w')
  then obtain G where G: "G0 \<subseteq>\<^sub>m G" "typed sg rids G (\<lambda>_. 0) (B + N) w"
    using message.IH [of "B + N"] message.prems by (fastforce simp: add_ac)
  from handle_dequeue_typed [OF message.hyps(2) G(2)] show ?case using map_le_trans [OF G(1)] by blast
next
  case (completion n rids w cqe w')
  then obtain G where G: "G0 \<subseteq>\<^sub>m G" "typed sg rids G (\<lambda>_. 0) (B + N) w"
    using completion.IH [of "B + N"] completion.prems by (fastforce simp: add_ac)
  then show ?case using completion_typed [OF completion.hyps(2) typed_less [OF G(2), of N]] by auto
next
  case (buffers n rids w os)
  then obtain G where G: "G0 \<subseteq>\<^sub>m G" "typed sg rids G (\<lambda>_. 0) (B + N) w"
    using buffers.IH [of "B + N"] buffers.prems by (fastforce simp: add_ac)
  then show ?case using typed_payloads [OF typed_less [OF G(2), of N] buffers.hyps(2)] by auto
qed

text \<open>What the casts rely on.\<close>

lemma call_finds_its_class:
  assumes "sched_reach sg cl rids0 w0 n rids w" "typed sg rids0 G0 (\<lambda>_. 0) (n * B) w0"
    and "q \<in> set (queues w)" "Function_Call f ci ti \<in> set q" "obj_ptr (ti_obj ti) w = Some i"
  shows "\<exists>x. payloads w i = Some x \<and> sg_obj sg x = Some (sg_call sg f)"
proof -
  obtain G where G: "world_ok sg G (\<lambda>_. 0) w" "G no_id = None"
    using reach_typed [OF assms(1), of G0 0] assms(2) typed_no_id [of sg rids _ "\<lambda>_. 0" 0 w] by (auto simp: typed_def)
  have m: "G (ti_obj ti) = Some (sg_call sg f)" using G(1) assms(3,4) by (force simp: world_ok_def)
  have i: "i = ti_obj ti" "payloads w i \<noteq> None" using G(1) assms(5) by (auto simp: world_ok_def pointers_ok_def)
  then show ?thesis using payloads_okD [of sg G "payloads w"] G m by (auto simp: world_ok_def)
qed

lemma slot_finds_its_class:
  assumes "sched_reach sg cl rids0 w0 n rids w" "typed sg rids0 G0 (\<lambda>_. 0) (n * B) w0"
    and "ctxs w c = Some ud" "sub_events ud ty = Some v" "Some info \<in> set v" "ev_event info = Some i"
    and "payloads w i = Some x"
  shows "sg_obj sg x = Some ty"
proof -
  obtain G where G: "world_ok sg G (\<lambda>_. 0) w" "G no_id = None"
    using reach_typed [OF assms(1), of G0 0] assms(2) typed_no_id [of sg rids _ "\<lambda>_. 0" 0 w] by (auto simp: typed_def)
  have "info_ok G ty (Some info)" using G(1) assms(3-5) by (auto simp: world_ok_def memory_ok_def slots_ok_def)
  then have "G i = Some ty" using assms(6) by (simp add: info_ok_def)
  then show ?thesis using payloads_okD [of sg G "payloads w"] G assms(7) by (simp add: world_ok_def)
qed

end

end
