(* ===== verification/Websocket.thy ===== *)
theory Websocket
  imports App_Types
begin

text \<open>
  \<^verbatim>\<open>WebsocketSocket\<close> (\<^verbatim>\<open>src/common/websocket_socket.{h,cpp}\<close>): frames for the browser.  A frame is
  built in a fresh buffer and handed to the socket class below; the reference decoder is the one
  of RFC 6455 for unmasked final binary frames.
\<close>

section \<open>Model\<close>

text \<open>The buffer \<^verbatim>\<open>w_buf_\<close>: its address and content, \<^verbatim>\<open>None\<close> for \<^verbatim>\<open>nullptr\<close>.\<close>

record ws_socket =
  ws_tls :: bool
  w_buf :: "(nat \<times> u8 list) option"
  w_len :: u64
  r_buf :: nat
  ws_writer :: u64

definition FIN :: u8 where "FIN = 0x80"
definition Binary :: u8 where "Binary = 2"

definition ws_new :: "bool \<Rightarrow> ws_socket" where
  "ws_new tls = \<lparr>ws_tls = tls, w_buf = None, w_len = 0, r_buf = 0, ws_writer = 0\<rparr>"

text \<open>Storing the low byte of an integer in a \<^verbatim>\<open>char\<close>: \<^verbatim>\<open>len >> k & 0xFF\<close>.\<close>

definition byte_at :: "nat \<Rightarrow> u64 \<Rightarrow> u8" where
  "byte_at k len = ucast (drop_bit k len AND 0xFF)"

definition frame_length :: "u64 \<Rightarrow> u64" where
  "frame_length len = 2 + (if 125 < len then if 65535 < len then 8 else 2 else 0) + len"

definition frame_header :: "u64 \<Rightarrow> u8 list" where
  "frame_header len =
     (if len \<le> 125 then [FIN OR Binary, ucast len]
      else if len \<le> 65535 then [FIN OR Binary, 0x7E, byte_at 8 len, byte_at 0 len]
      else [FIN OR Binary, 0x7F, 0, 0, 0, 0, byte_at 24 len, byte_at 16 len, byte_at 8 len, byte_at 0 len])"

text \<open>The buffer after the \<^verbatim>\<open>memcpy\<close> of the payload behind the header.\<close>

definition frame_bytes :: "u8 list \<Rightarrow> u8 list" where
  "frame_bytes payload = frame_header (word_of_nat (length payload)) @ payload"

definition ws_arm_write :: "ws_socket \<times> app_event \<Rightarrow> (ws_socket \<times> app_event) result" where
  "ws_arm_write = (\<lambda>(s, ev).
     let buf = (case w_buf s of None \<Rightarrow> 0 | Some (a, _) \<Rightarrow> a) in
     ebind (if ws_tls s then c_first TLSSocket (Tls_Write buf (w_len s)) ev
            else c_first ReadWriteBytes (Bytes_Write buf (w_len s)) ev)
       (\<lambda>(i, ev'). Inr (s\<lparr>ws_writer := i\<rparr>, ev')))"

text \<open>\<^verbatim>\<open>write_frame\<close>: \<open>addr\<close> is what \<^verbatim>\<open>new char[w_len_]\<close> returns, \<open>payload\<close> the \<^verbatim>\<open>len\<close> bytes at \<^verbatim>\<open>buf\<close>.
  \<^verbatim>\<open>write_frame2\<close> passes the text of a string.\<close>

definition write_frame ::
  "nat \<Rightarrow> u8 list \<Rightarrow> ws_socket \<times> app_event \<Rightarrow> (call_response \<times> ws_socket \<times> app_event) result"
where
  "write_frame addr payload = (\<lambda>(s, ev).
     let s' = s\<lparr>w_len := frame_length (word_of_nat (length payload)),
                w_buf := Some (addr, frame_bytes payload)\<rparr>
     in ebind (ws_arm_write (s', ev)) (\<lambda>(s'', ev').
          Inr (mk_response ''Websocket Write'' OP_HINT_WRITE, s'', ev')))"

definition write_frame2 ::
  "nat \<Rightarrow> u8 list \<Rightarrow> ws_socket \<times> app_event \<Rightarrow> (call_response \<times> ws_socket \<times> app_event) result"
where
  "write_frame2 addr str = write_frame addr str"

definition ws_read_frame :: "nat \<Rightarrow> ws_socket \<times> app_event \<Rightarrow> call_response \<times> ws_socket \<times> app_event" where
  "ws_read_frame buf = (\<lambda>(s, ev). (mk_response ''Websocket Read'' OP_HINT_READ, s\<lparr>r_buf := buf\<rparr>, ev))"

text \<open>\<^verbatim>\<open>arm_read\<close>, which nothing calls; without TLS it queues a write.\<close>

definition ws_arm_read :: "ws_socket \<times> app_event \<Rightarrow> (ws_socket \<times> app_event) result" where
  "ws_arm_read = (\<lambda>(s, ev).
     let buf = (case w_buf s of None \<Rightarrow> 0 | Some (a, _) \<Rightarrow> a) in
     ebind (if ws_tls s then c_first TLSSocket (Tls_Read buf (w_len s) False) ev
            else c_first ReadWriteBytes (Bytes_Write buf (w_len s)) ev)
       (\<lambda>(i, ev'). Inr (s\<lparr>ws_writer := i\<rparr>, ev')))"

fun ws_on_yield ::
  "cls event_type \<Rightarrow> ws_socket \<times> app_event \<Rightarrow> (yield \<times> ws_socket \<times> app_event) result"
where
  "ws_on_yield (ChildTaskCompletion _ _ _ rc) (s, ev) =
     (if rc \<le> 0 then Inr (Some (True, rc), s, ev)
      else Inr (Some (False, rc), s\<lparr>w_buf := None\<rparr>, ev))"
| "ws_on_yield _ _ = Inl Bad_Variant_Access"

section \<open>The reference decoder\<close>

definition be_value :: "u8 list \<Rightarrow> nat" where
  "be_value bs = foldl (\<lambda>a b. a * 256 + unat b) 0 bs"

text \<open>Payload and the bytes after the frame.\<close>

definition take_payload :: "nat \<Rightarrow> u8 list \<Rightarrow> (u8 list \<times> u8 list) option" where
  "take_payload n bs = (if n \<le> length bs then Some (take n bs, drop n bs) else None)"

fun decode_frame :: "u8 list \<Rightarrow> (u8 list \<times> u8 list) option" where
  "decode_frame (b0 # b1 # bs) =
     (if b0 \<noteq> FIN OR Binary \<or> 128 \<le> unat b1 then None
      else if unat b1 \<le> 125 then take_payload (unat b1) bs
      else if unat b1 = 126 then
        (if length bs < 2 then None else take_payload (be_value (take 2 bs)) (drop 2 bs))
      else (if length bs < 8 then None else take_payload (be_value (take 8 bs)) (drop 8 bs)))"
| "decode_frame _ = None"

section \<open>Frames\<close>

lemma unat_byte_at: "unat (byte_at k w) = unat w div 2 ^ k mod 256"
proof -
  have "drop_bit k w AND 0xFF = take_bit 8 (drop_bit k w)"
    by (simp add: take_bit_eq_mask mask_eq_exp_minus_1)
  then have "unat (byte_at k w) = take_bit 8 (take_bit 8 (unat (drop_bit k w)))"
    by (simp add: byte_at_def unsigned_ucast_eq unsigned_take_bit_eq)
  also have "\<dots> = unat w div 2 ^ k mod 256"
    by (simp only: unat_drop_bit_eq take_bit_eq_mod) (simp add: drop_bit_eq_div)
  finally show ?thesis .
qed

lemma split_bytes2: "n < 65536 \<Longrightarrow> (n div 2 ^ 8 mod 256) * 256 + n mod 256 = (n :: nat)"
  by simp

lemma split_bytes4:
  "((n div 2 ^ 24 mod 256 * 256 + n div 2 ^ 16 mod 256) * 256 + n div 2 ^ 8 mod 256) * 256 + n mod 256
     = (n :: nat) mod 2 ^ 32"
proof -
  have "m mod 4294967296 = 16777216 * (m div 16777216 mod 256) + m mod 16777216"
    "m mod 16777216 = 65536 * (m div 65536 mod 256) + m mod 65536"
    "m mod 65536 = 256 * (m div 256 mod 256) + m mod 256" for m :: nat
    using mod_mult2_eq [of m 16777216 256] mod_mult2_eq [of m 65536 256] mod_mult2_eq [of m 256 256]
    by simp_all
  from this(1)[of n] this(2)[of n] this(3)[of n] show ?thesis by simp
qed

lemma word_len:
  assumes "n < 2 ^ 64" "k < 2 ^ 64"
  shows "unat (word_of_nat n :: u64) = n" "(word_of_nat n :: u64) \<le> word_of_nat k \<longleftrightarrow> n \<le> k"
  using assms by (simp_all add: word_le_nat_alt unsigned_of_nat take_bit_nat_eq_self)

text \<open>The payload length a frame announces.\<close>

definition announced :: "nat \<Rightarrow> nat" where
  "announced n = (if n \<le> 65535 then n else n mod 2 ^ 32)"

lemma frame_length_bytes:
  assumes "length payload + 10 < 2 ^ 64"
  shows "frame_length (word_of_nat (length payload)) = word_of_nat (length (frame_bytes payload))"
  using assms word_len(2) [of "length payload" 125] word_len(2) [of "length payload" 65535]
  by (simp add: frame_length_def frame_bytes_def frame_header_def flip: not_le)

lemma decode_frame_bytes:
  assumes "length payload < 2 ^ 64"
  shows "decode_frame (frame_bytes payload @ rest) = take_payload (announced (length payload)) (payload @ rest)"
proof -
  let ?n = "length payload" and ?w = "word_of_nat (length payload) :: u64"
  note le = word_len(2) [OF assms, of 125] word_len(2) [OF assms, of 65535] and n = word_len(1) [OF assms, of 0]
  consider "?n \<le> 125" | "125 < ?n" "?n \<le> 65535" | "65535 < ?n" by linarith
  then show ?thesis
  proof cases
    case 1
    have "unat (ucast ?w :: u8) = ?n"
      using 1 n by (simp add: unsigned_ucast_eq take_bit_nat_eq_self)
    then show ?thesis using 1 le by (simp add: frame_bytes_def frame_header_def announced_def)
  next
    case 2
    have "be_value [byte_at 8 ?w, byte_at 0 ?w] = ?n"
      using 2 n by (simp add: be_value_def unat_byte_at)
    then show ?thesis using 2 le
      by (simp add: frame_bytes_def frame_header_def announced_def)
  next
    case 3
    have "be_value [0, 0, 0, 0, byte_at 24 ?w, byte_at 16 ?w, byte_at 8 ?w, byte_at 0 ?w] = ?n mod 2 ^ 32"
      using n split_bytes4 [of ?n] by (simp add: be_value_def unat_byte_at)
    then show ?thesis using 3 le
      by (simp add: frame_bytes_def frame_header_def announced_def)
  qed
qed

section \<open>Properties\<close>

text \<open>
  C30: A frame of less than 4 GiB is read back by an RFC 6455 decoder as exactly the
  payload, with whatever follows the frame in the stream left over; \<^verbatim>\<open>w_len_\<close> is the length of the
  buffer that was filled.
\<close>

theorem frame_round_trip:
  assumes "length payload < 2 ^ 32"
  shows "decode_frame (frame_bytes payload @ rest) = Some (payload, rest) \<and>
    frame_length (word_of_nat (length payload)) = word_of_nat (length (frame_bytes payload))"
  using assms decode_frame_bytes [of payload rest] frame_length_bytes [of payload]
  by (simp add: announced_def take_payload_def)

lemma frame_round_trip_witness:
  "decode_frame (frame_bytes (replicate 130 7) @ [1, 2]) = Some (replicate 130 7, [1, 2])"
proof -
  have "length (replicate 130 (7 :: u8)) < 2 ^ 32" by simp
  from frame_round_trip [OF this, of "[1, 2]"] show ?thesis by simp
qed

text \<open>
  A frame of 4 GiB or more announces its length modulo 4 GiB: the decoder stops after
  that many bytes and takes the rest of the payload for the next frame.
\<close>

theorem long_frame_truncated:
  assumes "2 ^ 32 \<le> length payload" "length payload < 2 ^ 64"
  shows "decode_frame (frame_bytes payload @ rest) =
    Some (take (length payload mod 2 ^ 32) payload, drop (length payload mod 2 ^ 32) payload @ rest)"
proof -
  have "announced (length payload) = length payload mod 2 ^ 32" using assms by (simp add: announced_def)
  moreover have "length payload mod 2 ^ 32 \<le> length payload" by (rule mod_less_eq_dividend)
  ultimately show ?thesis
    using decode_frame_bytes [OF assms(2), of rest] by (simp add: take_payload_def del: take_append drop_append) simp
qed

lemma long_frame_truncated_witness:
  "map_option (length \<circ> fst) (decode_frame (frame_bytes (replicate (2 ^ 32 + 5) 0))) = Some 5"
proof -
  have len: "length (replicate (2 ^ 32 + 5) (0 :: u8)) = 2 ^ 32 + 5" by (rule length_replicate)
  have "(2 :: nat) ^ 32 \<le> 2 ^ 32 + 5" "(2 :: nat) ^ 32 + 5 < 2 ^ 64" "(2 ^ 32 + 5) mod 2 ^ 32 = (5 :: nat)"
    by simp_all
  then show ?thesis
    using long_frame_truncated [of "replicate (2 ^ 32 + 5) 0" "[]"] unfolding len
    by (simp only: append_Nil2) (simp only: option.map comp_def fst_conv length_take len min_def, simp)
qed

text \<open>
  \<^verbatim>\<open>write_frame\<close> queues one write of the whole frame on the socket class that carries the
  connection, TLS or plain; when there is none the call throws; and a finished write frees the
  buffer and reports the transferred bytes.
\<close>

theorem write_frame_queues:
  assumes "cl = (if ws_tls s then TLSSocket else ReadWriteBytes)"
    and "k < length (slots cl ev)" "slots cl ev ! k \<noteq> None" "\<forall>j < k. slots cl ev ! j = None"
    and "length payload + 10 < 2 ^ 64"
  shows "\<exists>s' ev'. write_frame addr payload (s, ev) = Inr (mk_response ''Websocket Write'' OP_HINT_WRITE, s', ev') \<and>
    w_buf s' = Some (addr, frame_bytes payload) \<and>
    function_q ev' = function_q ev @
      [\<lparr>qf_idx = cl, qf_vidx = k, qf_local_id = local_proc_id (uring_data ev),
        qf_fun = (if ws_tls s then Tls_Write else Bytes_Write) addr (word_of_nat (length (frame_bytes payload)))\<rparr>] \<and>
    (\<forall>rc > 0. ws_on_yield (ChildTaskCompletion c t st rc) (s', ev') = Inr (Some (False, rc), s'\<lparr>w_buf := None\<rparr>, ev'))"
proof -
  have v: "sub_events (uring_data ev) cl = Some (slots cl ev)"
    using assms(2) by (auto simp: slots_def map_at_def split: option.splits)
  have iw: "k < length xs \<Longrightarrow> xs ! k \<noteq> None \<Longrightarrow> \<forall>j < k. xs ! j = None \<Longrightarrow> index_where (\<lambda>e. e \<noteq> None) xs = k"
    for xs :: "event_info option list" and k
  proof (induction xs arbitrary: k)
    case (Cons x xs)
    then show ?case by (cases k) fastforce+
  qed simp
  have "index_where (\<lambda>e. e \<noteq> None) (slots cl ev) = k" using iw assms(2-4) by blast
  then have cf: "c_first cl f ev = Inr (c_at cl k f ev)" for f
    using v assms(2) by (simp add: c_first_def)
  show ?thesis
    using cf assms(1) frame_length_bytes [OF assms(5)]
    by (auto simp: write_frame_def ws_arm_write_def Let_def c_at_def)
qed

lemma write_frame_queues_witness:
  "\<exists>s' ev'. write_frame 4096 [1, 2, 3] (ws_new False, snd (construct_ev ReadWriteBytes False (Ctor_ReadWriteBytes [5]) (new_event empty_uring_data))) =
      Inr (mk_response ''Websocket Write'' OP_HINT_WRITE, s', ev') \<and>
    w_buf s' = Some (4096, [130, 3, 1, 2, 3]) \<and> length (function_q ev') = 1"
proof -
  let ?ev = "snd (construct_ev ReadWriteBytes False (Ctor_ReadWriteBytes [5]) (new_event empty_uring_data)) :: app_event"
  have sl: "slots ReadWriteBytes ?ev = [Some \<lparr>ev_locator = None, ev_event = None\<rparr>]" "function_q ?ev = []"
    by (simp_all add: construct_ev_def set_slots_def slots_def new_event_def empty_uring_data_def map_at_def Let_def)
  have "frame_bytes [1, 2, 3] = [130, 3, 1, 2, 3]" by code_simp
  then show ?thesis
    using write_frame_queues [of ReadWriteBytes "ws_new False" 0 ?ev "[1, 2, 3]" 4096] sl
    by (fastforce simp: ws_new_def)
qed

end
