(* ===== verification/Startup.thy ===== *)
theory Startup
  imports App_Types Scheduler "HOL-Library.Multiset"
begin

text \<open>
  Start of the server (\<^verbatim>\<open>src/localsoftware.cpp\<close>: \<^verbatim>\<open>setup_server_socket\<close>,
  \<^verbatim>\<open>setup_server_socket6\<close>, \<^verbatim>\<open>server_func\<close>; \<^verbatim>\<open>src/common/async_handler.cpp\<close>: the constructor of
  \<^verbatim>\<open>AsyncHandler\<close>).

  The operating system is a parameter: its answer to a system call may depend on all calls before.
  The model keeps the calls made with their answers.
\<close>

section \<open>System calls\<close>

datatype sockopt = SO_REUSEADDR | IPV6_V6ONLY

datatype sys_call =
    Sys_Socket bool
  | Sys_Setsockopt int sockopt
  | Sys_Bind int bool nat
  | Sys_Listen int int
  | Sys_Close int

type_synonym sys_trace = "(sys_call \<times> int) list"

type_synonym os = "sys_trace \<Rightarrow> sys_call \<Rightarrow> int"

definition sys :: "os \<Rightarrow> sys_call \<Rightarrow> sys_trace \<Rightarrow> int \<times> sys_trace" where
  "sys os c tr = (let r = os tr c in (r, tr @ [(c, r)]))"

text \<open>\<^verbatim>\<open>close(server_fd); return -1;\<close>\<close>

definition give_up :: "os \<Rightarrow> int \<Rightarrow> sys_trace \<Rightarrow> int \<times> sys_trace" where
  "give_up os fd tr = (- 1, snd (sys os (Sys_Close fd) tr))"

definition setup_server_socket6 :: "os \<Rightarrow> nat \<Rightarrow> sys_trace \<Rightarrow> int \<times> sys_trace" where
  "setup_server_socket6 os port tr =
     (let (fd, tr) = sys os (Sys_Socket True) tr in
      if fd = 0 then (- 1, tr) else
      let (r, tr) = sys os (Sys_Setsockopt fd SO_REUSEADDR) tr in
      if r \<noteq> 0 then give_up os fd tr else
      let (r, tr) = sys os (Sys_Setsockopt fd IPV6_V6ONLY) tr in
      if r \<noteq> 0 then give_up os fd tr else
      let (r, tr) = sys os (Sys_Bind fd True port) tr in
      if r < 0 then give_up os fd tr else
      let (r, tr) = sys os (Sys_Listen fd (- 1)) tr in
      if r < 0 then give_up os fd tr else (fd, tr))"

definition setup_server_socket :: "os \<Rightarrow> nat \<Rightarrow> sys_trace \<Rightarrow> int \<times> sys_trace" where
  "setup_server_socket os port tr =
     (let (fd, tr) = sys os (Sys_Socket False) tr in
      if fd = 0 then (- 1, tr) else
      let (r, tr) = sys os (Sys_Setsockopt fd SO_REUSEADDR) tr in
      if r \<noteq> 0 then give_up os fd tr else
      let (r, tr) = sys os (Sys_Bind fd False port) tr in
      if r < 0 then give_up os fd tr else
      let (r, tr) = sys os (Sys_Listen fd (- 1)) tr in
      if r < 0 then give_up os fd tr else (fd, tr))"

section \<open>Starting\<close>

definition SERVER_PORT :: nat where "SERVER_PORT = 8443"
definition HTTP_PORT :: nat where "HTTP_PORT = 80"
definition HTTPS_PORT :: nat where "HTTPS_PORT = 443"

text \<open>The local \<^verbatim>\<open>File\<close> objects are destroyed when the function returns, the last one first.\<close>

fun destroy_files :: "os \<Rightarrow> int list \<Rightarrow> sys_trace \<Rightarrow> sys_trace" where
  "destroy_files os [] tr = tr"
| "destroy_files os (fd # fds) tr = destroy_files os fds (if fd \<noteq> - 1 then snd (sys os (Sys_Close fd) tr) else tr)"

text \<open>The listening sockets in the order of the source, \<open>fds\<close> are those opened so far, the last one
  first.\<close>

fun open_sockets :: "os \<Rightarrow> (bool \<times> nat) list \<Rightarrow> int list \<Rightarrow> sys_trace \<Rightarrow> int list option \<times> sys_trace" where
  "open_sockets os [] fds tr = (Some (rev fds), tr)"
| "open_sockets os ((v6, port) # ps) fds tr =
     (let (fd, tr) = (if v6 then setup_server_socket6 os port tr else setup_server_socket os port tr) in
      if fd < 0 then (None, destroy_files os (fd # fds) tr) else open_sockets os ps (fd # fds) tr)"

definition server_sockets :: "(bool \<times> nat) list" where
  "server_sockets = [(False, SERVER_PORT), (True, SERVER_PORT), (True, HTTP_PORT), (False, HTTP_PORT),
     (False, HTTPS_PORT), (True, HTTPS_PORT)]"

text \<open>What the ring and OpenSSL answer to the constructor of \<^verbatim>\<open>AsyncHandler\<close>.\<close>

record tls_setup =
  ring_ok :: bool
  ctx_ok :: bool
  min_version_ok :: bool
  chain_ok :: bool
  key_ok :: bool

definition async_handler_new :: "tls_setup \<Rightarrow> nat \<Rightarrow> ('t, 'k, 'f, 'o) world result" where
  "async_handler_new a ts =
     (if 0 < ts \<and> \<not> ring_ok a then Inl (Runtime_Error ''Io_Uring ring init failed'')
      else if \<not> ctx_ok a then Inl (Runtime_Error ''Unable to create libssl context'')
      else if \<not> min_version_ok a then Inl (Runtime_Error ''Unable to set minimum TLS version to 1.2'')
      else if \<not> chain_ok a then Inl (Runtime_Error ''Unable to load certificate chain'')
      else if \<not> key_ok a then Inl (Runtime_Error ''Unable to load private key. Check for certificate / key mismatch.'')
      else Inr (init_world ts 0))"

text \<open>The function up to \<^verbatim>\<open>instance.start()\<close>: it returned early (none), threw, or the handler is ready
  to run.\<close>

definition server_func ::
  "os \<Rightarrow> tls_setup \<Rightarrow> (thread_ids \<times> (cls, ctor, member_call, 'o) world) result option \<times> sys_trace"
where
  "server_func os a =
     (case open_sockets os server_sockets [] [] of
        (None, tr) \<Rightarrow> (None, tr)
      | (Some fds, tr) \<Rightarrow>
          (let ws_fd = fds ! 0; ws6_fd = fds ! 1; http6_fd = fds ! 2; http_fd = fds ! 3;
               https_fd = fds ! 4; https6_fd = fds ! 5
           in (Some (ebind (async_handler_new a 1) (\<lambda>w.
                 ebind (initialize_root_event (Ctor_BandwidthMonitorAccept [ws_fd, ws6_fd] True ''/srv/bwith'')
                   Monitor_Init init_thread_ids w) (\<lambda>(r, w).
                 ebind (initialize_root_event (Ctor_LandingAccept [http_fd, http6_fd] False ''/srv/landing'')
                   Landing_Init r w) (\<lambda>(r, w).
                 initialize_root_event (Ctor_LandingAccept [https_fd, https6_fd] True ''/srv/landing'')
                   Landing_Init r w)))), tr)))"

section \<open>Descriptors opened and closed\<close>

definition fds_opened :: "sys_trace \<Rightarrow> int list" where
  "fds_opened tr = concat (map (\<lambda>(c, r). case c of Sys_Socket _ \<Rightarrow> if 0 \<le> r then [r] else [] | _ \<Rightarrow> []) tr)"

definition fds_closed :: "sys_trace \<Rightarrow> int list" where
  "fds_closed tr = concat (map (\<lambda>(c, r). case c of Sys_Close fd \<Rightarrow> if 0 \<le> fd then [fd] else [] | _ \<Rightarrow> []) tr)"

definition listening :: "sys_trace \<Rightarrow> int \<Rightarrow> bool \<Rightarrow> nat \<Rightarrow> bool" where
  "listening tr fd v6 port \<longleftrightarrow>
     (\<exists>r. (Sys_Bind fd v6 port, r) \<in> set tr \<and> 0 \<le> r) \<and> (\<exists>r. (Sys_Listen fd (- 1), r) \<in> set tr \<and> 0 \<le> r)"

text \<open>A call on a negative descriptor fails, and a new socket is never descriptor 0, which is standard
  input.\<close>

definition unix_os :: "os \<Rightarrow> bool" where
  "unix_os os \<longleftrightarrow> (\<forall>tr v6. os tr (Sys_Socket v6) \<noteq> 0) \<and> (\<forall>tr fd opt. fd < 0 \<longrightarrow> os tr (Sys_Setsockopt fd opt) \<noteq> 0)"

lemma fds_append [simp]:
  "fds_opened (tr @ tr') = fds_opened tr @ fds_opened tr'"
  "fds_closed (tr @ tr') = fds_closed tr @ fds_closed tr'"
  by (simp_all add: fds_opened_def fds_closed_def)

lemma fds_Cons [simp]:
  "fds_opened [] = []" "fds_closed [] = []"
  "fds_opened ((Sys_Socket b, r) # tr) = (if 0 \<le> r then r # fds_opened tr else fds_opened tr)"
  "fds_opened ((Sys_Setsockopt fd opt, r) # tr) = fds_opened tr" "fds_opened ((Sys_Bind fd b p, r) # tr) = fds_opened tr"
  "fds_opened ((Sys_Listen fd n, r) # tr) = fds_opened tr" "fds_opened ((Sys_Close fd, r) # tr) = fds_opened tr"
  "fds_closed ((Sys_Socket b, r) # tr) = fds_closed tr"
  "fds_closed ((Sys_Setsockopt fd opt, r) # tr) = fds_closed tr" "fds_closed ((Sys_Bind fd b p, r) # tr) = fds_closed tr"
  "fds_closed ((Sys_Listen fd n, r) # tr) = fds_closed tr"
  "fds_closed ((Sys_Close fd, r) # tr) = (if 0 \<le> fd then fd # fds_closed tr else fds_closed tr)"
  by (simp_all add: fds_opened_def fds_closed_def)

lemma listening_append: "listening tr fd v6 port \<Longrightarrow> listening (tr @ tr') fd v6 port"
  by (auto simp: listening_def)

definition setup_ok :: "bool \<Rightarrow> nat \<Rightarrow> sys_trace \<Rightarrow> int \<times> sys_trace \<Rightarrow> bool" where
  "setup_ok v6 port tr q \<longleftrightarrow> (\<exists>new. snd q = tr @ new \<and>
     (0 \<le> fst q \<and> fds_opened new = [fst q] \<and> fds_closed new = [] \<and> listening new (fst q) v6 port \<or>
      fst q = - 1 \<and> fds_closed new = fds_opened new))"

lemma setup_ok_both:
  assumes "unix_os os"
  shows "setup_ok True port tr (setup_server_socket6 os port tr)" "setup_ok False port tr (setup_server_socket os port tr)"
  using assms
  by (simp_all add: setup_ok_def setup_server_socket6_def setup_server_socket_def sys_def give_up_def unix_os_def Let_def
      listening_def not_less del: fds_append)

text \<open>Opening them all: either every socket listens, or everything opened was closed again.\<close>

lemma destroy_files_closes:
  "\<forall>fd \<in> set fds. 0 \<le> fd \<or> fd = - 1 \<Longrightarrow>
    \<exists>new. destroy_files os fds tr = tr @ new \<and> fds_opened new = [] \<and> fds_closed new = filter (\<lambda>fd. 0 \<le> fd) fds"
proof (induction fds arbitrary: tr)
  case (Cons fd fds)
  show ?case
    using Cons.IH [of "if fd \<noteq> - 1 then snd (sys os (Sys_Close fd) tr) else tr"] Cons.prems
    by (auto simp: sys_def Let_def split: if_splits)
qed simp

lemma open_sockets_all:
  assumes "unix_os os" "open_sockets os ps fds tr = (r, tr')" "\<forall>fd \<in> set fds. 0 \<le> fd"
  shows "\<exists>new. tr' = tr @ new \<and>
    (case r of
       Some out \<Rightarrow> \<exists>fds'. out = rev fds @ fds' \<and> fds_opened new = fds' \<and> fds_closed new = [] \<and>
         list_all2 (\<lambda>fd (v6, port). 0 \<le> fd \<and> listening tr' fd v6 port) fds' ps
     | None \<Rightarrow> mset (fds_closed new) = mset (fds_opened new) + mset fds)"
  using assms(2,3)
proof (induction ps arbitrary: fds tr)
  case Nil
  then show ?case by auto
next
  case (Cons p ps)
  obtain v6 port where p: "p = (v6, port)" by fastforce
  obtain fd tr1 where s: "(if v6 then setup_server_socket6 os port tr else setup_server_socket os port tr) = (fd, tr1)" by fastforce
  then have "setup_ok v6 port tr (fd, tr1)" using setup_ok_both [OF assms(1)] by (cases v6) metis+
  then obtain new where new: "tr1 = tr @ new" "0 \<le> fd \<and> fds_opened new = [fd] \<and> fds_closed new = [] \<and> listening new fd v6 port \<or>
      fd = - 1 \<and> fds_closed new = fds_opened new"
    by (auto simp: setup_ok_def)
  show ?case
  proof (cases "fd < 0")
    case True
    then have r: "r = None" "tr' = destroy_files os (fd # fds) tr1" using Cons.prems(1) p s by auto
    obtain new' where "tr' = tr1 @ new'" "fds_opened new' = []" "fds_closed new' = filter (\<lambda>fd. 0 \<le> fd) (fd # fds)"
      using destroy_files_closes [of "fd # fds" os tr1] True new(2) Cons.prems(2) r(2) by force
    moreover have "filter (\<lambda>fd. 0 \<le> fd) (fd # fds) = fds" using True Cons.prems(2) by simp
    ultimately show ?thesis using r(1) new True by auto
  next
    case False
    then have "open_sockets os ps (fd # fds) tr1 = (r, tr')" using Cons.prems(1) p s by auto
    from Cons.IH [OF this] obtain new' where n': "tr' = tr1 @ new'"
      "case r of
         Some out \<Rightarrow> \<exists>fds'. out = rev (fd # fds) @ fds' \<and> fds_opened new' = fds' \<and> fds_closed new' = [] \<and>
           list_all2 (\<lambda>fd (v6, port). 0 \<le> fd \<and> listening tr' fd v6 port) fds' ps
       | None \<Rightarrow> mset (fds_closed new') = mset (fds_opened new') + mset (fd # fds)"
      using False Cons.prems(2) by auto
    have l: "listening tr' fd v6 port" using new False n'(1) by (auto simp: listening_def)
    show ?thesis
    proof (cases r)
      case None
      then show ?thesis using n' new False by auto
    next
      case (Some out)
      then show ?thesis using n' new False l p by auto
    qed
  qed
qed

section \<open>Properties\<close>

text \<open>
  C39: When \<^verbatim>\<open>server_func\<close> gives up, every socket it opened has been closed, as often as it was
  opened; when it goes on, nothing was closed and the six sockets listen, in the order of the source,
  on their ports and in their address families.
\<close>

theorem startup_all_or_nothing:
  assumes "unix_os os" "server_func os a = (r, tr)"
  shows "case r of
      None \<Rightarrow> mset (fds_closed tr) = mset (fds_opened tr)
    | Some _ \<Rightarrow> fds_closed tr = [] \<and>
        list_all2 (\<lambda>fd (v6, port). 0 \<le> fd \<and> listening tr fd v6 port) (fds_opened tr) server_sockets"
proof -
  obtain q where q: "open_sockets os server_sockets [] [] = (q, tr)" "q = None \<longleftrightarrow> r = None"
    using assms(2) by (auto simp: server_func_def Let_def split: prod.splits option.splits)
  then show ?thesis
    using open_sockets_all [OF assms(1) q(1)] by (cases q) auto
qed

lemma server_queue:
  "ebind (initialize_root_event k1 f1 init_thread_ids (init_world 1 0)) (\<lambda>(r, w).
   ebind (initialize_root_event k2 f2 r w) (\<lambda>(r, w). initialize_root_event k3 f3 r w)) = Inr (rids, w) \<Longrightarrow>
   queues w = [[Root_Start (Root_Ctor k1) f1 \<lparr>ti_obj = 0, ti_proc = 0\<rparr>,
     Root_Start (Root_Ctor k2) f2 \<lparr>ti_obj = 1, ti_proc = 1\<rparr>, Root_Start (Root_Ctor k3) f3 \<lparr>ti_obj = 2, ti_proc = 2\<rparr>]]"
  by (auto simp: initialize_root_event_def push_msg_def root_get_obj_id_def root_get_proc_id_def root_take_id_def
      init_world_def init_thread_ids_def init_cursor_def init_blocks_def upd_at_def Let_def)

text \<open>
  Once the handler is ready, the queue of its one thread holds exactly the starts of the
  monitor on port 8443 and of the landing servers on ports 80 and 443, in this order and under distinct
  ids, each with its IPv4 socket first and its IPv6 socket second, as \<^verbatim>\<open>queue_accept\<close> expects them.
\<close>

theorem server_starts:
  fixes w :: "(cls, ctor, member_call, 'o) world"
  assumes "unix_os os" "server_func os a = (Some (Inr (rids, w)), tr)"
  shows "\<exists>m4 m6 h4 h6 s4 s6.
    queues w =
      [[Root_Start (Root_Ctor (Ctor_BandwidthMonitorAccept [m4, m6] True ''/srv/bwith'')) Monitor_Init \<lparr>ti_obj = 0, ti_proc = 0\<rparr>,
        Root_Start (Root_Ctor (Ctor_LandingAccept [h4, h6] False ''/srv/landing'')) Landing_Init \<lparr>ti_obj = 1, ti_proc = 1\<rparr>,
        Root_Start (Root_Ctor (Ctor_LandingAccept [s4, s6] True ''/srv/landing'')) Landing_Init \<lparr>ti_obj = 2, ti_proc = 2\<rparr>]] \<and>
    listening tr m4 False 8443 \<and> listening tr m6 True 8443 \<and> listening tr h4 False 80 \<and> listening tr h6 True 80 \<and>
    listening tr s4 False 443 \<and> listening tr s6 True 443"
proof -
  obtain fds where q: "open_sockets os server_sockets [] [] = (Some fds, tr)"
    using assms(2) by (auto simp: server_func_def Let_def split: prod.splits option.splits)
  then obtain m4 m6 h6 h4 s4 s6 where fds: "fds = [m4, m6, h6, h4, s4, s6]"
    "listening tr m4 False 8443" "listening tr m6 True 8443" "listening tr h6 True 80" "listening tr h4 False 80"
    "listening tr s4 False 443" "listening tr s6 True 443"
    using open_sockets_all [OF assms(1) q]
    by (auto simp: server_sockets_def SERVER_PORT_def HTTP_PORT_def HTTPS_PORT_def list_all2_Cons2)
  have "async_handler_new a 1 = (Inr (init_world 1 0) :: (cls, ctor, member_call, 'o) world result)"
    using assms(2) q by (auto simp: server_func_def async_handler_new_def Let_def split: if_splits)
  then have "queues w =
      [[Root_Start (Root_Ctor (Ctor_BandwidthMonitorAccept [m4, m6] True ''/srv/bwith'')) Monitor_Init \<lparr>ti_obj = 0, ti_proc = 0\<rparr>,
        Root_Start (Root_Ctor (Ctor_LandingAccept [h4, h6] False ''/srv/landing'')) Landing_Init \<lparr>ti_obj = 1, ti_proc = 1\<rparr>,
        Root_Start (Root_Ctor (Ctor_LandingAccept [s4, s6] True ''/srv/landing'')) Landing_Init \<lparr>ti_obj = 2, ti_proc = 2\<rparr>]]"
    using assms(2) q fds(1) by (intro server_queue) (simp add: server_func_def)
  then show ?thesis using fds by blast
qed

text \<open>Descriptors are given out from 3; the second system fails to bind port 443.\<close>

definition demo_os :: "nat list \<Rightarrow> os" where
  "demo_os busy = (\<lambda>tr c. case c of
       Sys_Socket _ \<Rightarrow> 3 + int (length (fds_opened tr))
     | Sys_Setsockopt fd _ \<Rightarrow> if fd < 0 then - 1 else 0
     | Sys_Bind fd _ port \<Rightarrow> if port \<in> set busy then - 1 else 0
     | _ \<Rightarrow> 0)"

lemma demo_os_unix: "unix_os (demo_os busy)"
  by (simp add: unix_os_def demo_os_def)

lemma startup_all_or_nothing_witness:
  "\<exists>tr. server_func (demo_os [443]) \<lparr>ring_ok = True, ctx_ok = True, min_version_ok = True, chain_ok = True, key_ok = True\<rparr> =
      (None :: (thread_ids \<times> (cls, ctor, member_call, unit) world) result option, tr) \<and>
    length (fds_opened tr) = 5 \<and> mset (fds_closed tr) = mset (fds_opened tr)"
proof -
  let ?a = "\<lparr>ring_ok = True, ctx_ok = True, min_version_ok = True, chain_ok = True, key_ok = True\<rparr>"
  obtain tr where tr: "server_func (demo_os [443]) ?a =
      (None :: (thread_ids \<times> (cls, ctor, member_call, unit) world) result option, tr)" "length (fds_opened tr) = 5"
    by (simp add: server_func_def server_sockets_def demo_os_def setup_server_socket_def setup_server_socket6_def
        SERVER_PORT_def HTTP_PORT_def HTTPS_PORT_def sys_def give_up_def Let_def)
  show ?thesis using startup_all_or_nothing [OF demo_os_unix tr(1)] tr by auto
qed

lemma server_starts_witness:
  "\<exists>rids (w :: (cls, ctor, member_call, unit) world) tr.
    server_func (demo_os []) \<lparr>ring_ok = True, ctx_ok = True, min_version_ok = True, chain_ok = True, key_ok = True\<rparr> =
      (Some (Inr (rids, w)), tr) \<and> length (queues w ! 0) = 3"
proof -
  let ?a = "\<lparr>ring_ok = True, ctx_ok = True, min_version_ok = True, chain_ok = True, key_ok = True\<rparr>"
  obtain rids and w :: "(cls, ctor, member_call, unit) world" and tr where
    "server_func (demo_os []) ?a = (Some (Inr (rids, w)), tr)"
    by (simp add: server_func_def server_sockets_def demo_os_def setup_server_socket_def setup_server_socket6_def
        SERVER_PORT_def HTTP_PORT_def HTTPS_PORT_def sys_def give_up_def Let_def async_handler_new_def
        initialize_root_event_def push_msg_def init_world_def split_beta)
  with server_starts [OF demo_os_unix this] show ?thesis by auto
qed

end
