(* ===== verification/Program.thy ===== *)
theory Program
  imports Sched_Types Websocket Tls Startup Monitor
begin

text \<open>
  The whole server: the scheduler of \<open>Scheduler\<close> with the program's own classes in place of its
  parameter \<open>cl\<close>.  \<^verbatim>\<open>static_pointer_cast<Obj>(ptr)->fun(id, args...)\<close>, the closure that \<^verbatim>\<open>Event::c\<close> and
  \<^verbatim>\<open>initialize_root_event\<close> make (\<^verbatim>\<open>src/common/event.t.cpp\<close>, \<^verbatim>\<open>src/common/async_handler.t.cpp\<close>), is a
  dispatch on the member call and the object found there: when the object is of another class the
  behaviour is undefined.  That this never happens is proved here, by interpreting the contract of
  \<open>Sched_Types\<close> on the classes.
\<close>

section \<open>Objects and environment\<close>

text \<open>The members of an object besides its \<^verbatim>\<open>Event\<close> base; \<open>P_Visits\<close> is the singleton \<^verbatim>\<open>VisitStats\<close>, kept
  under \<open>no_id\<close>.\<close>

datatype ('b, 'p, 'ssl) payload =
    P_Bytes rw_bytes
  | P_Tls "'ssl tls"
  | P_Http "('b, 'p) http_io"
  | P_Ws ws_socket
  | P_Timer data_timer
  | P_Landing_Server landing_server
  | P_Landing_Accept landing_accept
  | P_Monitor_Server monitor_server
  | P_Monitor_Accept monitor_accept
  | P_Visits visits

type_synonym ('b, 'p, 'ssl) heap = "u64 \<rightharpoonup> ('b, 'p, 'ssl) payload"

text \<open>
  What the bodies find outside while one of them runs: Beast and OpenSSL, the file system, the answers
  of the HTTP manager a connection was given (by the connection's id), what the monitor reads, the
  next SSL object (none: \<^verbatim>\<open>SSL_new\<close> fails), the memory, the addresses of new blocks and members, and a
  timer descriptor.
\<close>

record ('b, 'p, 'z, 'ssl) prog_env =
  pe_http :: "('b, 'p, 'z) http_lib"
  pe_ssl :: "'ssl ssl_lib"
  pe_fs :: filesys
  pe_answer :: "u64 \<Rightarrow> http_request \<Rightarrow> visits \<Rightarrow> http_response \<times> visits"
  pe_mon :: "'p mon_env"
  pe_new_ssl :: "'ssl option"
  pe_mem :: memory
  pe_addr :: nat
  pe_addr2 :: nat
  pe_timerfd :: int

fun ctor_cls :: "ctor \<Rightarrow> cls" where
  "ctor_cls (Ctor_ReadWriteBytes _) = ReadWriteBytes"
| "ctor_cls (Ctor_TLSSocket _ _) = TLSSocket"
| "ctor_cls (Ctor_ReadWriteHTTP _ _) = ReadWriteHTTP"
| "ctor_cls (Ctor_WebsocketSocket _) = WebsocketSocket"
| "ctor_cls Ctor_BandwidthDataTimer = BandwidthDataTimer"
| "ctor_cls (Ctor_AioLandingHTTP _ _) = AioLandingHTTP"
| "ctor_cls (Ctor_BandwidthMonitoringServer _ _) = BandwidthMonitoringServer"
| "ctor_cls (Ctor_LandingAccept _ _ _) = LandingAccept"
| "ctor_cls (Ctor_BandwidthMonitorAccept _ _ _) = BandwidthMonitorAccept"

fun call_cls :: "member_call \<Rightarrow> cls" where
  "call_cls (Bytes_Read _ _ _) = ReadWriteBytes"
| "call_cls (Bytes_Write _ _) = ReadWriteBytes"
| "call_cls (Tls_Read _ _ _) = TLSSocket"
| "call_cls (Tls_Write _ _) = TLSSocket"
| "call_cls Read_Http = ReadWriteHTTP"
| "call_cls (Write_Http _) = ReadWriteHTTP"
| "call_cls (Write_Frame _ _) = WebsocketSocket"
| "call_cls (Write_Frame2 _) = WebsocketSocket"
| "call_cls Landing_Start = AioLandingHTTP"
| "call_cls Monitor_Start = BandwidthMonitoringServer"
| "call_cls Prepare_Timer = BandwidthDataTimer"
| "call_cls Landing_Init = LandingAccept"
| "call_cls Monitor_Init = BandwidthMonitorAccept"

fun obj_cls :: "('b, 'p, 'ssl) payload \<Rightarrow> cls option" where
  "obj_cls (P_Bytes _) = Some ReadWriteBytes"
| "obj_cls (P_Tls _) = Some TLSSocket"
| "obj_cls (P_Http _) = Some ReadWriteHTTP"
| "obj_cls (P_Ws _) = Some WebsocketSocket"
| "obj_cls (P_Timer _) = Some BandwidthDataTimer"
| "obj_cls (P_Landing_Server _) = Some AioLandingHTTP"
| "obj_cls (P_Landing_Accept _) = Some LandingAccept"
| "obj_cls (P_Monitor_Server _) = Some BandwidthMonitoringServer"
| "obj_cls (P_Monitor_Accept _) = Some BandwidthMonitorAccept"
| "obj_cls (P_Visits _) = None"

definition prog_sig :: "(cls, ctor, member_call, ('b, 'p, 'ssl) payload) signature" where
  "prog_sig = \<lparr>sg_ctor = ctor_cls, sg_call = call_cls, sg_obj = obj_cls\<rparr>"

section \<open>The bodies\<close>

definition the_visits :: "('b, 'p, 'ssl) heap \<Rightarrow> visits" where
  "the_visits os = (case os no_id of Some (P_Visits vs) \<Rightarrow> vs | _ \<Rightarrow> [])"

fun prog_construct ::
  "('b, 'p, 'z, 'ssl) prog_env \<Rightarrow> ctor \<Rightarrow> ('b, 'p, 'ssl) heap \<Rightarrow> app_event \<Rightarrow>
    (('b, 'p, 'ssl) payload \<times> ('b, 'p, 'ssl) heap \<times> app_event) result"
where
  "prog_construct en (Ctor_ReadWriteBytes fs) os ev = Inr (P_Bytes (bytes_new fs), os, ev)"
| "prog_construct en (Ctor_TLSSocket fs srv) os ev =
     (case pe_new_ssl en of
        None \<Rightarrow> Inl (Runtime_Error ''Failed to create ssl object'')
      | Some ssl \<Rightarrow> (let (s, ev') = tls_new fs srv ssl (pe_addr en) (pe_addr2 en) (pe_mem en) ev in Inr (P_Tls s, os, ev')))"
| "prog_construct en (Ctor_ReadWriteHTTP fs tls_on) os ev =
     (let (s, ev') = http_new (pe_http en) fs tls_on ev in Inr (P_Http s, os, ev'))"
| "prog_construct en (Ctor_WebsocketSocket tls_on) os ev = Inr (P_Ws (ws_new tls_on), os, ev)"
| "prog_construct en Ctor_BandwidthDataTimer os ev = Inr (P_Timer (timer_new (pe_timerfd en) (pe_addr en)), os, ev)"
| "prog_construct en (Ctor_AioLandingHTTP fs tls_on) os ev =
     (let (s, ev') = server_new fs tls_on ev in Inr (P_Landing_Server s, os, ev'))"
| "prog_construct en (Ctor_BandwidthMonitoringServer fs tls_on) os ev =
     (let (s, ev') = monitor_new fs tls_on (pe_addr en) (pe_addr2 en) ev in Inr (P_Monitor_Server s, os, ev'))"
| "prog_construct en (Ctor_LandingAccept fs tls_on dir) os ev =
     ebind (landing_new (pe_fs en) (me_beast (pe_mon en)) fs tls_on dir (the_visits os)) (\<lambda>(s, vs).
       Inr (P_Landing_Accept s, os(no_id \<mapsto> P_Visits vs), ev))"
| "prog_construct en (Ctor_BandwidthMonitorAccept fs tls_on dir) os ev =
     ebind (monitor_accept_new (pe_fs en) fs tls_on dir (the_visits os)) (\<lambda>(s, vs).
       Inr (P_Monitor_Accept s, os(no_id \<mapsto> P_Visits vs), ev))"

text \<open>Storing the object a member function leaves.\<close>

definition put_obj ::
  "('s \<Rightarrow> ('b, 'p, 'ssl) payload) \<Rightarrow> u64 \<Rightarrow> ('b, 'p, 'ssl) heap \<Rightarrow> ('r \<times> 's \<times> app_event) result \<Rightarrow>
    ('r \<times> ('b, 'p, 'ssl) heap \<times> app_event) result"
where
  "put_obj mk i os r = ebind r (\<lambda>(x, s, ev). Inr (x, os(i \<mapsto> mk s), ev))"

text \<open>\<^verbatim>\<open>static_pointer_cast<Obj>\<close>: only an object of the class may be used as one.\<close>

definition as_bytes :: "('b, 'p, 'ssl) payload \<Rightarrow> rw_bytes result" where
  "as_bytes x = (case x of P_Bytes s \<Rightarrow> Inr s | _ \<Rightarrow> Inl Undefined_Behaviour)"

definition as_tls :: "('b, 'p, 'ssl) payload \<Rightarrow> ('ssl tls) result" where
  "as_tls x = (case x of P_Tls s \<Rightarrow> Inr s | _ \<Rightarrow> Inl Undefined_Behaviour)"

definition as_http :: "('b, 'p, 'ssl) payload \<Rightarrow> (('b, 'p) http_io) result" where
  "as_http x = (case x of P_Http s \<Rightarrow> Inr s | _ \<Rightarrow> Inl Undefined_Behaviour)"

definition as_ws :: "('b, 'p, 'ssl) payload \<Rightarrow> ws_socket result" where
  "as_ws x = (case x of P_Ws s \<Rightarrow> Inr s | _ \<Rightarrow> Inl Undefined_Behaviour)"

definition as_timer :: "('b, 'p, 'ssl) payload \<Rightarrow> data_timer result" where
  "as_timer x = (case x of P_Timer s \<Rightarrow> Inr s | _ \<Rightarrow> Inl Undefined_Behaviour)"

definition as_landing_server :: "('b, 'p, 'ssl) payload \<Rightarrow> landing_server result" where
  "as_landing_server x = (case x of P_Landing_Server s \<Rightarrow> Inr s | _ \<Rightarrow> Inl Undefined_Behaviour)"

definition as_landing_accept :: "('b, 'p, 'ssl) payload \<Rightarrow> landing_accept result" where
  "as_landing_accept x = (case x of P_Landing_Accept s \<Rightarrow> Inr s | _ \<Rightarrow> Inl Undefined_Behaviour)"

definition as_monitor_server :: "('b, 'p, 'ssl) payload \<Rightarrow> monitor_server result" where
  "as_monitor_server x = (case x of P_Monitor_Server s \<Rightarrow> Inr s | _ \<Rightarrow> Inl Undefined_Behaviour)"

definition as_monitor_accept :: "('b, 'p, 'ssl) payload \<Rightarrow> monitor_accept result" where
  "as_monitor_accept x = (case x of P_Monitor_Accept s \<Rightarrow> Inr s | _ \<Rightarrow> Inl Undefined_Behaviour)"

fun prog_call ::
  "('b, 'p, 'z, 'ssl) prog_env \<Rightarrow> member_call \<Rightarrow> u64 \<Rightarrow> u64 \<Rightarrow> ('b, 'p, 'ssl) payload \<Rightarrow> ('b, 'p, 'ssl) heap \<Rightarrow> app_event \<Rightarrow>
    (call_response \<times> ('b, 'p, 'ssl) heap \<times> app_event) result"
where
  "prog_call en (Bytes_Read buf len al) i pid x os ev =
     ebind (as_bytes x) (\<lambda>s. put_obj P_Bytes i os (bytes_read buf len al (s, ev)))"
| "prog_call en (Bytes_Write buf len) i pid x os ev =
     ebind (as_bytes x) (\<lambda>s. put_obj P_Bytes i os (bytes_write buf len (s, ev)))"
| "prog_call en (Tls_Read buf len al) i pid x os ev =
     ebind (as_tls x) (\<lambda>s. put_obj P_Tls i os (of_run (tls_read (pe_ssl en) pid buf len al (s, ev))))"
| "prog_call en (Tls_Write buf len) i pid x os ev =
     ebind (as_tls x) (\<lambda>s. put_obj P_Tls i os (tls_write (pe_ssl en) pid buf len (s, ev)))"
| "prog_call en Read_Http i pid x os ev =
     ebind (as_http x) (\<lambda>s. put_obj P_Http i os (read_http (pe_http en) (s, ev)))"
| "prog_call en (Write_Http resp) i pid x os ev =
     ebind (as_http x) (\<lambda>s. put_obj P_Http i os (of_run (write_http (pe_http en) resp (s, ev))))"
| "prog_call en (Write_Frame a len) i pid x os ev =
     ebind (as_ws x) (\<lambda>s. put_obj P_Ws i os (write_frame (pe_addr en) (load_bytes a (unat len) (pe_mem en)) (s, ev)))"
| "prog_call en (Write_Frame2 str) i pid x os ev =
     ebind (as_ws x) (\<lambda>s. put_obj P_Ws i os (write_frame2 (pe_addr en) str (s, ev)))"
| "prog_call en Landing_Start i pid x os ev =
     ebind (as_landing_server x) (\<lambda>s. put_obj P_Landing_Server i os (server_start (s, ev)))"
| "prog_call en Monitor_Start i pid x os ev =
     ebind (as_monitor_server x) (\<lambda>s. put_obj P_Monitor_Server i os (monitor_start (s, ev)))"
| "prog_call en Prepare_Timer i pid x os ev =
     ebind (as_timer x) (\<lambda>s. put_obj P_Timer i os (prepare_timer (s, ev)))"
| "prog_call en Landing_Init i pid x os ev =
     ebind (as_landing_accept x) (\<lambda>s. put_obj P_Landing_Accept i os (landing_init pid (s, ev)))"
| "prog_call en Monitor_Init i pid x os ev =
     ebind (as_monitor_accept x) (\<lambda>s. put_obj P_Monitor_Accept i os (monitor_init (s, ev)))"

text \<open>The HTTP objects, which \<^verbatim>\<open>direct_access\<close> reaches, and the heap with their new members.\<close>

definition http_objs :: "('b, 'p, 'ssl) heap \<Rightarrow> u64 \<rightharpoonup> ('b, 'p) http_io" where
  "http_objs os = (\<lambda>i. case os i of Some (P_Http h) \<Rightarrow> Some h | _ \<Rightarrow> None)"

definition with_http :: "(u64 \<rightharpoonup> ('b, 'p) http_io) \<Rightarrow> ('b, 'p, 'ssl) heap \<Rightarrow> ('b, 'p, 'ssl) heap" where
  "with_http objs os = (\<lambda>i. case objs i of Some h \<Rightarrow> Some (P_Http h) | None \<Rightarrow> os i)"

text \<open>\<^verbatim>\<open>on_yield\<close> is virtual: the object found decides.\<close>

fun prog_yield ::
  "('b, 'p, 'z, 'ssl) prog_env \<Rightarrow> cls event_type \<Rightarrow> u64 \<Rightarrow> ('b, 'p, 'ssl) payload \<Rightarrow> ('b, 'p, 'ssl) heap \<Rightarrow> app_event \<Rightarrow>
    (yield \<times> ('b, 'p, 'ssl) heap \<times> app_event) result"
where
  "prog_yield en d i (P_Bytes s) os ev = put_obj P_Bytes i os (bytes_on_yield d (s, ev))"
| "prog_yield en d i (P_Tls s) os ev = put_obj P_Tls i os (of_run (tls_on_yield (pe_ssl en) d (s, ev)))"
| "prog_yield en d i (P_Http s) os ev = put_obj P_Http i os (of_run (http_on_yield (pe_http en) d (s, ev)))"
| "prog_yield en d i (P_Ws s) os ev = put_obj P_Ws i os (ws_on_yield d (s, ev))"
| "prog_yield en d i (P_Timer s) os ev = put_obj P_Timer i os (Inr (data_timer_on_yield d (s, ev)))"
| "prog_yield en d i (P_Landing_Accept s) os ev = put_obj P_Landing_Accept i os (landing_on_yield d (s, ev))"
| "prog_yield en d i (P_Monitor_Accept s) os ev = put_obj P_Monitor_Accept i os (monitor_accept_on_yield d (s, ev))"
| "prog_yield en d i (P_Landing_Server s) os ev =
     ebind (server_on_yield (pe_answer en i) (me_get (pe_mon en)) d (s, ev, http_objs os, the_visits os)) (\<lambda>(y, s', ev', objs, vs).
       Inr (y, (with_http objs os)(i \<mapsto> P_Landing_Server s', no_id \<mapsto> P_Visits vs), ev'))"
| "prog_yield en d i (P_Monitor_Server s) os ev =
     ebind (monitor_on_yield ((pe_mon en)\<lparr>me_answer := pe_answer en i\<rparr>) d (s, ev, http_objs os, the_visits os)) (\<lambda>(y, s', ev', objs, vs).
       Inr (y, (with_http objs os)(i \<mapsto> P_Monitor_Server s', no_id \<mapsto> P_Visits vs), ev'))"
| "prog_yield en d i (P_Visits vs) os ev = Inl Undefined_Behaviour"

definition prog_classes ::
  "('b, 'p, 'z, 'ssl) prog_env \<Rightarrow> (cls, ctor, member_call, ('b, 'p, 'ssl) payload) classes"
where
  "prog_classes en =
     \<lparr>cl_construct = (\<lambda>k i os ev. prog_construct en k os ev),
      cl_invoke = (\<lambda>f i pid os ev. case os i of
        None \<Rightarrow> Inl Undefined_Behaviour | Some x \<Rightarrow> prog_call en f i pid x os ev),
      cl_yield = (\<lambda>d i os ev. case os i of
        None \<Rightarrow> Inl Undefined_Behaviour | Some x \<Rightarrow> prog_yield en d i x os ev)\<rparr>"


section \<open>The bodies keep the contract\<close>

lemma prog_sig_simps [simp]:
  "sg_ctor prog_sig = ctor_cls" "sg_call prog_sig = call_cls" "sg_obj prog_sig = obj_cls"
  by (simp_all add: prog_sig_def)

abbreviation prog_ev_ok :: "nat \<Rightarrow> app_event \<Rightarrow> app_event \<Rightarrow> bool" where
  "prog_ev_ok n \<equiv> ev_ok (prog_sig :: (cls, ctor, member_call, (unit, unit, unit) payload) signature) n"

text \<open>The contract on events does not depend on the library types.\<close>

lemma ev_ok_prog:
  "prog_ev_ok n ev ev' \<Longrightarrow> ev_ok (prog_sig :: (cls, ctor, member_call, ('b, 'p, 'ssl) payload) signature) n ev ev'"
  unfolding ev_ok_def queues_ok_def prog_sig_simps .

lemma prog_c_first: "c_first ty f ev = Inr (i, ev') \<Longrightarrow> call_cls f = ty \<Longrightarrow> prog_ev_ok n ev ev'"
  by (erule ev_ok_c_first) simp

lemma prog_construct_ev:
  "construct_ev ty sh k ev = (i, ev') \<Longrightarrow> ctor_cls k = ty \<Longrightarrow> 0 < n \<Longrightarrow> prog_ev_ok n ev ev'"
  by (erule ev_ok_construct) simp_all

lemma prog_construct_snd: "ctor_cls k = ty \<Longrightarrow> 0 < n \<Longrightarrow> prog_ev_ok n ev (snd (construct_ev ty sh k ev))"
  by (metis prod.collapse prog_construct_ev)

lemmas prog_trans = ev_ok_0_trans [of "prog_sig :: (cls, ctor, member_call, (unit, unit, unit) payload) signature"]

lemma bytes_calls_ok:
  "bytes_read buf len al (s, ev) = Inr (r, s', ev') \<Longrightarrow> prog_ev_ok n ev ev'"
  "bytes_write buf len (s, ev) = Inr (r, s', ev') \<Longrightarrow> prog_ev_ok n ev ev'"
  "bytes_on_yield d (s, ev) = Inr (y, s', ev') \<Longrightarrow> prog_ev_ok n ev ev'"
  by (auto simp: bytes_read_def bytes_write_def Let_def ebind_Inr_iff intro: ev_ok_intros)
    (cases d; auto simp: prepare_read_def prepare_write_def Let_def ebind_Inr_iff intro: ev_ok_intros split: if_splits)

lemma ws_calls_ok:
  "write_frame a bs (s, ev) = Inr (r, s', ev') \<Longrightarrow> prog_ev_ok n ev ev'"
  "write_frame2 a bs (s, ev) = Inr (r, s', ev') \<Longrightarrow> prog_ev_ok n ev ev'"
  "ws_on_yield d (s, ev) = Inr (y, s', ev') \<Longrightarrow> prog_ev_ok n ev ev'"
  by (auto simp: write_frame2_def write_frame_def ws_arm_write_def Let_def ebind_Inr_iff
      intro: prog_c_first split: if_splits)
    (cases d; auto intro: ev_ok_intros split: if_splits)

lemma http_arms_ok:
  "http_arm_read hl (s, ev) = Inr (s', ev') \<Longrightarrow> prog_ev_ok n ev ev'"
  "http_arm_write hl (s, ev) = Inr (s', ev') \<Longrightarrow> prog_ev_ok n ev ev'"
  by (auto simp: http_arm_read_def http_arm_write_def Let_def ebind_Inr_iff
      intro: prog_c_first ev_ok_intros split: if_splits prod.splits)

lemma http_calls_ok:
  "read_http hl (s, ev) = Inr (r, s', ev') \<Longrightarrow> prog_ev_ok n ev ev'"
  "write_http hl resp (s, ev) = Some (Inr (r, s', ev')) \<Longrightarrow> prog_ev_ok n ev ev'"
  "http_on_yield hl d (s, ev) = Some (Inr (y, s', ev')) \<Longrightarrow> prog_ev_ok n ev ev'"
proof -
  show "read_http hl (s, ev) = Inr (r, s', ev') \<Longrightarrow> prog_ev_ok n ev ev'"
    by (auto simp: read_http_def ebind_Inr_iff intro: http_arms_ok)
  show "write_http hl resp (s, ev) = Some (Inr (r, s', ev')) \<Longrightarrow> prog_ev_ok n ev ev'"
    by (auto simp: write_http_def ebind_Inr_iff intro: http_arms_ok split: option.splits)
  have rd: "http_handle_read hl rc (s, ev) = Some (Inr (y, s', ev')) \<Longrightarrow> prog_ev_ok n ev ev'" for rc
    by (auto simp: http_handle_read_def rbind_def ebind_Inr_iff Let_def intro: http_arms_ok ev_ok_intros
        split: option.splits sum.splits if_splits)
  have wr: "http_handle_write hl rc (s, ev) = Inr (y, s', ev') \<Longrightarrow> prog_ev_ok n ev ev'" for rc
    by (auto simp: http_handle_write_def ebind_Inr_iff Let_def intro: http_arms_ok ev_ok_intros split: if_splits)
  show "http_on_yield hl d (s, ev) = Some (Inr (y, s', ev')) \<Longrightarrow> prog_ev_ok n ev ev'"
    by (cases d) (auto intro: rd wr ev_ok_intros split: if_splits)
qed

lemma tls_arms_ok:
  "tls_arm_read (s, ev) = Inr (s', ev') \<Longrightarrow> prog_ev_ok n ev ev'"
  "tls_arm_write sl (s, ev) = Inr (s', ev') \<Longrightarrow> prog_ev_ok n ev ev'"
  "tls_want_read sl (s, ev) = Inr (y, s', ev') \<Longrightarrow> prog_ev_ok n ev ev'"
proof -
  show r: "tls_arm_read (s, ev) = Inr (s', ev') \<Longrightarrow> prog_ev_ok n ev ev'" for s s' ev'
    by (auto simp: tls_arm_read_def ebind_Inr_iff intro: prog_c_first ev_ok_intros split: if_splits)
  show w: "tls_arm_write sl (s, ev) = Inr (s', ev') \<Longrightarrow> prog_ev_ok n ev ev'" for s s' ev'
    by (auto simp: tls_arm_write_def ebind_Inr_iff Let_def intro: prog_c_first ev_ok_intros split: if_splits prod.splits)
  show "tls_want_read sl (s, ev) = Inr (y, s', ev') \<Longrightarrow> prog_ev_ok n ev ev'"
    by (auto simp: tls_want_read_def ebind_Inr_iff intro: r w split: if_splits)
qed

lemma tls_first_contract: "tls_first sl (s, ev) = Inr (y, s', ev') \<Longrightarrow> prog_ev_ok n ev ev'"
  by (auto simp: tls_first_def tls_handshake_def Let_def intro: tls_arms_ok ev_ok_intros
      split: if_splits prod.splits)

lemma tls_read_loop_contract: "tls_read_loop sl s ev = Some (Inr (y, s', ev')) \<Longrightarrow> prog_ev_ok n ev ev'"
proof -
  have "\<forall>y s' ev'. r = Inr (y, s', ev') \<longrightarrow> prog_ev_ok n ev ev'" if "tls_read_loop sl s ev = Some r" for r
    using that
  proof (induct sl s ev r rule: tls_read_loop.raw_induct [rotated, consumes 1])
    case (1 loop sl s ev r)
    then show ?case
      by (auto simp: Let_def ebind_Inr_iff intro: tls_arms_ok ev_ok_intros split: prod.splits if_splits)
  qed
  then show "tls_read_loop sl s ev = Some (Inr (y, s', ev')) \<Longrightarrow> prog_ev_ok n ev ev'" by blast
qed

lemma tls_handles_ok:
  "tls_handle_read sl (s, ev) = Some (Inr (y, s', ev')) \<Longrightarrow> prog_ev_ok n ev ev'"
  "tls_handle_write sl (s, ev) = Inr (y, s', ev') \<Longrightarrow> prog_ev_ok n ev ev'"
  by (auto simp: tls_handle_read_def rbind_def intro: tls_first_contract prog_trans [OF tls_first_contract tls_read_loop_contract]
      split: option.splits sum.splits if_splits)
    (auto simp: tls_handle_write_def ebind_Inr_iff Let_def
      intro: tls_first_contract prog_trans [OF tls_first_contract tls_arms_ok(2)] prog_trans [OF tls_first_contract tls_arms_ok(3)]
      split: if_splits prod.splits)

lemma tls_calls_ok:
  "tls_read sl i buf len al (s, ev) = Some (Inr (r, s', ev')) \<Longrightarrow> prog_ev_ok n ev ev'"
  "tls_write sl i buf len (s, ev) = Inr (r, s', ev') \<Longrightarrow> prog_ev_ok n ev ev'"
  "tls_on_yield sl d (s, ev) = Some (Inr (y, s', ev')) \<Longrightarrow> prog_ev_ok n ev ev'"
  by (auto simp: tls_read_def rbind_def intro: tls_handles_ok split: option.splits sum.splits)
    (auto simp: tls_write_def ebind_Inr_iff intro: tls_handles_ok,
      cases d, auto simp: Let_def intro: tls_handles_ok ev_ok_intros split: if_splits)

lemma accept_calls_ok:
  "queue_accept fs o' ev = Inr ev' \<Longrightarrow> prog_ev_ok n ev ev'"
  "monitor_queue_accept fs o' ev = Inr ev' \<Longrightarrow> prog_ev_ok n ev ev'"
  "landing_init i (s, ev) = Inr (r, a, ev') \<Longrightarrow> prog_ev_ok n ev ev'"
  "monitor_init (t, ev) = Inr (r, b, ev') \<Longrightarrow> prog_ev_ok n ev ev'"
proof -
  show q: "queue_accept fs o' ev = Inr ev' \<Longrightarrow> prog_ev_ok n ev ev'" for n fs o' ev ev'
    by (auto simp: queue_accept_def ebind_Inr_iff intro: ev_ok_intros)
  show m: "monitor_queue_accept fs o' ev = Inr ev' \<Longrightarrow> prog_ev_ok n ev ev'" for n fs o' ev ev'
    by (auto simp: monitor_queue_accept_def ebind_Inr_iff intro: ev_ok_intros)
  show "landing_init i (s, ev) = Inr (r, a, ev') \<Longrightarrow> prog_ev_ok n ev ev'"
    by (auto simp: landing_init_def ebind_Inr_iff intro: prog_trans [OF q q])
  show "monitor_init (t, ev) = Inr (r, b, ev') \<Longrightarrow> prog_ev_ok n ev ev'"
    by (auto simp: monitor_init_def ebind_Inr_iff intro: prog_trans [OF m m])
qed

lemma prog_construct_call:
  assumes "construct_ev ty sh k ev = (i, ev1)" "c_at ty i f ev1 = (t, ev2)" "ctor_cls k = ty" "call_cls f = ty" "0 < n"
    and "prog_ev_ok 0 ev2 ev3"
  shows "prog_ev_ok n ev ev3"
proof -
  have "prog_ev_ok 0 ev1 ev2" by (rule ev_ok_c_at [OF assms(2)]) (simp add: assms(4))
  then have "prog_ev_ok 0 ev1 ev3" using assms(6) by (rule prog_trans)
  from ev_ok_trans [OF prog_construct_ev [OF assms(1,3,5)] this] show ?thesis by simp
qed

lemma accept_yields_ok:
  "landing_on_yield d (s, ev) = Inr (y, s', ev') \<Longrightarrow> 0 < n \<Longrightarrow> prog_ev_ok n ev ev'"
  "monitor_accept_on_yield d (t, ev) = Inr (y, t', ev') \<Longrightarrow> 0 < n \<Longrightarrow> prog_ev_ok n ev ev'"
  by (cases d; auto simp: Let_def ebind_Inr_iff intro: accept_calls_ok ev_ok_delete_child prog_construct_call
      split: prod.splits if_splits)+

lemma ev_ok_timer_snd: "ev_ok sg n ev (snd (timer ts ev))"
  by (metis prod.collapse ev_ok_timer)

lemma take_request_dom:
  "take_request g ev objs = Inr (q, objs') \<Longrightarrow> (\<forall>i. objs' i = None \<longleftrightarrow> objs i = None)"
proof -
  assume t: "take_request g ev objs = Inr (q, objs')"
  then obtain p where p: "direct_ref ReadWriteHTTP 0 ev = Inr p" by (auto simp: take_request_def ebind_Inr_iff)
  obtain i where i: "p = Some i" using t p by (cases p) (simp_all add: take_request_def)
  obtain h where h: "objs i = Some h" using t p i by (cases "objs i") (simp_all add: take_request_def)
  then show ?thesis
    using t p i by (cases "hi_parser h") (auto simp: take_request_def http_get_data_def split: if_splits)
qed

lemma server_calls_ok:
  "server_start (s, ev) = Inr (r, s', ev') \<Longrightarrow> prog_ev_ok n ev ev'"
  "server_on_yield an g d (s, ev, objs, vs) = Inr (y, s', ev', objs', vs') \<Longrightarrow> prog_ev_ok n ev ev' \<and> (\<forall>i. objs' i = None \<longleftrightarrow> objs i = None)"
proof -
  show "server_start (s, ev) = Inr (r, s', ev') \<Longrightarrow> prog_ev_ok n ev ev'"
    by (auto simp: server_start_def ebind_Inr_iff case_prod_beta intro: prog_trans [OF prog_c_first ev_ok_timer_snd])
  assume y: "server_on_yield an g d (s, ev, objs, vs) = Inr (y, s', ev', objs', vs')"
  show "prog_ev_ok n ev ev' \<and> (\<forall>i. objs' i = None \<longleftrightarrow> objs i = None)"
  proof (cases d)
    case (ChildTaskCompletion c t st rc)
    then show ?thesis
      using y by (auto simp: ebind_Inr_iff server_handle_request_def server_handle_response_def Let_def case_prod_beta
          dest: take_request_dom intro: prog_trans [OF ev_ok_cancel_timer prog_c_first] prog_trans [OF ev_ok_timer_snd prog_c_first]
            ev_ok_intros split: if_splits)
  qed (use y in \<open>auto intro: ev_ok_intros\<close>)
qed

lemma monitor_stages_ok:
  "stage_http_read en q vs (s, ev) = Inr (y, s', ev', vs') \<Longrightarrow> prog_ev_ok n ev ev'"
  "stage_websocket_logs (s, ev) = Inr (s', ev') \<Longrightarrow> prog_ev_ok n ev ev'"
  "stage_websocket_live en t (s, ev) = Inr (s', ev') \<Longrightarrow> prog_ev_ok n ev ev'"
  "stage_websocket_init en (s, ev) = (s', ev') \<Longrightarrow> 1 < n \<Longrightarrow> prog_ev_ok n ev ev'"
proof -
  show "stage_http_read en q vs (s, ev) = Inr (y, s', ev', vs') \<Longrightarrow> prog_ev_ok n ev ev'"
    by (auto simp: stage_http_read_def ebind_Inr_iff Let_def intro: prog_c_first ev_ok_intros
        split: if_splits option.splits prod.splits)
  show "stage_websocket_logs (s, ev) = Inr (s', ev') \<Longrightarrow> prog_ev_ok n ev ev'"
    by (auto simp: stage_websocket_logs_def ebind_Inr_iff Let_def intro: prog_c_first split: if_splits prod.splits)
  show "stage_websocket_live en t (s, ev) = Inr (s', ev') \<Longrightarrow> prog_ev_ok n ev ev'"
    by (auto simp: stage_websocket_live_def ebind_Inr_iff Let_def intro: prog_trans [OF prog_c_first prog_c_first] ev_ok_intros
        split: if_splits prod.splits)
  assume s: "stage_websocket_init en (s, ev) = (s', ev')" and n: "1 < n"
  let ?ev1 = "snd (construct_ev BandwidthDataTimer True Ctor_BandwidthDataTimer ev)"
  have "prog_ev_ok 1 ev ?ev1" by (rule prog_construct_snd) simp_all
  moreover have "prog_ev_ok 1 ?ev1 ev'"
    using s by (auto simp: stage_websocket_init_def Let_def intro!: prog_construct_snd)
  ultimately show "prog_ev_ok n ev ev'" by (rule ev_ok_trans) (use n in simp)
qed

lemma monitor_calls_ok:
  "monitor_start (s, ev) = Inr (r, s', ev') \<Longrightarrow> prog_ev_ok n ev ev'"
  "monitor_on_yield en d (s, ev, objs, vs) = Inr (y, s', ev', objs', vs') \<Longrightarrow> prog_ev_ok 2 ev ev' \<and> (\<forall>i. objs' i = None \<longleftrightarrow> objs i = None)"
proof -
  show "monitor_start (s, ev) = Inr (r, s', ev') \<Longrightarrow> prog_ev_ok n ev ev'"
    by (auto simp: monitor_start_def ebind_Inr_iff case_prod_beta intro: prog_trans [OF prog_c_first ev_ok_timer_snd])
  assume y: "monitor_on_yield en d (s, ev, objs, vs) = Inr (y, s', ev', objs', vs')"
  show "prog_ev_ok 2 ev ev' \<and> (\<forall>i. objs' i = None \<longleftrightarrow> objs i = None)"
  proof (cases d)
    case (ChildTaskCompletion c t st rc)
    obtain i ev1 where i: "timer \<lparr>tv_sec = 1200, tv_nsec = 0\<rparr> ev = (i, ev1)" by fastforce
    obtain s2 ev2 where w: "stage_websocket_init en (s\<lparr>ms_timer := i\<rparr>, ev1) = (s2, ev2)" by fastforce
    have init: "prog_ev_ok 2 ev ev2"
      by (rule prog_trans [OF ev_ok_timer [OF i] monitor_stages_ok(4) [OF w]]) simp
    have "prog_ev_ok 2 ev ev3" if "stage_websocket_logs (s2, ev2) = Inr (s3, ev3)" for s3 ev3
      using ev_ok_trans [OF init monitor_stages_ok(2) [OF that, of 0]] by simp
    then show ?thesis
      using y ChildTaskCompletion i w
      by (auto simp: ebind_Inr_iff no_yield_def Let_def case_prod_beta dest: take_request_dom
          intro: prog_trans [OF ev_ok_cancel_timer monitor_stages_ok(1)] prog_trans [OF ev_ok_timer_snd prog_c_first]
            monitor_stages_ok ev_ok_intros split: if_splits mon_state.splits)
  qed (use y in \<open>auto intro: ev_ok_intros\<close>)
qed


lemma as_Inr [simp]:
  "as_bytes x = Inr b \<longleftrightarrow> x = P_Bytes b" "as_tls x = Inr t \<longleftrightarrow> x = P_Tls t" "as_http x = Inr h \<longleftrightarrow> x = P_Http h"
  "as_ws x = Inr w \<longleftrightarrow> x = P_Ws w" "as_timer x = Inr d \<longleftrightarrow> x = P_Timer d"
  "as_landing_server x = Inr ls \<longleftrightarrow> x = P_Landing_Server ls"
  "as_landing_accept x = Inr la \<longleftrightarrow> x = P_Landing_Accept la"
  "as_monitor_server x = Inr ms \<longleftrightarrow> x = P_Monitor_Server ms"
  "as_monitor_accept x = Inr ma \<longleftrightarrow> x = P_Monitor_Accept ma"
  by (cases x; auto simp: as_bytes_def as_tls_def as_http_def as_ws_def as_timer_def as_landing_server_def
      as_landing_accept_def as_monitor_server_def as_monitor_accept_def)+

lemma as_simps [simp]:
  "as_bytes (P_Bytes b) = Inr b" "as_tls (P_Tls t) = Inr t" "as_http (P_Http h) = Inr h"
  "as_ws (P_Ws w) = Inr w" "as_timer (P_Timer d) = Inr d"
  "as_landing_server (P_Landing_Server ls) = Inr ls" "as_landing_accept (P_Landing_Accept la) = Inr la"
  "as_monitor_server (P_Monitor_Server ms) = Inr ms" "as_monitor_accept (P_Monitor_Accept ma) = Inr ma"
  by simp_all

lemma put_obj_Inr:
  "put_obj mk i os r = Inr (x, os', ev') \<longleftrightarrow> (\<exists>s. r = Inr (x, s, ev') \<and> os' = os(i \<mapsto> mk s))"
  by (auto simp: put_obj_def ebind_Inr_iff)

lemma prog_same_upd:
  "os i = Some x \<Longrightarrow> obj_cls x' = obj_cls x \<Longrightarrow> same_classes prog_sig os (os(i \<mapsto> x'))"
  by (rule same_classes_upd) simp_all

lemma same_classes_http:
  assumes "\<forall>i. objs i = None \<longleftrightarrow> http_objs os i = None"
  shows "same_classes prog_sig os (with_http objs os)"
  unfolding same_classes_def
proof (intro allI impI)
  fix j
  show "map_option (sg_obj prog_sig) (with_http objs os j) = map_option (sg_obj prog_sig) (os j)"
  proof (cases "objs j")
    case None
    then show ?thesis by (simp add: with_http_def)
  next
    case (Some h)
    then have "http_objs os j \<noteq> None" using assms by (metis option.distinct(1))
    then obtain h' where "os j = Some (P_Http h')" by (auto simp: http_objs_def split: option.splits payload.splits)
    then show ?thesis using Some by (simp add: with_http_def)
  qed
qed

lemma same_classes_served:
  assumes "\<forall>i. objs i = None \<longleftrightarrow> http_objs os i = None" "os i = Some x" "obj_cls x = Some c" "c \<noteq> ReadWriteHTTP" "obj_cls x' = Some c"
  shows "same_classes prog_sig os ((with_http objs os)(i \<mapsto> x', no_id \<mapsto> P_Visits vs))"
proof -
  have "http_objs os i = None" using assms(2-4) by (cases x) (simp_all add: http_objs_def)
  then have "objs i = None" using assms(1) by simp
  then have "with_http objs os i = Some x" using assms(2) by (simp add: with_http_def)
  then have "same_classes prog_sig (with_http objs os) ((with_http objs os)(i \<mapsto> x'))"
    by (rule prog_same_upd) (simp add: assms(3,5))
  with same_classes_http [OF assms(1)] have "same_classes prog_sig os ((with_http objs os)(i \<mapsto> x'))"
    by (rule same_classes_trans)
  then show ?thesis using same_classes_global by (rule same_classes_trans)
qed

lemma prog_call_ok:
  assumes "prog_call en f i pid x os ev = Inr (r, os', ev')" "os i = Some x"
  shows "same_classes prog_sig os os' \<and> prog_ev_ok 2 ev ev'"
  using assms
  by (cases f)
    (auto simp: ebind_Inr_iff put_obj_Inr of_run_Inr_iff
      intro: prog_same_upd bytes_calls_ok tls_calls_ok http_calls_ok ws_calls_ok server_calls_ok monitor_calls_ok
        accept_calls_ok, auto simp: prepare_timer_def ebind_Inr_iff intro: ev_ok_intros)

lemma prog_yield_ok:
  assumes "prog_yield en d i x os ev = Inr (y, os', ev')" "os i = Some x"
  shows "same_classes prog_sig os os' \<and> prog_ev_ok 2 ev ev'"
proof (cases x)
  case (P_Landing_Server s)
  then obtain s' objs vs where r: "server_on_yield (pe_answer en i) (me_get (pe_mon en)) d (s, ev, http_objs os, the_visits os) =
      Inr (y, s', ev', objs, vs)" "os' = (with_http objs os)(i \<mapsto> P_Landing_Server s', no_id \<mapsto> P_Visits vs)"
    using assms(1) by (auto simp: ebind_Inr_iff)
  then show ?thesis using server_calls_ok(2) [OF r(1)] same_classes_served [of objs os i x AioLandingHTTP] assms(2) P_Landing_Server
    by simp
next
  case (P_Monitor_Server s)
  then obtain s' objs vs where r: "monitor_on_yield ((pe_mon en)\<lparr>me_answer := pe_answer en i\<rparr>) d (s, ev, http_objs os, the_visits os) =
      Inr (y, s', ev', objs, vs)" "os' = (with_http objs os)(i \<mapsto> P_Monitor_Server s', no_id \<mapsto> P_Visits vs)"
    using assms(1) by (auto simp: ebind_Inr_iff)
  then show ?thesis
    using monitor_calls_ok(2) [OF r(1)] same_classes_served [of objs os i x BandwidthMonitoringServer] assms(2) P_Monitor_Server
    by simp
next
  case (P_Timer s)
  then show ?thesis
    using assms by (auto simp: put_obj_Inr data_timer_on_yield_def intro: prog_same_upd ev_ok_intros)
qed (use assms in \<open>auto simp: put_obj_Inr of_run_Inr_iff
      intro: prog_same_upd bytes_calls_ok tls_calls_ok http_calls_ok ws_calls_ok accept_yields_ok\<close>)

lemma prog_construct_ok:
  assumes "prog_construct en k os ev = Inr (x, os', ev')"
  shows "obj_cls x = Some (ctor_cls k) \<and> same_classes prog_sig os os' \<and> prog_ev_ok 2 ev ev'"
  using assms
  by (cases k)
    (auto simp: ebind_Inr_iff tls_new_def http_new_def server_new_def monitor_new_def same_classes_global
      intro!: prog_construct_snd intro: ev_ok_intros split: option.splits)

interpretation program: class_bodies
  "prog_sig :: (cls, ctor, member_call, ('b, 'p, 'ssl) payload) signature"
  "prog_classes :: ('b, 'p, 'z, 'ssl) prog_env \<Rightarrow> _" 2
proof unfold_locales
  fix en :: "('b, 'p, 'z, 'ssl) prog_env" and k i os ud x os' and ev' :: app_event
  assume "cl_construct (prog_classes en) k i os (new_event ud) = Inr (x, os', ev')"
  then have "prog_construct en k os (new_event ud) = Inr (x, os', ev')" by (simp add: prog_classes_def)
  from prog_construct_ok [OF this] show "sg_obj prog_sig x = Some (sg_ctor prog_sig k) \<and> same_classes prog_sig os os' \<and>
      ev_ok (prog_sig :: (cls, ctor, member_call, ('b, 'p, 'ssl) payload) signature) 2 (new_event ud) ev'"
    by (auto intro: ev_ok_prog)
next
  fix en :: "('b, 'p, 'z, 'ssl) prog_env" and f i pid os r os' and ev ev' :: app_event
  assume "cl_invoke (prog_classes en) f i pid os ev = Inr (r, os', ev')"
  then obtain x where "prog_call en f i pid x os ev = Inr (r, os', ev')" "os i = Some x"
    by (cases "os i") (simp_all add: prog_classes_def)
  from prog_call_ok [OF this] show "same_classes prog_sig os os' \<and>
      ev_ok (prog_sig :: (cls, ctor, member_call, ('b, 'p, 'ssl) payload) signature) 2 ev ev'"
    by (auto intro: ev_ok_prog)
next
  fix en :: "('b, 'p, 'z, 'ssl) prog_env" and d i os y os' and ev ev' :: app_event
  assume "cl_yield (prog_classes en) d i os ev = Inr (y, os', ev')"
  then obtain x where "prog_yield en d i x os ev = Inr (y, os', ev')" "os i = Some x"
    by (cases "os i") (simp_all add: prog_classes_def)
  from prog_yield_ok [OF this] show "same_classes prog_sig os os' \<and>
      ev_ok (prog_sig :: (cls, ctor, member_call, ('b, 'p, 'ssl) payload) signature) 2 ev ev'"
    by (auto intro: ev_ok_prog)
qed simp


section \<open>Evaluation\<close>

text \<open>The definitions a message of the scheduler runs through.\<close>

lemmas run_defs = handle_dequeue_def push_msg_def root_start_received_def Let_def submit_def upd_at_def
  construct_call_def event_init_def process_queued_def touch_obj_def load_event_def process_queued_event_def new_event_def
  map_touch_def process_queued_construct_def process_queued_function_def process_queued_uring_def process_queued_timers_def
  process_queued_delete_def process_queued_attach_def clear_def store_event_def obj_ptr_def map_at_def
  initialize_root_event_def root_get_obj_id_def root_get_proc_id_def root_take_id_def init_world_def init_thread_ids_def
  init_blocks_def init_cursor_def function_call_def upd_obj_def upd_call_def run_body_def call_of_def default_object_def
  default_call_def data_received_def map_data_def notify_attached_def completion_step_def
  queued_construct_step_def queued_function_step_def queued_uring_step_def queued_timer_step_def get_evinfo_def slots_def
  set_slots_def find_target_thread_def draw_obj_def draw_proc_def draw_tim_def get_obj_id_def get_proc_id_def get_tim_id_def
  take_id_def new_attached_def put_sqe_def sq_full_def SQ_SIZE_def translate_tim_local_def global_to_local_def
  global_to_local_tim_def empty_uring_data_def own_queue_def

text \<open>And the bodies of the classes of a connection without TLS.\<close>

lemmas body_defs = prog_classes_def put_obj_def mk_response_def landing_new_def manager_new_def landing_init_def
  queue_accept_def c_uring_def construct_ev_def c_at_def c_first_def timer_def server_new_def server_start_def
  landing_ts_def http_new_def http_arm_read_def read_http_def bytes_new_def bytes_read_def

lemma thread_index [simp]: "unat (int_to_size 0) = 0" "Suc 0 \<le> unat (int_to_size (- 1))"
  by (simp_all add: int_to_size_def unsigned_minus_1_eq_mask mask_eq_exp_minus_1)

lemma no_id_fresh [simp]:
  "no_id \<noteq> 0" "no_id \<noteq> 1" "no_id \<noteq> 2" "no_id \<noteq> 1000" "no_id \<noteq> 1001" "no_id \<noteq> 1002"
  "0 \<noteq> no_id" "1 \<noteq> no_id" "2 \<noteq> no_id" "1000 \<noteq> no_id" "1001 \<noteq> no_id" "1002 \<noteq> no_id"
  by (simp_all add: no_id_def)

lemma dequeue_loop_numeral [simp]:
  "dequeue_loop cl (numeral n) w = ebind (handle_dequeue cl w)
     (\<lambda>(busy, w'). if busy then dequeue_loop cl (pred_numeral n) w' else Inr (False, w'))"
  by (simp add: numeral_eq_Suc)

text \<open>An environment for evaluation.\<close>

type_synonym plain_prog = "(u8 list \<times> u8 list, u8 list, u8 list, u8 list) prog_env"

definition plain_env :: plain_prog where
  "plain_env = \<lparr>pe_http = line_http, pe_ssl = null_ssl, pe_fs = plain_fs,
     pe_answer = (\<lambda>i req vs. (prepare_response list_beast [] Ok ''hi'' 11, vs)),
     pe_mon = \<lparr>me_answer = (\<lambda>req vs. (prepare_response list_beast [] Ok ''hi'' 11, vs)), me_get = (\<lambda>_. demo_get ''/''),
       me_beast = list_beast, me_sha1 = id, me_log = [], me_now = 1700000000, me_hour = 9, me_rx_speed = 5, me_tx_speed = 6\<rparr>,
     pe_new_ssl = Some [], pe_mem = (\<lambda>a. 0), pe_addr = 4096, pe_addr2 = 8192, pe_timerfd = 7\<rparr>"

definition good_setup :: tls_setup where
  "good_setup = \<lparr>ring_ok = True, ctx_ok = True, min_version_ok = True, chain_ok = True, key_ok = True\<rparr>"

type_synonym plain_world = "(cls, ctor, member_call, (u8 list \<times> u8 list, u8 list, u8 list) payload) world"

lemmas start_defs = good_setup_def server_func_def server_sockets_def demo_os_def setup_server_socket_def
  setup_server_socket6_def SERVER_PORT_def HTTP_PORT_def HTTPS_PORT_def sys_def give_up_def async_handler_new_def fds_opened_def

lemmas plain_defs = plain_env_def plain_fs_def list_beast_def

section \<open>The casts are sound\<close>

lemma server_start_typed:
  assumes "server_func os a = (Some (Inr (rids, w)), tr)"
  shows "sched_reach prog_sig cl init_thread_ids (init_world 1 0) 3 rids w"
proof -
  obtain fds tr' where fds: "open_sockets os server_sockets [] [] = (Some fds, tr')"
    using assms by (auto simp: server_func_def split: prod.splits option.splits)
  obtain w0 :: "(cls, ctor, member_call, ('a, 'b, 'c) payload) world" where w0: "async_handler_new a 1 = Inr w0" and
    r: "ebind (initialize_root_event (Ctor_BandwidthMonitorAccept [fds ! 0, fds ! 1] True ''/srv/bwith'') Monitor_Init init_thread_ids w0) (\<lambda>(r, w).
        ebind (initialize_root_event (Ctor_LandingAccept [fds ! 3, fds ! 2] False ''/srv/landing'') Landing_Init r w) (\<lambda>(r, w).
        initialize_root_event (Ctor_LandingAccept [fds ! 4, fds ! 5] True ''/srv/landing'') Landing_Init r w)) = Inr (rids, w)"
    using assms fds by (auto simp: server_func_def Let_def ebind_Inr_iff)
  have "w0 = init_world 1 0" using w0 by (auto simp: async_handler_new_def split: if_splits)
  then obtain r1 w1 r2 w2 where
    "initialize_root_event (Ctor_BandwidthMonitorAccept [fds ! 0, fds ! 1] True ''/srv/bwith'') Monitor_Init init_thread_ids (init_world 1 0) = Inr (r1, w1)"
    "initialize_root_event (Ctor_LandingAccept [fds ! 3, fds ! 2] False ''/srv/landing'') Landing_Init r1 w1 = Inr (r2, w2)"
    "initialize_root_event (Ctor_LandingAccept [fds ! 4, fds ! 5] True ''/srv/landing'') Landing_Init r2 w2 = Inr (rids, w)"
    using r by (auto simp: ebind_Inr_iff)
  then have "sched_reach prog_sig cl init_thread_ids (init_world 1 0) (Suc (Suc (Suc 0))) rids w"
    by (intro sched_reach.root [OF sched_reach.root [OF sched_reach.root [OF sched_reach.start]]]) simp_all
  then show ?thesis by (simp add: numeral_3_eq_3)
qed

lemma sched_reach_trans:
  assumes "sched_reach sg cl r1 w1 n r2 w2" "sched_reach sg cl r0 w0 m r1 w1"
  shows "sched_reach sg cl r0 w0 (n + m) r2 w2"
  using assms by induction (auto intro: sched_reach.intros)

lemma server_typed:
  assumes "server_func os a = (Some (Inr (rids0, w0)), tr)" "sched_reach prog_sig cl rids0 w0 n rids w"
    and "2 * (n + 3) \<le> max_blocks"
  shows "sched_reach prog_sig cl init_thread_ids (init_world 1 0) (n + 3) rids w"
    "typed prog_sig init_thread_ids Map.empty (\<lambda>_. 0) ((n + 3) * 2) (init_world 1 0)"
  using sched_reach_trans [OF assms(2) server_start_typed [OF assms(1)]] typed_less [OF typed_init, of "(n + 3) * 2"] assms(3)
  by simp_all

text \<open>
  C5: After the start of the server, whatever messages are handled and completions arrive in whatever order
  (for the first 9223372036854775 steps or so), a queued member call whose object is alive finds an
  object of the class that declares the member: the \<^verbatim>\<open>static_pointer_cast\<close> of \<^verbatim>\<open>Event::c\<close> and
  \<^verbatim>\<open>initialize_root_event\<close> is sound.
\<close>

theorem member_calls_typed:
  assumes "server_func os a = (Some (Inr (rids0, w0)), tr)"
    and "sched_reach prog_sig prog_classes rids0 w0 n rids w" "2 * (n + 3) \<le> max_blocks"
    and "q \<in> set (queues w)" "Function_Call f ci ti \<in> set q" "obj_ptr (ti_obj ti) w = Some i"
  shows "\<exists>x. payloads w i = Some x \<and> obj_cls x = Some (call_cls f)"
  using program.call_finds_its_class [OF server_typed [OF assms(1-3)] assms(4-6)] by simp

lemma reach_loop:
  "dequeue_loop (cl e) n w = Inr (True, w') \<Longrightarrow> sched_reach sg cl r0 w0 m r w \<Longrightarrow> sched_reach sg cl r0 w0 (n + m) r w'"
proof (induction n arbitrary: m w)
  case (Suc n)
  then obtain w1 where w1: "handle_dequeue (cl e) w = Inr (True, w1)" "dequeue_loop (cl e) n w1 = Inr (True, w')"
    by (auto simp: ebind_Inr_iff split: if_splits)
  from Suc.IH [OF w1(2) sched_reach.message [OF Suc.prems(2) w1(1)]] show ?case by simp
qed simp

lemma member_calls_typed_witness:
  "\<exists>rids (w0 :: plain_world) tr w ci i x.
     server_func (demo_os []) good_setup = (Some (Inr (rids, w0)), tr) \<and>
     dequeue_loop (prog_classes plain_env) 4 w0 = Inr (True, w) \<and>
     Function_Call Monitor_Init ci \<lparr>ti_obj = 0, ti_proc = 0\<rparr> \<in> set (queues w ! 0) \<and>
     payloads w 0 = Some x \<and> obj_cls x = Some BandwidthMonitorAccept"
proof -
  obtain rids tr and w0 :: plain_world where s: "server_func (demo_os []) good_setup = (Some (Inr (rids, w0)), tr)"
    and "\<exists>w ci. dequeue_loop (prog_classes plain_env) 4 w0 = Inr (True, w) \<and> queues w \<noteq> [] \<and>
      Function_Call Monitor_Init ci \<lparr>ti_obj = 0, ti_proc = 0\<rparr> \<in> set (queues w ! 0) \<and> obj_ptr 0 w = Some 0"
    by (simp add: start_defs run_defs cong: ebind_weak_cong)
      (simp add: run_defs body_defs plain_defs monitor_accept_new_def cong: ebind_weak_cong)
  then obtain w ci where w: "dequeue_loop (prog_classes plain_env) 4 w0 = Inr (True, w)" "queues w ! 0 \<in> set (queues w)"
    "Function_Call Monitor_Init ci \<lparr>ti_obj = 0, ti_proc = 0\<rparr> \<in> set (queues w ! 0)" "obj_ptr 0 w = Some 0"
    by auto
  have r: "sched_reach prog_sig (prog_classes :: plain_prog \<Rightarrow> _) rids w0 (4 + 0) rids w" by (rule reach_loop, rule w(1), rule sched_reach.start)
  have "\<exists>x. payloads w 0 = Some x \<and> obj_cls x = Some (call_cls Monitor_Init)"
    by (rule member_calls_typed [OF s r _ w(2,3)]) (simp_all add: w(4) max_blocks_def)
  then show ?thesis using s w by auto
qed

text \<open>
  C20: In the same states, what \<^verbatim>\<open>direct_access<Obj>\<close> finds through slot \<open>idx\<close> of class \<open>ty\<close> of a live object
  is an object of that class.
\<close>

theorem direct_access_typed:
  assumes "server_func os a = (Some (Inr (rids0, w0)), tr)"
    and "sched_reach prog_sig prog_classes rids0 w0 n rids w" "2 * (n + 3) \<le> max_blocks"
    and "load_event p w = Inr (j, ev)" "direct_ref ty idx ev = Inr (Some i)" "payloads w i = Some x"
  shows "obj_cls x = Some ty"
proof -
  obtain c where c: "ctxs w c = Some (uring_data ev)"
    using assms(4) by (auto simp: load_event_def split: option.splits)
  obtain v where v: "sub_events (uring_data ev) ty = Some v"
    using assms(5) by (cases "sub_events (uring_data ev) ty") (auto simp: direct_ref_def)
  obtain info where "idx < length v" "v ! idx = Some info" "ev_event info = Some i"
    using assms(5) v by (auto simp: direct_ref_def not_le split: if_splits option.splits)
  then have "Some info \<in> set v" "ev_event info = Some i" using nth_mem [of idx v] by simp_all
  from program.slot_finds_its_class [OF server_typed [OF assms(1-3)] c v this assms(6)] show ?thesis by simp
qed

lemma direct_access_typed_witness:
  "\<exists>rids (w0 :: plain_world) tr w1 w2 w ev x.
     server_func (demo_os []) good_setup = (Some (Inr (rids, w0)), tr) \<and>
     dequeue_loop (prog_classes plain_env) 9 w0 = Inr (True, w1) \<and> completion_step (3, 12) w1 = Inr w2 \<and>
     dequeue_loop (prog_classes plain_env) 2 w2 = Inr (True, w) \<and> load_event (Some 1) w = Inr (1, ev) \<and>
     direct_ref AioLandingHTTP 0 ev = Inr (Some 1000) \<and> payloads w 1000 = Some x \<and> obj_cls x = Some AioLandingHTTP"
proof -
  obtain rids tr and w0 :: plain_world where s: "server_func (demo_os []) good_setup = (Some (Inr (rids, w0)), tr)"
    and "\<exists>w1 w2 w ev x. dequeue_loop (prog_classes plain_env) 9 w0 = Inr (True, w1) \<and> completion_step (3, 12) w1 = Inr w2 \<and>
      dequeue_loop (prog_classes plain_env) 2 w2 = Inr (True, w) \<and> load_event (Some 1) w = Inr (1, ev) \<and>
      direct_ref AioLandingHTTP 0 ev = Inr (Some 1000) \<and> payloads w 1000 = Some x"
    by (simp add: start_defs run_defs cong: ebind_weak_cong)
      (simp add: run_defs body_defs plain_defs monitor_accept_new_def monitor_init_def monitor_queue_accept_def direct_ref_def
        cong: ebind_weak_cong)
  then obtain w1 w2 w ev x where w: "dequeue_loop (prog_classes plain_env) 9 w0 = Inr (True, w1)" "completion_step (3, 12) w1 = Inr w2"
    "dequeue_loop (prog_classes plain_env) 2 w2 = Inr (True, w)" "load_event (Some 1) w = Inr (1, ev)"
    "direct_ref AioLandingHTTP 0 ev = Inr (Some 1000)" "payloads w 1000 = Some x" by blast
  have "sched_reach prog_sig (prog_classes :: plain_prog \<Rightarrow> _) rids w0 (9 + 0) rids w1" by (rule reach_loop, rule w(1), rule sched_reach.start)
  then have "sched_reach prog_sig (prog_classes :: plain_prog \<Rightarrow> _) rids w0 (2 + Suc (9 + 0)) rids w"
    by - (rule reach_loop, rule w(3), rule sched_reach.completion, assumption, rule w(2))
  then have r: "sched_reach prog_sig (prog_classes :: plain_prog \<Rightarrow> _) rids w0 12 rids w" by simp
  have "obj_cls x = Some AioLandingHTTP"
    by (rule direct_access_typed [OF s r _ w(4-6)]) (simp add: max_blocks_def)
  then show ?thesis using s w by blast
qed

end
