(* ===== verification/Serving.thy ===== *)
theory Serving
  imports Program
begin

text \<open>
  The landing server end to end: a root object that accepts, a connection, its HTTP object and its
  byte socket, run by the scheduler.  The theorems follow one connection through all of them, from
  the accepted descriptor to the request of the first read, and from the bytes of a request to the
  request that sends the response.
\<close>

section \<open>From the accept to the first read\<close>

text \<open>
  The handler starts one accepting object on the sockets \<open>f4\<close> and \<open>f6\<close>, the thread handles its three
  messages, the first accept completes with \<open>r\<close>, and the thread handles seven messages.
\<close>

definition accept_run ::
  "('b, 'p, 'z, 'ssl) prog_env \<Rightarrow> string \<Rightarrow> int \<Rightarrow> int \<Rightarrow> int \<Rightarrow>
    (cls, ctor, member_call, ('b, 'p, 'ssl) payload) world result"
where
  "accept_run en dir f4 f6 r =
     ebind (initialize_root_event (Ctor_LandingAccept [f4, f6] False dir) Landing_Init init_thread_ids (init_world 1 0)) (\<lambda>(_, w).
     ebind (dequeue_loop (prog_classes en) 3 w) (\<lambda>(_, w).
     ebind (completion_step (1, r) w) (\<lambda>w.
     ebind (dequeue_loop (prog_classes en) 7 w) (\<lambda>(_, w). Inr w))))"

text \<open>
  An accepted connection is read.  The accepting object makes a connection object, which makes its
  HTTP object and that its byte socket; the calls they queue on each other before they exist
  reach them in order.  In the end the ring holds the two accepts, the accept that was re-armed, the
  three-minute timer of the connection and a read of 4096 bytes from the new descriptor into the
  prepared area of the HTTP buffer, and the thread has nothing left to do.
\<close>

theorem accepted_connection_read:
  assumes "fs_canonical (pe_fs en) dir = Some base" "0 \<le> r"
  shows "\<exists>w. accept_run en dir f4 f6 r = Inr w \<and> own_queue w = [] \<and>
    map (sq_op \<circ> fst) (in_flight w) =
      [Sq_prep (Prep_accept f4 0), Sq_prep (Prep_accept f6 1), Sq_prep (Prep_accept f4 0), Sq_timeout 0,
       Sq_prep (Prep_recv r (fst (fb_prepare (pe_http en) 4096 (fb_empty (pe_http en)))) 4096 0)] \<and>
    map_option td_ts (timers w 0) = Some \<lparr>tv_sec = 180, tv_nsec = 0\<rparr>"
proof -
  obtain buf bb where b: "fb_prepare (pe_http en) 4096 (fb_empty (pe_http en)) = (buf, bb)" by fastforce
  show ?thesis
    by (simp add: accept_run_def run_defs body_defs assms b cong: ebind_weak_cong)
qed


section \<open>From the request to the response\<close>

text \<open>The kernel stores received bytes where the read said: the prepared area of the HTTP object \<open>i\<close>.\<close>

definition deliver ::
  "('b, 'p, 'z) http_lib \<Rightarrow> u64 \<Rightarrow> u8 list \<Rightarrow> (cls, ctor, member_call, ('b, 'p, 'ssl) payload) world \<Rightarrow>
    (cls, ctor, member_call, ('b, 'p, 'ssl) payload) world"
where
  "deliver hl i bs w = w\<lparr>payloads := (case payloads w i of
     Some (P_Http h) \<Rightarrow> (payloads w)(i \<mapsto> P_Http (received hl bs h)) | _ \<Rightarrow> payloads w)\<rparr>"

text \<open>The read, request 5 of the ring, completes with the bytes \<open>bs\<close>; five messages follow.\<close>

definition serve_run ::
  "('b, 'p, 'z, 'ssl) prog_env \<Rightarrow> string \<Rightarrow> int \<Rightarrow> int \<Rightarrow> int \<Rightarrow> u8 list \<Rightarrow>
    (cls, ctor, member_call, ('b, 'p, 'ssl) payload) world result"
where
  "serve_run en dir f4 f6 r bs =
     ebind (accept_run en dir f4 f6 r) (\<lambda>w.
     ebind (completion_step (5, int (length bs)) (deliver (pe_http en) 1001 bs w)) (\<lambda>w.
     ebind (dequeue_loop (prog_classes en) 5 w) (\<lambda>(_, w). Inr w)))"

lemma with_http_same [simp]: "with_http (http_objs os) os = os"
  by (auto simp: with_http_def http_objs_def fun_eq_iff split: option.splits payload.splits)

lemmas answer_defs = prepare_read_def deliver_def received_def http_handle_read_def cancel_timer_def take_request_def
  direct_ref_def http_get_data_def server_handle_request_def the_visits_def write_http_def
  http_arm_write_def bytes_write_def of_run_def


lemma transferred: "length bs \<le> 4096 \<Longrightarrow> size_to_int (int_to_size (int (length bs))) = int (length bs)"
  using unat_int_to_size [of "int (length bs)"] by (simp add: size_to_int_small)

text \<open>What happens once \<^verbatim>\<open>try_parse\<close> says that the request is there.\<close>

lemma parsed_request_answered:
  fixes en :: "('b, 'p, 'z, 'ssl) prog_env"
  assumes "fs_canonical (pe_fs en) dir = Some base" "0 \<le> r"
    and laws: "buffer_laws (pe_http en)" "m \<noteq> []" "length m \<le> 4096"
    and parsed: "\<And>s. hi_parser s = Some (ps_new (pe_http en)) \<Longrightarrow>
      hi_buffer s = fb_commit (pe_http en) (length m) (fb_store (pe_http en) m (snd (fb_prepare (pe_http en) 4096 (fb_empty (pe_http en))))) \<Longrightarrow>
      try_parse (pe_http en) s = Some (Inr (True, s\<lparr>hi_parser := Some q, hi_buffer := b2\<rparr>))"
    and ans: "pe_answer en 1000 (me_get (pe_mon en) q) (register_service (base @ '':http'') []) = (resp, vs)"
    and ser: "sr_chunks (pe_http en) (sr_new (pe_http en) resp) cs" "concat cs \<noteq> []"
  shows "\<exists>w h. serve_run en dir f4 f6 r m = Inr w \<and> own_queue w = [] \<and>
    payloads w 1001 = Some (P_Http h) \<and> fb_data (pe_http en) (hi_wbuffer h) = concat cs \<and>
    drop 5 (map (sq_op \<circ> fst) (in_flight w)) =
      [Sq_timeout_remove 4,
       Sq_prep (Prep_send r (fb_addr (pe_http en) (hi_wbuffer h)) (word_of_nat (length (concat cs))) MSG_NOSIGNAL)] \<and>
    payloads w no_id = Some (P_Visits vs)"
proof -
  let ?hl = "pe_http en"
  obtain buf bb where b: "fb_prepare ?hl 4096 (fb_empty ?hl) = (buf, bb)" by fastforce
  note parsed = parsed [unfolded b snd_conv]
  obtain b' where written: "serialize_loop ?hl (sr_new ?hl resp) (fb_empty ?hl) = Some b'"
    "fb_data ?hl b' = concat cs"
    using serialize_loop_chunks [OF laws(1) ser(1), of "fb_empty ?hl"] buffer_simps(1) [OF laws(1)] by auto
  have pos: "(\<forall>c \<in> set cs. c = []) = False" using ser(2) by simp
  show ?thesis
    by (simp add: serve_run_def accept_run_def run_defs body_defs answer_defs http_objs_def with_http_def
        assms(1,2) b parsed ans written pos
        transferred laws cong: ebind_weak_cong)
qed


text \<open>
  C19: So is a request that is none.  \<^verbatim>\<open>try_parse\<close> takes a parse error for the end of the request, so that
  the caller can look at the parser; the connection does not: it answers what the parser
  happens to hold as if it were a complete request.
\<close>

theorem malformed_request_answered:
  fixes en :: "('b, 'p, 'z, 'ssl) prog_env"
  assumes "fs_canonical (pe_fs en) dir = Some base" "0 \<le> r"
    and laws: "buffer_laws (pe_http en)" "m \<noteq> []" "length m \<le> 4096"
    and bad: "ps_put (pe_http en) m (ps_new (pe_http en)) = (k, Parse_Error e, q)"
    and ans: "pe_answer en 1000 (me_get (pe_mon en) q) (register_service (base @ '':http'') []) = (resp, vs)"
    and ser: "sr_chunks (pe_http en) (sr_new (pe_http en) resp) cs" "concat cs \<noteq> []"
  shows "\<exists>w h. serve_run en dir f4 f6 r m = Inr w \<and> own_queue w = [] \<and>
    payloads w 1001 = Some (P_Http h) \<and> fb_data (pe_http en) (hi_wbuffer h) = concat cs \<and>
    drop 5 (map (sq_op \<circ> fst) (in_flight w)) =
      [Sq_timeout_remove 4,
       Sq_prep (Prep_send r (fb_addr (pe_http en) (hi_wbuffer h)) (word_of_nat (length (concat cs))) MSG_NOSIGNAL)] \<and>
    payloads w no_id = Some (P_Visits vs)"
proof -
  let ?b = "fb_commit (pe_http en) (length m) (fb_store (pe_http en) m (snd (fb_prepare (pe_http en) 4096 (fb_empty (pe_http en)))))"
  have d: "fb_data (pe_http en) ?b = m" using buffer_simps [OF laws(1)] laws(3) by simp
  have "parse_loop (pe_http en) (Parse_Error e) q (fb_consume (pe_http en) k ?b) =
      Some (Parse_Error e, q, fb_consume (pe_http en) k ?b)" by (subst parse_loop.simps) simp
  then have "try_parse (pe_http en) s = Some (Inr (True, s\<lparr>hi_parser := Some q, hi_buffer := fb_consume (pe_http en) k ?b\<rparr>))"
    if "hi_parser s = Some (ps_new (pe_http en))" "hi_buffer s = ?b" for s
    using that d bad by (simp add: try_parse_def)
  then show ?thesis by (rule parsed_request_answered [OF assms(1,2) laws _ ans ser])
qed

section \<open>The end of a connection\<close>



section \<open>A connection that stays silent\<close>

text \<open>The three minutes of the connection's timer, request 4 of the ring, pass without a byte.\<close>

definition idle_run ::
  "('b, 'p, 'z, 'ssl) prog_env \<Rightarrow> string \<Rightarrow> int \<Rightarrow> int \<Rightarrow> int \<Rightarrow>
    (cls, ctor, member_call, ('b, 'p, 'ssl) payload) world result"
where
  "idle_run en dir f4 f6 r =
     ebind (accept_run en dir f4 f6 r) (\<lambda>w.
     ebind (completion_step (4, - ETIME) w) (\<lambda>w.
     ebind (dequeue_loop (prog_classes en) 5 w) (\<lambda>(_, w). Inr w)))"

text \<open>
  C14: A silent connection is given up after three minutes: its call fails, and the connection, its HTTP
  object and its socket object are destroyed.  But the read they have asked for is not cancelled:
  it is still in the ring, with the address of the buffer of the destroyed HTTP object, and its
  user data still names the destroyed socket object.
\<close>

theorem idle_connection_read_outlives:
  fixes en :: "('b, 'p, 'z, 'ssl) prog_env"
  assumes "fs_canonical (pe_fs en) dir = Some base" "0 \<le> r"
  shows "\<exists>w. idle_run en dir f4 f6 r = Inr w \<and> own_queue w = [] \<and> dom (obj_info w) = {0} \<and> dom (ev_mem w) = {0} \<and>
    dom (payloads w) = {no_id, 0} \<and>
    last (in_flight w) =
      (\<lparr>sq_op = Sq_prep (Prep_recv r (fst (fb_prepare (pe_http en) 4096 (fb_empty (pe_http en)))) 4096 0), sq_data = 5\<rparr>, None) \<and>
    attached w 5 = Some (Event_Data ID_READ 1002 1002)"
proof -
  obtain buf bb where b: "fb_prepare (pe_http en) 4096 (fb_empty (pe_http en)) = (buf, bb)" by fastforce
  show ?thesis
    by (simp add: idle_run_def accept_run_def run_defs body_defs answer_defs delete_child_def queued_delete_step_def
        delete_received_def assms b insert_commute ETIME_def cong: ebind_weak_cong)
qed

section \<open>An instance\<close>

lemma plain_setup:
  "fs_canonical (pe_fs plain_env) ''/srv'' = Some ''/srv''"
  "buffer_laws (pe_http plain_env)" "parser_reads (pe_http plain_env) id [71, 10] [71, 10]"
  "pe_answer plain_env 1000 q vs = (prepare_response list_beast [] Ok ''hi'' 11, vs)"
  "sr_chunks (pe_http plain_env) (sr_new (pe_http plain_env) (prepare_response list_beast [] Ok ''hi'' 11)) [[104, 105]]"
  "fst (fb_prepare (pe_http plain_env) n b) = 4096"
proof -
  have "k = 0 \<or> k = 1" if "k < length [71, 10 :: u8]" for k using that by auto
  moreover have "t = 0 \<or> t = 1 \<or> t = 2" if "t \<le> length [71, 10 :: u8]" for t using that by auto
  ultimately have "parser_reads line_http id [71, 10] [71, 10]"
    unfolding parser_reads_def by (fastforce simp: line_http_def Let_def)
  then show "parser_reads (pe_http plain_env) id [71, 10] [71, 10]" by (simp add: plain_env_def)
  show "buffer_laws (pe_http plain_env)" using line_buffer_laws by (simp add: plain_env_def)
qed (simp_all add: plain_env_def plain_fs_def line_http_def of_char_def prepare_response_def list_beast_def)

lemma accepted_connection_read_witness:
  "\<exists>w. accept_run plain_env ''/srv'' 3 4 9 = Inr w \<and> own_queue w = [] \<and>
    map (sq_op \<circ> fst) (in_flight w) =
      [Sq_prep (Prep_accept 3 0), Sq_prep (Prep_accept 4 1), Sq_prep (Prep_accept 3 0), Sq_timeout 0, Sq_prep (Prep_recv 9 4096 4096 0)]"
  using accepted_connection_read [OF plain_setup(1), where r = 9 and ?f4.0 = 3 and ?f6.0 = 4]
  by (auto simp: plain_setup(6))


text \<open>A parser that rejects everything.\<close>

definition rejecting_env :: plain_prog where
  "rejecting_env = plain_env\<lparr>pe_http := line_http\<lparr>ps_put := (\<lambda>bs p. (0, Parse_Error 1, [71]))\<rparr>\<rparr>"

lemma malformed_request_answered_witness:
  "\<exists>w h. serve_run rejecting_env ''/srv'' 3 4 9 [33, 33] = Inr w \<and> payloads w 1001 = Some (P_Http h) \<and>
    fb_data (pe_http rejecting_env) (hi_wbuffer h) = [104, 105]"
proof -
  have f: "fs_canonical (pe_fs rejecting_env) ''/srv'' = Some ''/srv''" using plain_setup(1) by (simp add: rejecting_env_def)
  have l: "buffer_laws (pe_http rejecting_env)"
    using line_buffer_laws by (simp add: rejecting_env_def buffer_laws_def line_http_def)
  have p: "ps_put (pe_http rejecting_env) [33, 33] (ps_new (pe_http rejecting_env)) = (0, Parse_Error 1, [71])"
    by (simp add: rejecting_env_def)
  have a: "pe_answer rejecting_env 1000 q vs = (prepare_response list_beast [] Ok ''hi'' 11, vs)" for q vs
    using plain_setup(4) by (simp add: rejecting_env_def)
  have c: "sr_chunks (pe_http rejecting_env) (sr_new (pe_http rejecting_env) (prepare_response list_beast [] Ok ''hi'' 11)) [[104, 105]]"
    using plain_setup(5) by (simp add: rejecting_env_def plain_env_def line_http_def)
  have n: "[33, 33 :: u8] \<noteq> []" "length [33, 33 :: u8] \<le> 4096" "concat [[104, 105 :: u8]] \<noteq> []" "(0 :: int) \<le> 9" by simp_all
  from malformed_request_answered [OF f n(4) l n(1,2) p a c n(3), where ?f4.0 = 3 and ?f6.0 = 4] show ?thesis by auto
qed


lemma idle_connection_read_outlives_witness:
  "\<exists>w. idle_run plain_env ''/srv'' 3 4 9 = Inr w \<and> dom (obj_info w) = {0} \<and>
    last (in_flight w) = (\<lparr>sq_op = Sq_prep (Prep_recv 9 4096 4096 0), sq_data = 5\<rparr>, None)"
  using idle_connection_read_outlives [OF plain_setup(1), where r = 9 and ?f4.0 = 3 and ?f6.0 = 4] by (auto simp: plain_setup(6))

end
