(* ===== verification/Coro_Demo.thy ===== *)
theory Coro_Demo
  imports Prelude
begin

text \<open>
  \<^verbatim>\<open>coro/coro.cpp\<close>, the program with which the author tried the coroutines of the language before using
  them in \<^verbatim>\<open>coro_types\<close>.  The frames of the coroutines alive are explicit: a frame is suspended at its
  start or in an await, where it owns the \<^verbatim>\<open>task\<close> it awaits.  Resuming or destroying a frame that does
  not exist any more is undefined.
\<close>

section \<open>Model\<close>

datatype coroutine = Task2 | Coro_Fun

datatype suspended = At_Start | At_Await nat

record coro_world =
  frames :: "nat \<rightharpoonup> coroutine \<times> suspended"
  next_frame :: nat
  printed :: "string list"

definition print :: "string list \<Rightarrow> coro_world \<Rightarrow> coro_world" where
  "print ls w = w\<lparr>printed := printed w @ ls\<rparr>"

text \<open>Calling a coroutine: \<^verbatim>\<open>get_return_object\<close>, the constructor of \<^verbatim>\<open>task\<close>, \<^verbatim>\<open>initial_suspend\<close>; the task
  returned owns the new frame.\<close>

definition call_coro :: "coroutine \<Rightarrow> coro_world \<Rightarrow> nat \<times> coro_world" where
  "call_coro c w =
     (let h = next_frame w
      in (h, print [''return'', ''construct'', ''Initial suspend'']
           (w\<lparr>frames := (frames w)(h \<mapsto> (c, At_Start)), next_frame := Suc h\<rparr>)))"

definition drop_frame :: "nat \<Rightarrow> coro_world \<Rightarrow> coro_world" where
  "drop_frame h w = w\<lparr>frames := (frames w)(h := None)\<rparr>"

text \<open>\<^verbatim>\<open>~task\<close> and \<^verbatim>\<open>coroutine_handle::destroy\<close>: a frame in an await destroys the task it awaits.  \<^verbatim>\<open>task2\<close>
  never awaits, so the frame of the awaited task awaits nothing.\<close>

definition destroy_leaf :: "nat \<Rightarrow> coro_world \<Rightarrow> coro_world result" where
  "destroy_leaf h w =
     (case frames w h of
        Some (c, At_Start) \<Rightarrow> Inr (drop_frame h w)
      | _ \<Rightarrow> Inl Undefined_Behaviour)"

definition destroy_frame :: "nat \<Rightarrow> coro_world \<Rightarrow> coro_world result" where
  "destroy_frame h w =
     (case frames w h of
        None \<Rightarrow> Inl Undefined_Behaviour
      | Some (c, At_Start) \<Rightarrow> Inr (drop_frame h w)
      | Some (c, At_Await k) \<Rightarrow>
          ebind (destroy_leaf k (print [''delete''] w)) (\<lambda>w'. Inr (drop_frame h w')))"

definition task_destroy :: "nat \<Rightarrow> coro_world \<Rightarrow> coro_world result" where
  "task_destroy h w = destroy_frame h (print [''delete''] w)"

text \<open>
  \<^verbatim>\<open>resume\<close>.  \<^verbatim>\<open>task2\<close> runs to its end, where \<^verbatim>\<open>final_suspend\<close> does not suspend and the frame is destroyed.
  \<^verbatim>\<open>coro_fun\<close> calls \<^verbatim>\<open>task2\<close> and suspends in the await, whose \<^verbatim>\<open>await_suspend\<close> returns to the resumer; resumed
  again it destroys the awaited task at the end of the expression and runs to its end.
\<close>

definition resume :: "nat \<Rightarrow> coro_world \<Rightarrow> coro_world result" where
  "resume h w =
     (case frames w h of
        None \<Rightarrow> Inl Undefined_Behaviour
      | Some (Task2, _) \<Rightarrow> Inr (drop_frame h (print [''run'', ''Final suspend''] w))
      | Some (Coro_Fun, At_Start) \<Rightarrow>
          (let (k, w') = call_coro Task2 (print [''before''] w)
           in Inr (print [''suspend''] (w'\<lparr>frames := (frames w')(h \<mapsto> (Coro_Fun, At_Await k))\<rparr>)))
      | Some (Coro_Fun, At_Await k) \<Rightarrow>
          ebind (destroy_leaf k (print [''resume'', ''delete''] w)) (\<lambda>w'.
            Inr (drop_frame h (print [''after'', ''Final suspend''] w'))))"

definition coro_main :: "coro_world \<Rightarrow> coro_world result" where
  "coro_main w =
     (let (t, w1) = call_coro Coro_Fun w in
      ebind (resume t w1) (\<lambda>w2.
      task_destroy t (print [''destroy'', ''control''] w2)))"

section \<open>What it shows\<close>

text \<open>The program leaves no frame behind, and the awaited coroutine never runs.\<close>

lemma coro_main_frames:
  assumes "frames w (next_frame w) = None" "frames w (Suc (next_frame w)) = None"
  shows "\<exists>w'. coro_main w = Inr w' \<and> frames w' = frames w \<and>
    printed w' = printed w @ [''return'', ''construct'', ''Initial suspend'', ''before'',
      ''return'', ''construct'', ''Initial suspend'', ''suspend'', ''destroy'', ''control'', ''delete'', ''delete'']"
proof -
  have "(frames w)(Suc (next_frame w) := None, next_frame w := None) = frames w" using assms by auto
  then show ?thesis using assms
    by (auto simp: coro_main_def call_coro_def resume_def task_destroy_def destroy_frame_def destroy_leaf_def drop_frame_def
        print_def Let_def fun_upd_twist)
qed

text \<open>A task that was resumed to its end must not be destroyed: the frame is gone, because \<^verbatim>\<open>final_suspend\<close>
  does not suspend, and the destructor destroys it once more.\<close>

lemma finished_task_destroyed_twice:
  assumes "call_coro Coro_Fun w = (t, w1)" "resume t w1 = Inr w2" "resume t w2 = Inr w3"
  shows "task_destroy t w3 = Inl Undefined_Behaviour"
  using assms
  by (auto simp: call_coro_def resume_def task_destroy_def destroy_frame_def destroy_leaf_def drop_frame_def print_def Let_def)

end
