(* ===== verification/Spec2Isabelle.thy ===== *)
theory Spec2Isabelle
  imports Ids Awaitable Tls_Life File_Handle Workers Main_Loop Proxy_Relay Http_Client Serving Coro_Demo
begin

text \<open>
  A model of \<^verbatim>\<open>localsoftware\<close>, a web server on \<^verbatim>\<open>io_uring\<close> written in C++: an asynchronous runtime (a block
  allocator, objects with slots for children, worker threads with message queues and rings) and the
  servers that run on it (a landing server, a bandwidth monitor over websockets, a reverse proxy), with
  the main thread that accounts for the traffic of the network interface.  Paths below are relative to
  \<^verbatim>\<open>src/\<close>.

  \<^bold>\<open>How the parts work together.\<close>  A subclass of \<^verbatim>\<open>Event\<close> never does I/O itself.  While one of its
  members runs it queues constructions, calls on its children, \<^verbatim>\<open>io_uring\<close> requests and timers in
  its own event; when the member returns, its worker thread (\<^verbatim>\<open>ThreadData\<close>) turns the queue into messages
  and ring entries under global ids, and later hands each completion, timeout or end of a child to the
  object's \<^verbatim>\<open>on_yield\<close> under the local id the object knows.  The theories follow this order.

  \<^item> \<open>Prelude\<close>: machine integers and conversions, errors as a sum (\<open>'a result\<close>: an exception or
    undefined behaviour), functions that may not return (\<open>'a run\<close>), loops that can fail (\<open>efold\<close>), list
    and map updates, with the collections of simplification rules the other theories share.
  \<^item> \<open>Alloc_Arena\<close>, \<open>Alloc\<close>, \<open>Alloc_Spec\<close>: \<^verbatim>\<open>alloc/alloc_wrapper.{h,cpp}\<close>.  The boundary-tag array of an arena
    and its loops, \<^verbatim>\<open>bmalloc\<close> and \<^verbatim>\<open>bfree\<close> over the arenas, and the contract on lists of segments they
    refine: a block handed out overlaps no block in use, freeing coalesces and undoes an allocation.
    The scan is a \<^theory_text>\<open>partial_function\<close>: that it returns on well-formed arenas is proved, and that it does
    not after \<^verbatim>\<open>bmalloc(0)\<close>.
  \<^item> \<open>Ids\<close>: the blocks of a thousand ids of \<^verbatim>\<open>common/thread_data.cpp\<close>, \<^verbatim>\<open>common/async_handler.cpp\<close>; uniqueness
    under any interleaving, below \<open>2 ^ 64 div 1000\<close> blocks.
  \<^item> \<open>Event_Core\<close>, \<open>Event_Props\<close>: \<^verbatim>\<open>common/event.{h,cpp,t.cpp}\<close>, \<^verbatim>\<open>common/defs.h\<close>: slots, queues, the translation
    between local and global ids.
  \<^item> \<open>Sched_State\<close>, \<open>Scheduler\<close>: \<^verbatim>\<open>common/thread_data.{h,cpp}\<close>, \<^verbatim>\<open>common/async_thread_shared.h\<close>.  One worker
    thread with all work queues, the ring's queues and the heap cells its pointers name; one definition
    per member function.  The bodies of the classes are the parameter \<open>cl\<close>.  \<open>Sched_Props\<close>: what becomes
    of queued calls and constructions; \<open>Sched_Flow\<close>: a call runs and its result returns, deletion;
    \<open>Sched_Ring\<close>: the request cells, results and timers over any order of completions.
    \<open>Sched_Types\<close>: a contract on the bodies of the classes (a locale) under which every queued call finds
    an object of its class, in every state the scheduler reaches.
  \<^item> \<open>Awaitable\<close>: \<^verbatim>\<open>common/coro_types.{h,cpp}\<close>, the coroutine interface of the thread; \<open>Coro_Demo\<close>:
    \<^verbatim>\<open>coro/coro.cpp\<close>, the stand-alone example of coroutines.
  \<^item> \<open>App_Types\<close>: classes, constructors and member calls of the program as data, HTTP messages, and the
    part of Boost.Beast that is used as a parameter (\<open>beast\<close>).
  \<^item> \<open>Bytes_IO\<close> (\<^verbatim>\<open>common/readwrite_bytes\<close>), \<open>Websocket\<close> (\<^verbatim>\<open>common/websocket_socket\<close>), \<open>File_Handle\<close>
    (\<^verbatim>\<open>common/file\<close>), \<open>Tls\<close> (\<^verbatim>\<open>common/tls_socket\<close>), \<open>Http_IO\<close> (\<^verbatim>\<open>common/readwrite_http\<close>): the sockets.  OpenSSL
    is an interaction tree of reads and writes of its BIO, Beast's buffer, parser and serializer are
    functions with named laws and a line-based instance.  \<open>Tls_Life\<close>: what a TLS socket owns (\<^verbatim>\<open>SSLCtx\<close>, two
    blocks of the allocator, a BIO method), over any history of sockets.  \<open>Http_Client\<close>
    (\<^verbatim>\<open>common/readwrite_httpc\<close>): the client side of HTTP, on the former interface of the handler.
  \<^item> \<open>Decimal\<close>, \<open>Visit_Stats\<close> (\<^verbatim>\<open>logging/visit_stats\<close>), \<open>Http_Manager\<close> (\<^verbatim>\<open>common/http_manager\<close>): numbers as
    text, visit counts, endpoints and files below a base directory.
  \<^item> \<open>S40\<close>, \<open>Landing\<close>: \<^verbatim>\<open>aio_landing/\<close>, the thermostat client, the accepting object and the connection of
    the landing server.
  \<^item> \<open>Base64\<close>, \<open>Usage_Log\<close>, \<open>Monitor\<close>: \<^verbatim>\<open>bandwidth_monitor/\<close>, the handshake, the log as the browser gets it,
    live measurements.
  \<^item> \<open>Startup\<close>, \<open>Main_Loop\<close>: \<^verbatim>\<open>localsoftware.cpp\<close> and the constructor of \<^verbatim>\<open>AsyncHandler\<close>: sockets and root
    objects; counters, totals, the log, and their way to the browser.
    \<open>Workers\<close>: \<^verbatim>\<open>AsyncHandler::start\<close> and the vector whose elements the threads run on.
  \<^item> \<open>Program\<close>: the scheduler with the classes of the build in place of \<open>cl\<close> (the casts of the member-call
    closures, virtual dispatch), and the interpretation of the contract of \<open>Sched_Types\<close> on them.  \<open>Serving\<close>:
    the landing server end to end, from the accept over the request (well formed or not) and its
    response to the end of a connection by close or by timeout.
  \<^item> \<open>Proxy_Manager\<close>, \<open>Proxy_Server\<close>, \<open>Proxy_Relay\<close>: \<^verbatim>\<open>reverse_proxy/\<close>, tokens, one connection with its
    states, and the relay of an upgraded connection.

  \<^bold>\<open>State.\<close>  An object is a record of its members; a member function of a subclass maps the object and
  its \<open>app_event\<close> (the queue of its base class) to the new ones.  Pointers are addresses or ids, buffers
  lists of 8-bit words; a \<^verbatim>\<open>uint64_t\<close> is a 64-bit word, a C++ \<^verbatim>\<open>int\<close> an integer with conversions written
  out.  An exception, an unchecked index or an empty \<^verbatim>\<open>optional\<close> is a value of the error type.

  \<^bold>\<open>Fuel and bounds.\<close>  \<open>dequeue_loop\<close> has the source's bound of 256 messages, \<open>poll_loop\<close> its 60 polls.
  Loops without a bound are \<^theory_text>\<open>partial_function\<close>s, and their properties say whether they return.

  \<^bold>\<open>Not modelled.\<close>  \<^verbatim>\<open>alloc/block_allocator.cpp\<close> (an empty class), the threads themselves (\<open>Workers\<close> has what they are given),
  \<^verbatim>\<open>get_info\<close> and log output, the front end and the configuration files.  Concurrency of several workers
  is modelled only for the id blocks and, through the work queues, for the messages between threads; the
  mutexes of the statistics and the speeds make those accesses atomic.  A body that does not return is,
  in \<open>Program\<close>, the error \<open>No_Return\<close>.
\<close>

end
